(* ===== verification/Prelude.thy ===== *)
theory Prelude
  imports Main "HOL-Library.Word" "HOL-Library.State_Monad" "HOL-Library.Multiset"
begin

unbundle bit_operations_syntax

text \<open>
  Shared vocabulary of the development: the machine integer types of the C++ sources, the
  outcomes of code that can throw or block, the weakest-precondition rules for the state
  monad that the stateful components are written in, and the generic lemmas on lists,
  options and words that the component theories use.

  Conventions. A C++ \<^verbatim>\<open>uintN_t\<close> is an \<open>N word\<close>; \<^verbatim>\<open>size_t\<close>, \<^verbatim>\<open>uintptr_t\<close> and
  \<^verbatim>\<open>off_t\<close> are 64 bits wide, and an \<^verbatim>\<open>off_t\<close> is read with \<^const>\<open>sint\<close>. A C \<^verbatim>\<open>int\<close> whose
  values the code only compares or passes along is an \<^typ>\<open>int\<close>. \<^verbatim>\<open>std::string\<close> and
  \<^verbatim>\<open>std::string_view\<close> are \<^typ>\<open>string\<close>, and \<^verbatim>\<open>std::optional\<close> is \<open>option\<close>.
\<close>

subsection \<open>Types\<close>

type_synonym u8 = "8 word"
type_synonym u16 = "16 word"
type_synonym u32 = "32 word"
type_synonym u64 = "64 word"
type_synonym size_t = u64
type_synonym addr = u64

abbreviation (input) nullptr :: addr where
  "nullptr \<equiv> 0"

text \<open>
  What a call that can run foreign code produces: it returns, an exception unwinds it, the thread
  blocks in a wait that only another thread can end, or it is still in one of its loops when the
  model's fuel is used up.
\<close>

datatype 'a outcome = Return 'a | Throw | Block | Running

named_theorems wp_intro \<open>introduction rules for \<open>wp\<close>\<close>
named_theorems seam_defs \<open>the definitions of the calls through a seam\<close>

subsection \<open>Weakest preconditions for the state monad\<close>

text \<open>
  \<open>wp m Q s\<close> says that running \<open>m\<close> from \<open>s\<close> produces a result and a state that
  satisfy \<open>Q\<close>. The model's programs are total, so this is total correctness.
\<close>

definition wp :: "('s, 'a) state \<Rightarrow> ('a \<Rightarrow> 's \<Rightarrow> bool) \<Rightarrow> 's \<Rightarrow> bool" where
  "wp m Q s \<longleftrightarrow> (case run_state m s of (a, s') \<Rightarrow> Q a s')"

lemma wp_return [wp_intro]: "Q a s \<Longrightarrow> wp (State_Monad.return a) Q s"
  by (simp add: wp_def)

lemma wp_return_iff [simp]: "wp (State_Monad.return a) Q s \<longleftrightarrow> Q a s"
  by (simp add: wp_def)

lemma wp_bind_iff [simp]: "wp (State_Monad.bind m f) Q s \<longleftrightarrow> wp m (\<lambda>a. wp (f a) Q) s"
  by (simp add: wp_def split: prod.splits)

lemma wp_get_iff [simp]: "wp State_Monad.get Q s \<longleftrightarrow> Q s s"
  by (simp add: wp_def)

lemma wp_set_iff [simp]: "wp (State_Monad.set s') Q s \<longleftrightarrow> Q () s'"
  by (simp add: wp_def)

lemma wp_conseq: "wp m P s \<Longrightarrow> (\<And>a s'. P a s' \<Longrightarrow> Q a s') \<Longrightarrow> wp m Q s"
  by (auto simp: wp_def split: prod.splits)

lemma wp_bindI: "wp m P s \<Longrightarrow> (\<And>a s'. P a s' \<Longrightarrow> wp (f a) Q s') \<Longrightarrow> wp (State_Monad.bind m f) Q s"
  by (simp add: wp_conseq)

lemma wp_conj: "wp m P s \<Longrightarrow> wp m Q s \<Longrightarrow> wp m (\<lambda>a s'. P a s' \<and> Q a s') s"
  by (auto simp: wp_def split: prod.splits)

lemma wp_run: "wp m Q s \<Longrightarrow> run_state m s = (a, s') \<Longrightarrow> Q a s'"
  by (simp add: wp_def)

lemma wpI: "(\<And>a s'. run_state m s = (a, s') \<Longrightarrow> Q a s') \<Longrightarrow> wp m Q s"
  by (simp add: wp_def split: prod.splits)

subsection \<open>Calls with an outcome\<close>

text \<open>
  Sequencing calls that may not return, running the destructors of a scope when it is left by
  returning or by an exception, and the handler that catches everything.
\<close>

definition bindO :: "('s, 'a outcome) state \<Rightarrow> ('a \<Rightarrow> ('s, 'b outcome) state) \<Rightarrow> ('s, 'b outcome) state" where
  "bindO m f = do {
     r \<leftarrow> m;
     case r of
       Return a \<Rightarrow> f a
     | Throw \<Rightarrow> State_Monad.return Throw
     | Block \<Rightarrow> State_Monad.return Block
     | Running \<Rightarrow> State_Monad.return Running
   }"

definition finallyO :: "('s, 'a outcome) state \<Rightarrow> ('s, unit) state \<Rightarrow> ('s, 'a outcome) state" where
  "finallyO m cleanup = do {
     r \<leftarrow> m;
     case r of
       Return a \<Rightarrow> do { _ \<leftarrow> cleanup; State_Monad.return r }
     | Throw \<Rightarrow> do { _ \<leftarrow> cleanup; State_Monad.return r }
     | Block \<Rightarrow> State_Monad.return Block
     | Running \<Rightarrow> State_Monad.return Running
   }"

definition catchO :: "('s, 'a outcome) state \<Rightarrow> 'a \<Rightarrow> ('s, 'a outcome) state" where
  "catchO m a = do {
     r \<leftarrow> m;
     State_Monad.return (case r of Throw \<Rightarrow> Return a | _ \<Rightarrow> r)
   }"

text \<open>A step that always returns.\<close>

definition liftO :: "('s, 'a) state \<Rightarrow> ('s, 'a outcome) state" where
  "liftO m = do { a \<leftarrow> m; State_Monad.return (Return a) }"

text \<open>\<open>ends r\<close>: the call came back, by returning or by an exception.\<close>

fun ends :: "'a outcome \<Rightarrow> bool" where
  "ends (Return a) \<longleftrightarrow> True"
| "ends Throw \<longleftrightarrow> True"
| "ends Block \<longleftrightarrow> False"
| "ends Running \<longleftrightarrow> False"

lemma wp_bind_fun: "wp (State_Monad.bind m f) Q = wp m (\<lambda>a. wp (f a) Q)"
  by (rule ext) simp

lemma wp_return_fun: "wp (State_Monad.return r) Q = Q r"
  by (rule ext) simp

lemma wp_liftO [simp]: "wp (liftO m) Q s \<longleftrightarrow> wp m (\<lambda>a. Q (Return a)) s"
  by (simp add: liftO_def wp_return_fun)

lemma wp_bindO:
  assumes "wp m P s" "\<And>a s'. P (Return a) s' \<Longrightarrow> wp (f a) Q s'"
    and "\<And>s'. P Throw s' \<Longrightarrow> Q Throw s'" "\<And>s'. P Block s' \<Longrightarrow> Q Block s'" "\<And>s'. P Running s' \<Longrightarrow> Q Running s'"
  shows "wp (bindO m f) Q s"
  unfolding bindO_def by (rule wp_bindI [OF assms(1)]) (use assms(2-) in \<open>auto split: outcome.splits\<close>)

lemma wp_finallyO:
  assumes "wp m P s" "\<And>r s'. ends r \<Longrightarrow> P r s' \<Longrightarrow> wp cleanup (\<lambda>_. Q r) s'"
    and "\<And>s'. P Block s' \<Longrightarrow> Q Block s'" "\<And>s'. P Running s' \<Longrightarrow> Q Running s'"
  shows "wp (finallyO m cleanup) Q s"
  unfolding finallyO_def
  by (rule wp_bindI [OF assms(1)]) (use assms(2-) in \<open>auto simp: wp_return_fun split: outcome.splits\<close>)

lemma wp_catchO:
  assumes "wp m P s" "\<And>s'. P Throw s' \<Longrightarrow> Q (Return a) s'" "\<And>r s'. r \<noteq> Throw \<Longrightarrow> P r s' \<Longrightarrow> Q r s'"
  shows "wp (catchO m a) Q s"
  unfolding catchO_def by (rule wp_bindI [OF assms(1)]) (use assms(2-) in \<open>auto split: outcome.splits\<close>)

subsection \<open>Lists\<close>

lemma takeWhile_all_dropWhile: "dropWhile P xs = [] \<longleftrightarrow> (\<forall>x\<in>set xs. P x)"
  by (induction xs) auto

lemma dropWhile_rev_snoc: "rev (dropWhile P (rev (xs @ [x]))) = (if P x then rev (dropWhile P (rev xs)) else xs @ [x])"
  by simp

lemma map_upt_nth_eq: "n = length xs \<Longrightarrow> map (\<lambda>i. f (xs ! i)) [0..<n] = map f xs"
  by (rule nth_equalityI) auto

lemma take_Suc_nth: "i < length xs \<Longrightarrow> take (Suc i) xs = take i xs @ [xs ! i]"
  by (rule take_Suc_conv_app_nth)

text \<open>
  What the occupied cells of a heap, a list of options, hold together, and what replacing a cell
  changes.
\<close>

definition total :: "('a \<Rightarrow> 'r multiset) \<Rightarrow> 'a option list \<Rightarrow> 'r multiset" where
  "total f xs = (\<Sum>s\<leftarrow>xs. case s of None \<Rightarrow> {#} | Some x \<Rightarrow> f x)"

lemma total_simps [simp]:
  "total f [] = {#}" "total f (None # xs) = total f xs" "total f (Some x # xs) = f x + total f xs"
  "total f (xs @ ys) = total f xs + total f ys"
  by (simp_all add: total_def)

lemma total_Cons: "total f (s # xs) = (case s of None \<Rightarrow> {#} | Some x \<Rightarrow> f x) + total f xs"
  by (simp add: total_def)

definition total_but :: "('a \<Rightarrow> 'r multiset) \<Rightarrow> nat \<Rightarrow> 'a option list \<Rightarrow> 'r multiset" where
  "total_but f i xs = total f (take i xs) + total f (drop (Suc i) xs)"

lemma total_split:
  "i < length xs \<Longrightarrow> total f xs = (case xs ! i of None \<Rightarrow> {#} | Some x \<Rightarrow> f x) + total_but f i xs"
  by (subst id_take_nth_drop [of i xs]) (auto simp: total_but_def total_Cons ac_simps)

lemma total_update:
  "i < length xs \<Longrightarrow> total f (xs[i := s]) = (case s of None \<Rightarrow> {#} | Some x \<Rightarrow> f x) + total_but f i xs"
  by (simp add: upd_conv_take_nth_drop total_but_def total_Cons ac_simps)

subsection \<open>Words\<close>

lemma unat_drop_bit: "unat (drop_bit n (w :: 'a::len word)) = unat w div 2 ^ n"
proof -
  have "unat (drop_bit n w) = drop_bit n (take_bit LENGTH('a) (unat w))"
    by (rule unsigned_drop_bit_eq)
  also have "take_bit LENGTH('a) (unat w) = unat w"
    by (rule take_bit_nat_eq_self) (rule unsigned_less)
  finally show ?thesis
    by (simp only: drop_bit_eq_div)
qed

lemma u8_less_256: "unat (b :: u8) < 256"
  using unsigned_less [of b] by simp

lemma unat_and_15: "unat ((b :: u8) AND 15) = unat b mod 16"
proof -
  have "b AND 15 = take_bit 4 b"
    by (simp add: take_bit_eq_mask mask_eq_exp_minus_1)
  also have "unat (take_bit 4 b) = take_bit 4 (unat b)"
    by (rule unsigned_take_bit_eq)
  finally show ?thesis
    by (simp add: take_bit_eq_mod)
qed

end
