(* ===== verification/Shared_Utils.thy ===== *)
theory Shared_Utils
  imports Prelude
begin

text \<open>
  The helpers under \<^verbatim>\<open>shared/\<close>: strict integer parsing (\<^verbatim>\<open>hipobj-parse.h\<close>) over a model of
  \<^verbatim>\<open>std::from_chars\<close>, the bounded views of \<^verbatim>\<open>hipobj-span.h\<close>, and the decimal printing that
  \<^verbatim>\<open>std::to_string\<close> and \<^verbatim>\<open>std::format\<close> do for the callers of these helpers.
\<close>

subsection \<open>Digits\<close>

definition NUL :: char where
  "NUL = CHR 0x00"

definition digit_value :: "char \<Rightarrow> nat option" where
  "digit_value c =
     (let n = of_char c :: nat in
      if 48 \<le> n \<and> n \<le> 57 then Some (n - 48)
      else if 97 \<le> n \<and> n \<le> 122 then Some (n - 87)
      else if 65 \<le> n \<and> n \<le> 90 then Some (n - 55)
      else None)"

definition is_base_digit :: "nat \<Rightarrow> char \<Rightarrow> bool" where
  "is_base_digit base c = (case digit_value c of None \<Rightarrow> False | Some d \<Rightarrow> d < base)"

definition digit_or_0 :: "char \<Rightarrow> nat" where
  "digit_or_0 c = (case digit_value c of None \<Rightarrow> 0 | Some d \<Rightarrow> d)"

fun digits_value :: "nat \<Rightarrow> nat \<Rightarrow> string \<Rightarrow> nat" where
  "digits_value base acc [] = acc"
| "digits_value base acc (c # cs) = digits_value base (acc * base + digit_or_0 c) cs"

definition digit_char :: "nat \<Rightarrow> char" where
  "digit_char d = char_of (48 + d)"

text \<open>The decimal text of a natural number and of an \<^verbatim>\<open>int\<close>, as \<^verbatim>\<open>std::to_string\<close> writes them.\<close>

fun show_nat :: "nat \<Rightarrow> string" where
  "show_nat n = (if n < 10 then [digit_char n] else show_nat (n div 10) @ [digit_char (n mod 10)])"

declare show_nat.simps [simp del]

definition to_string :: "int \<Rightarrow> string" where
  "to_string i = (if i < 0 then CHR ''-'' # show_nat (nat (- i)) else show_nat (nat i))"

subsection \<open>\<^verbatim>\<open>std::from_chars\<close> and \<^verbatim>\<open>parseNumber\<close>\<close>

text \<open>
  An integral type of the template parameter \<^verbatim>\<open>T\<close>: whether a minus sign is accepted, and the
  range of its values.
\<close>

record int_type =
  is_signed :: bool
  min_value :: int
  max_value :: int

definition uint8_t :: int_type where
  "uint8_t = \<lparr>is_signed = False, min_value = 0, max_value = 2 ^ 8 - 1\<rparr>"

definition uint16_t :: int_type where
  "uint16_t = \<lparr>is_signed = False, min_value = 0, max_value = 2 ^ 16 - 1\<rparr>"

definition unsigned_int :: int_type where
  "unsigned_int = \<lparr>is_signed = False, min_value = 0, max_value = 2 ^ 32 - 1\<rparr>"

definition uint64_t :: int_type where
  "uint64_t = \<lparr>is_signed = False, min_value = 0, max_value = 2 ^ 64 - 1\<rparr>"

definition int64_t :: int_type where
  "int64_t = \<lparr>is_signed = True, min_value = - (2 ^ 63), max_value = 2 ^ 63 - 1\<rparr>"

lemmas int_type_defs = uint8_t_def uint16_t_def unsigned_int_def uint64_t_def int64_t_def

datatype errc = errc_none | invalid_argument | result_out_of_range

text \<open>
  \<^verbatim>\<open>std::from_chars\<close> matches an optional minus sign (signed types only) and the longest run
  of digits of the base. It returns the text after the match, the error, and the value.
\<close>

definition from_chars :: "int_type \<Rightarrow> string \<Rightarrow> nat \<Rightarrow> string \<times> errc \<times> int" where
  "from_chars T text base =
     (let neg = (is_signed T \<and> text \<noteq> [] \<and> hd text = CHR ''-'');
          body = (if neg then tl text else text);
          ds = takeWhile (is_base_digit base) body;
          rest = dropWhile (is_base_digit base) body;
          m = int (digits_value base 0 ds);
          v = (if neg then - m else m)
      in if ds = [] then (text, invalid_argument, 0)
         else if v < min_value T \<or> max_value T < v then (rest, result_out_of_range, 0)
         else (rest, errc_none, v))"

definition kMinNumberBase :: int where
  "kMinNumberBase = 2"

definition kMaxNumberBase :: int where
  "kMaxNumberBase = 36"

definition kDefaultNumberBase :: int where
  "kDefaultNumberBase = 10"

lemmas number_base_defs = kMinNumberBase_def kMaxNumberBase_def kDefaultNumberBase_def

definition parseNumber :: "int_type \<Rightarrow> string \<Rightarrow> int \<Rightarrow> int option" where
  "parseNumber T text base =
     (if text = [] \<or> base < kMinNumberBase \<or> base > kMaxNumberBase then None
      else case from_chars T text (nat base) of (ptr, ec, value) \<Rightarrow>
        if ec \<noteq> errc_none \<or> ptr \<noteq> [] then None else Some value)"

subsection \<open>Views of memory that arrives as a pointer\<close>

text \<open>
  \<^verbatim>\<open>cStringView(str, maxLen)\<close> scans at most \<^verbatim>\<open>maxLen\<close> characters of the memory at \<^verbatim>\<open>str\<close> for a
  NUL. The memory is the list of the characters the pointer can reach.
\<close>

definition cStringView :: "string \<Rightarrow> nat \<Rightarrow> string" where
  "cStringView mem maxLen = takeWhile (\<lambda>c. c \<noteq> NUL) (take maxLen mem)"

definition cStringViewAll :: "string \<Rightarrow> string" where
  "cStringViewAll chars = cStringView chars (length chars)"

definition argSpan :: "int \<Rightarrow> 'a list \<Rightarrow> 'a list" where
  "argSpan argc argv = take (if argc > 0 then nat argc else 0) argv"

subsection \<open>Lemmas on digits\<close>

lemma of_char_digit_char: "d < 10 \<Longrightarrow> (of_char (digit_char d) :: nat) = 48 + d"
  by (simp add: digit_char_def)

lemma digit_value_digit_char [simp]: "d < 10 \<Longrightarrow> digit_value (digit_char d) = Some d"
  by (simp add: digit_value_def of_char_digit_char Let_def)

lemma is_base_digit_digit_char [simp]: "d < 10 \<Longrightarrow> is_base_digit 10 (digit_char d)"
  by (simp add: is_base_digit_def)

lemma digit_char_not_minus [simp]: "d < 10 \<Longrightarrow> digit_char d \<noteq> CHR ''-''"
proof
  assume "d < 10" and "digit_char d = CHR ''-''"
  then have "48 + d = (of_char (CHR ''-'') :: nat)"
    using of_char_digit_char by metis
  then show False by simp
qed

lemma digits_value_snoc: "digits_value b acc (xs @ [c]) = digits_value b acc xs * b + digit_or_0 c"
  by (induction xs arbitrary: acc) auto

lemma digits_value_acc: "digits_value b acc xs = acc * b ^ length xs + digits_value b 0 xs"
proof (induction xs arbitrary: acc)
  case (Cons c xs)
  show ?case
    using Cons.IH [of "acc * b + digit_or_0 c"] Cons.IH [of "digit_or_0 c"]
    by (simp add: algebra_simps)
qed simp

lemma show_nat_nonempty [simp]: "show_nat n \<noteq> []"
  by (subst show_nat.simps) simp

lemma show_nat_digits: "\<forall>c\<in>set (show_nat n). is_base_digit 10 c \<and> c \<noteq> CHR ''-''"
proof (induction n rule: show_nat.induct)
  case (1 n)
  then show ?case by (cases "n < 10") (auto simp: show_nat.simps [of n])
qed

lemma digits_value_show_nat: "digits_value 10 0 (show_nat n) = n"
proof (induction n rule: show_nat.induct)
  case (1 n)
  then show ?case
    by (cases "n < 10")
      (simp_all add: show_nat.simps [of n] digits_value_snoc digit_or_0_def)
qed

lemma length_show_nat_le: "n < 10 ^ k \<Longrightarrow> 0 < k \<Longrightarrow> length (show_nat n) \<le> k"
proof (induction k arbitrary: n)
  case (Suc k)
  show ?case
  proof (cases "n < 10")
    case True
    then show ?thesis by (simp add: show_nat.simps [of n])
  next
    case False
    with Suc.prems have "n div 10 < 10 ^ k" and "0 < k"
      by (auto simp: less_mult_imp_div_less mult.commute intro: Nat.gr0I)
    with Suc.IH have "length (show_nat (n div 10)) \<le> k" by blast
    with False show ?thesis by (simp add: show_nat.simps [of n])
  qed
qed simp

subsection \<open>What \<^verbatim>\<open>parseNumber\<close> accepts\<close>

lemma takeWhile_all: "\<forall>x\<in>set xs. P x \<Longrightarrow> takeWhile P xs = xs"
  by (induction xs) auto

lemma dropWhile_all: "\<forall>x\<in>set xs. P x \<Longrightarrow> dropWhile P xs = []"
  by (induction xs) auto

text \<open>An unsigned type takes a non-empty run of digits whose value fits, and nothing else.\<close>

lemma parseNumber_unsigned_iff:
  assumes "\<not> is_signed T" and "min_value T = 0"
  shows "parseNumber T text base = Some v \<longleftrightarrow>
    text \<noteq> [] \<and> 2 \<le> base \<and> base \<le> 36 \<and> (\<forall>c\<in>set text. is_base_digit (nat base) c) \<and>
    v = int (digits_value (nat base) 0 text) \<and> v \<le> max_value T"
proof (cases "\<forall>c\<in>set text. is_base_digit (nat base) c")
  case True
  with assms show ?thesis
    by (auto simp: parseNumber_def from_chars_def Let_def number_base_defs
        takeWhile_all dropWhile_all split: if_splits)
next
  case False
  then have "dropWhile (is_base_digit (nat base)) text \<noteq> []"
    by (auto simp: takeWhile_all_dropWhile)
  with False assms show ?thesis
    by (auto simp: parseNumber_def from_chars_def Let_def split: if_splits prod.splits)
qed

lemma parseNumber_signed_nonneg:
  assumes "is_signed T" and "parseNumber T text base = Some v" and "0 < v"
  shows "\<forall>c\<in>set text. is_base_digit (nat base) c"
  using assms
  by (auto simp: parseNumber_def from_chars_def Let_def takeWhile_all_dropWhile split: if_splits)

lemma parseNumber_range:
  "parseNumber T text base = Some v \<Longrightarrow> min_value T \<le> v \<and> v \<le> max_value T"
  by (auto simp: parseNumber_def from_chars_def Let_def split: if_splits prod.splits)

lemma parseNumber_to_string:
  assumes "min_value T \<le> v" and "v \<le> max_value T" and "0 \<le> v \<or> is_signed T"
  shows "parseNumber T (to_string v) 10 = Some v"
proof (cases "v < 0")
  case True
  with assms show ?thesis
    using show_nat_digits [of "nat (- v)"]
    by (simp add: parseNumber_def from_chars_def to_string_def Let_def number_base_defs
        takeWhile_all dropWhile_all digits_value_show_nat)
next
  case False
  have "hd (show_nat (nat v)) \<noteq> CHR ''-''"
    using show_nat_digits [of "nat v"] hd_in_set [OF show_nat_nonempty] by blast
  with False assms show ?thesis
    using show_nat_digits [of "nat v"]
    by (simp add: parseNumber_def from_chars_def to_string_def Let_def number_base_defs
        takeWhile_all dropWhile_all digits_value_show_nat)
qed

lemma length_cStringView_le: "length (cStringView mem n) \<le> n"
  by (metis cStringView_def le_trans length_take length_takeWhile_le min.cobounded2)

lemma cStringView_terminated: "NUL \<notin> set s \<Longrightarrow> length s < n \<Longrightarrow> cStringView (s @ NUL # rest) n = s"
  by (simp add: cStringView_def takeWhile_append2 Suc_leI take_Cons' cong: if_cong)
    (auto simp: takeWhile_append)

end
