(* ===== verification/Gid.thy ===== *)
theory Gid
  imports Shared_Utils
begin

text \<open>
  GIDs, from \<^verbatim>\<open>src/common/gid.h\<close>. A \<^verbatim>\<open>Gid\<close> is a \<^verbatim>\<open>std::array\<close> of 16 bytes: the model's byte
  lists carry that length as the well-formedness predicate \<open>wf_gid\<close>.
\<close>

type_synonym Gid = "u8 list"

definition kGidLen :: nat where
  "kGidLen = 16"

definition wf_gid :: "Gid \<Rightarrow> bool" where
  "wf_gid g \<longleftrightarrow> length g = kGidLen"

definition kIpv4MappedPrefix :: "u8 list" where
  "kIpv4MappedPrefix = [0, 0, 0, 0, 0, 0, 0, 0, 0, 0, 0xff, 0xff]"

definition isIpv4MappedGid :: "Gid \<Rightarrow> bool" where
  "isIpv4MappedGid g = (take (length kIpv4MappedPrefix) g = kIpv4MappedPrefix)"

definition ipv4OfGid :: "Gid \<Rightarrow> u8 list" where
  "ipv4OfGid g = drop (length g - 4) g"

lemma wf_gid_length [simp]: "wf_gid g \<Longrightarrow> length g = 16"
  by (simp add: wf_gid_def kGidLen_def)

lemma length_ipv4OfGid [simp]: "wf_gid g \<Longrightarrow> length (ipv4OfGid g) = 4"
  by (simp add: ipv4OfGid_def)

text \<open>An IPv4-mapped GID is its prefix followed by its address.\<close>

lemma ipv4_mapped_decompose:
  assumes "wf_gid g"
  shows "isIpv4MappedGid g \<longleftrightarrow> g = kIpv4MappedPrefix @ ipv4OfGid g"
proof -
  have "length kIpv4MappedPrefix = 12" by (simp add: kIpv4MappedPrefix_def)
  moreover have "take 12 g = kIpv4MappedPrefix \<longleftrightarrow> g = kIpv4MappedPrefix @ drop 12 g"
    using calculation by (metis append_eq_conv_conj append_take_drop_id)
  ultimately show ?thesis
    using assms by (simp add: isIpv4MappedGid_def ipv4OfGid_def)
qed

end
