(* ===== verification/Ibv_Core.thy ===== *)
theory Ibv_Core
  imports Gid
begin

text \<open>
  The libibverbs types of \<^verbatim>\<open>src/common/ibv-core.h\<close> that the library uses, and the conversions of
  \<^verbatim>\<open>src/common/ibv-gid.h\<close>. An object that libibverbs hands out by pointer is a record of that
  pointer, of a serial number that tells it apart from every other object of the run, and of
  the members the library reads. The structures the library fills in and passes to
  libibverbs have all their members.
\<close>

unbundle bit_operations_syntax

subsection \<open>Enumerations\<close>

datatype ibv_mtu = IBV_MTU_NONE | IBV_MTU_256 | IBV_MTU_512 | IBV_MTU_1024 | IBV_MTU_2048 | IBV_MTU_4096

datatype ibv_port_state =
  IBV_PORT_NOP | IBV_PORT_DOWN | IBV_PORT_INIT | IBV_PORT_ARMED | IBV_PORT_ACTIVE | IBV_PORT_ACTIVE_DEFER

datatype ibv_wc_opcode =
  IBV_WC_SEND | IBV_WC_RDMA_WRITE | IBV_WC_RDMA_READ | IBV_WC_COMP_SWAP | IBV_WC_FETCH_ADD
| IBV_WC_BIND_MW | IBV_WC_LOCAL_INV | IBV_WC_TSO | IBV_WC_FLUSH | IBV_WC_ATOMIC_WRITE
| IBV_WC_RECV | IBV_WC_RECV_RDMA_WITH_IMM

datatype ibv_wc_status =
  IBV_WC_SUCCESS | IBV_WC_LOC_LEN_ERR | IBV_WC_LOC_QP_OP_ERR | IBV_WC_LOC_EEC_OP_ERR
| IBV_WC_LOC_PROT_ERR | IBV_WC_WR_FLUSH_ERR | IBV_WC_MW_BIND_ERR | IBV_WC_BAD_RESP_ERR
| IBV_WC_LOC_ACCESS_ERR | IBV_WC_REM_INV_REQ_ERR | IBV_WC_REM_ACCESS_ERR | IBV_WC_REM_OP_ERR
| IBV_WC_RETRY_EXC_ERR | IBV_WC_RNR_RETRY_EXC_ERR | IBV_WC_LOC_RDD_VIOL_ERR
| IBV_WC_REM_INV_RD_REQ_ERR | IBV_WC_REM_ABORT_ERR | IBV_WC_INV_EECN_ERR | IBV_WC_INV_EEC_STATE_ERR
| IBV_WC_FATAL_ERR | IBV_WC_RESP_TIMEOUT_ERR | IBV_WC_GENERAL_ERR | IBV_WC_TM_ERR
| IBV_WC_TM_RNDV_INCOMPLETE

datatype ibv_qp_type =
  IBV_QPT_NONE | IBV_QPT_RC | IBV_QPT_UC | IBV_QPT_UD | IBV_QPT_RAW_PACKET | IBV_QPT_XRC_SEND
| IBV_QPT_XRC_RECV | IBV_QPT_DRIVER

datatype ibv_qp_state =
  IBV_QPS_RESET | IBV_QPS_INIT | IBV_QPS_RTR | IBV_QPS_RTS | IBV_QPS_SQD | IBV_QPS_SQE | IBV_QPS_ERR
| IBV_QPS_UNKNOWN

datatype ibv_mig_state = IBV_MIG_MIGRATED | IBV_MIG_REARM | IBV_MIG_ARMED

subsection \<open>Flags\<close>

definition IBV_ACCESS_LOCAL_WRITE :: u32 where "IBV_ACCESS_LOCAL_WRITE = 1"
definition IBV_ACCESS_REMOTE_WRITE :: u32 where "IBV_ACCESS_REMOTE_WRITE = push_bit 1 1"
definition IBV_ACCESS_REMOTE_READ :: u32 where "IBV_ACCESS_REMOTE_READ = push_bit 2 1"

definition IBV_QP_STATE :: u32 where "IBV_QP_STATE = push_bit 0 1"
definition IBV_QP_ACCESS_FLAGS :: u32 where "IBV_QP_ACCESS_FLAGS = push_bit 3 1"
definition IBV_QP_PKEY_INDEX :: u32 where "IBV_QP_PKEY_INDEX = push_bit 4 1"
definition IBV_QP_PORT :: u32 where "IBV_QP_PORT = push_bit 5 1"
definition IBV_QP_AV :: u32 where "IBV_QP_AV = push_bit 7 1"
definition IBV_QP_PATH_MTU :: u32 where "IBV_QP_PATH_MTU = push_bit 8 1"
definition IBV_QP_TIMEOUT :: u32 where "IBV_QP_TIMEOUT = push_bit 9 1"
definition IBV_QP_RETRY_CNT :: u32 where "IBV_QP_RETRY_CNT = push_bit 10 1"
definition IBV_QP_RNR_RETRY :: u32 where "IBV_QP_RNR_RETRY = push_bit 11 1"
definition IBV_QP_RQ_PSN :: u32 where "IBV_QP_RQ_PSN = push_bit 12 1"
definition IBV_QP_MAX_QP_RD_ATOMIC :: u32 where "IBV_QP_MAX_QP_RD_ATOMIC = push_bit 13 1"
definition IBV_QP_MIN_RNR_TIMER :: u32 where "IBV_QP_MIN_RNR_TIMER = push_bit 15 1"
definition IBV_QP_SQ_PSN :: u32 where "IBV_QP_SQ_PSN = push_bit 16 1"
definition IBV_QP_MAX_DEST_RD_ATOMIC :: u32 where "IBV_QP_MAX_DEST_RD_ATOMIC = push_bit 17 1"
definition IBV_QP_DEST_QPN :: u32 where "IBV_QP_DEST_QPN = push_bit 20 1"

lemmas ibv_flag_defs = IBV_ACCESS_LOCAL_WRITE_def IBV_ACCESS_REMOTE_WRITE_def IBV_ACCESS_REMOTE_READ_def
  IBV_QP_STATE_def IBV_QP_ACCESS_FLAGS_def IBV_QP_PKEY_INDEX_def IBV_QP_PORT_def IBV_QP_AV_def
  IBV_QP_PATH_MTU_def IBV_QP_TIMEOUT_def IBV_QP_RETRY_CNT_def IBV_QP_RNR_RETRY_def IBV_QP_RQ_PSN_def
  IBV_QP_MAX_QP_RD_ATOMIC_def IBV_QP_MIN_RNR_TIMER_def IBV_QP_SQ_PSN_def IBV_QP_MAX_DEST_RD_ATOMIC_def
  IBV_QP_DEST_QPN_def

subsection \<open>Structures\<close>

record ibv_gid =
  raw :: "u8 list"

record ibv_device_attr =
  vendor_id :: u32
  phys_port_cnt :: u8

record ibv_port_attr =
  port_state :: ibv_port_state
  gid_tbl_len :: int

record ibv_wc =
  wr_id :: u64
  wc_status :: ibv_wc_status
  wc_opcode :: ibv_wc_opcode
  vendor_err :: u32

record ibv_device =
  dev_ptr :: addr
  dev_name_array :: string

record ibv_context =
  ctx_ptr :: addr
  ctx_serial :: nat
  ctx_device :: ibv_device

record ibv_pd =
  pd_ptr :: addr
  pd_serial :: nat

record ibv_mr =
  mr_ptr :: addr
  mr_serial :: nat
  mr_rkey :: u32

record ibv_cq =
  cq_ptr :: addr
  cq_serial :: nat
  cqe :: int

record ibv_qp =
  qp_ptr :: addr
  qp_serial :: nat
  qp_num :: u32

record ibv_global_route =
  dgid :: ibv_gid
  flow_label :: u32
  sgid_index :: u8
  hop_limit :: u8
  traffic_class :: u8

record ibv_ah_attr =
  grh :: ibv_global_route
  dlid :: u16
  sl :: u8
  src_path_bits :: u8
  static_rate :: u8
  is_global :: u8
  ah_port_num :: u8

record ibv_qp_cap =
  max_send_wr :: u32
  max_recv_wr :: u32
  max_send_sge :: u32
  max_recv_sge :: u32
  max_inline_data :: u32

record ibv_qp_init_attr =
  qp_context :: addr
  send_cq :: addr
  recv_cq :: addr
  srq :: addr
  init_cap :: ibv_qp_cap
  qp_type :: ibv_qp_type
  sq_sig_all :: int

record ibv_qp_attr =
  qp_state :: ibv_qp_state
  cur_qp_state :: ibv_qp_state
  path_mtu :: ibv_mtu
  path_mig_state :: ibv_mig_state
  qkey :: u32
  rq_psn :: u32
  sq_psn :: u32
  dest_qp_num :: u32
  qp_access_flags :: u32
  cap :: ibv_qp_cap
  ah_attr :: ibv_ah_attr
  alt_ah_attr :: ibv_ah_attr
  pkey_index :: u16
  alt_pkey_index :: u16
  en_sqd_async_notify :: u8
  sq_draining :: u8
  max_rd_atomic :: u8
  max_dest_rd_atomic :: u8
  min_rnr_timer :: u8
  port_num :: u8
  timeout :: u8
  retry_cnt :: u8
  rnr_retry :: u8
  alt_port_num :: u8
  alt_timeout :: u8
  rate_limit :: u32

subsection \<open>Work requests\<close>

text \<open>
  A list of work requests, linked by \<^verbatim>\<open>next\<close>, and the \<^verbatim>\<open>num_sge\<close> entries at \<^verbatim>\<open>sg_list\<close> are lists. A
  union of structures is a type with one constructor for each of them; the union of \<^verbatim>\<open>imm_data\<close> and
  \<^verbatim>\<open>invalidate_rkey\<close> is the 32 bits they share.
\<close>

datatype ibv_wr_opcode =
  IBV_WR_RDMA_WRITE | IBV_WR_RDMA_WRITE_WITH_IMM | IBV_WR_SEND | IBV_WR_SEND_WITH_IMM | IBV_WR_RDMA_READ
| IBV_WR_ATOMIC_CMP_AND_SWP | IBV_WR_ATOMIC_FETCH_AND_ADD | IBV_WR_LOCAL_INV | IBV_WR_BIND_MW
| IBV_WR_SEND_WITH_INV | IBV_WR_TSO | IBV_WR_DRIVER1 | IBV_WR_FLUSH | IBV_WR_ATOMIC_WRITE

record ibv_sge =
  sge_addr :: u64
  sge_length :: u32
  sge_lkey :: u32

record ibv_mw_bind_info =
  bind_mr :: addr
  bind_addr :: u64
  bind_length :: u64
  mw_access_flags :: u32

record ibv_send_wr_bind_mw =
  bind_mw_mw :: addr
  bind_mw_rkey :: u32
  bind_info :: ibv_mw_bind_info

record ibv_send_wr_tso =
  tso_hdr :: addr
  tso_hdr_sz :: u16
  tso_mss :: u16

datatype send_wr_target = WrRdma u64 u32 | WrAtomic u64 u64 u64 u32 | WrUd addr u32 u32

datatype send_wr_extra = WrBindMw ibv_send_wr_bind_mw | WrTso ibv_send_wr_tso

record ibv_send_wr =
  send_wr_id :: u64
  send_sg_list :: "ibv_sge list"
  send_opcode :: ibv_wr_opcode
  send_flags :: u32
  imm_or_rkey :: u32
  send_target :: send_wr_target
  xrc_remote_srqn :: u32
  send_extra :: send_wr_extra

record ibv_recv_wr =
  recv_wr_id :: u64
  recv_sg_list :: "ibv_sge list"

subsection \<open>Zeroed structures\<close>

text \<open>
  \<^verbatim>\<open>zeroedObject<T>()\<close>: every byte zero. The enumerator with value 0 is the first of its type;
  \<^verbatim>\<open>ibv_mtu\<close> and \<^verbatim>\<open>ibv_qp_type\<close> have none, so the model adds \<open>IBV_MTU_NONE\<close> and \<open>IBV_QPT_NONE\<close>.
\<close>

definition zeroed_grh :: ibv_global_route where
  "zeroed_grh = \<lparr>dgid = \<lparr>raw = replicate 16 0\<rparr>, flow_label = 0, sgid_index = 0, hop_limit = 0,
     traffic_class = 0\<rparr>"

definition zeroed_ah_attr :: ibv_ah_attr where
  "zeroed_ah_attr = \<lparr>grh = zeroed_grh, dlid = 0, sl = 0, src_path_bits = 0, static_rate = 0,
     is_global = 0, ah_port_num = 0\<rparr>"

definition zeroed_qp_cap :: ibv_qp_cap where
  "zeroed_qp_cap = \<lparr>max_send_wr = 0, max_recv_wr = 0, max_send_sge = 0, max_recv_sge = 0,
     max_inline_data = 0\<rparr>"

definition zeroed_qp_init_attr :: ibv_qp_init_attr where
  "zeroed_qp_init_attr = \<lparr>qp_context = 0, send_cq = 0, recv_cq = 0, srq = 0, init_cap = zeroed_qp_cap,
     qp_type = IBV_QPT_NONE, sq_sig_all = 0\<rparr>"

definition zeroed_qp_attr :: ibv_qp_attr where
  "zeroed_qp_attr = \<lparr>qp_state = IBV_QPS_RESET, cur_qp_state = IBV_QPS_RESET, path_mtu = IBV_MTU_NONE,
     path_mig_state = IBV_MIG_MIGRATED, qkey = 0, rq_psn = 0, sq_psn = 0, dest_qp_num = 0,
     qp_access_flags = 0, cap = zeroed_qp_cap, ah_attr = zeroed_ah_attr, alt_ah_attr = zeroed_ah_attr,
     pkey_index = 0, alt_pkey_index = 0, en_sqd_async_notify = 0, sq_draining = 0, max_rd_atomic = 0,
     max_dest_rd_atomic = 0, min_rnr_timer = 0, port_num = 0, timeout = 0, retry_cnt = 0,
     rnr_retry = 0, alt_port_num = 0, alt_timeout = 0, rate_limit = 0\<rparr>"

lemmas zeroed_defs = zeroed_grh_def zeroed_ah_attr_def zeroed_qp_cap_def zeroed_qp_init_attr_def
  zeroed_qp_attr_def

subsection \<open>\<^verbatim>\<open>ibv-gid.h\<close>\<close>

definition toGid :: "ibv_gid \<Rightarrow> Gid" where
  "toGid g = raw g"

definition toIbvGid :: "Gid \<Rightarrow> ibv_gid" where
  "toIbvGid g = \<lparr>raw = g\<rparr>"

lemma toGid_toIbvGid [simp]: "toGid (toIbvGid g) = g"
  by (simp add: toGid_def toIbvGid_def)

lemma toIbvGid_toGid [simp]: "toIbvGid (toGid g) = g"
  by (simp add: toGid_def toIbvGid_def)

end
