(* ===== verification/Seams.thy ===== *)
theory Seams
  imports Ibv_Core
begin

text \<open>
  The outside world: the three seams through which the library calls HIP
  (\<^verbatim>\<open>src/common/hip-seam.h\<close>), libibverbs (\<^verbatim>\<open>src/common/ibv-wrapper.h\<close>) and the NIC topology
  (\<^verbatim>\<open>src/common/nic-seam.h\<close>), the steady clock and sleep of the standard library, and the
  owning pointers of \<^verbatim>\<open>src/common/ibv-ptr.h\<close>.

  HIP, HSA, libibverbs and sysfs are not part of the sources, so each seam is a record of
  functions on an environment of type \<open>'e\<close>, which is a parameter of the model: every call
  returns what the environment answers and moves it on. A \<open>world\<close> holds the environment and a
  log of what the calls acquired and released and of the queue pair transitions, so that the
  theorems can say that nothing leaks, that nothing is released twice, and which state a
  queue pair is in.
\<close>

subsection \<open>HIP\<close>

datatype hipError_t = hipSuccess | hipErrorNoDevice | hipErrorNotReady | hipErrorCode int

fun hipErrorInt :: "hipError_t \<Rightarrow> int" where
  "hipErrorInt hipSuccess = 0"
| "hipErrorInt hipErrorNoDevice = 100"
| "hipErrorInt hipErrorNotReady = 600"
| "hipErrorInt (hipErrorCode n) = n"

datatype hipMemoryType = hipMemoryTypeUnregistered | hipMemoryTypeHost | hipMemoryTypeDevice
  | hipMemoryTypeManaged

datatype hipMemcpyKind = hipMemcpyHostToDevice | hipMemcpyDeviceToHost

text \<open>A method's out-parameters come back with its result.\<close>

record 'e HipRuntime =
  hip_getDevice :: "('e, hipError_t \<times> int) state"
  hip_getDeviceCount :: "('e, hipError_t \<times> int) state"
  hip_deviceGetPCIBusId :: "int \<Rightarrow> int \<Rightarrow> ('e, hipError_t \<times> string) state"
  hip_hostMalloc :: "size_t \<Rightarrow> ('e, hipError_t \<times> addr) state"
  hip_hostFree :: "addr \<Rightarrow> ('e, hipError_t) state"
  hip_deviceSynchronize :: "('e, hipError_t) state"
  hip_memcpyAsync :: "addr \<Rightarrow> addr \<Rightarrow> size_t \<Rightarrow> hipMemcpyKind \<Rightarrow> ('e, hipError_t) state"
  hip_eventCreate :: "('e, hipError_t \<times> addr) state"
  hip_eventRecord :: "addr \<Rightarrow> ('e, hipError_t) state"
  hip_eventQuery :: "addr \<Rightarrow> ('e, hipError_t) state"
  hip_eventDestroy :: "addr \<Rightarrow> ('e, hipError_t) state"
  hip_pointerGetAttributes :: "addr \<Rightarrow> ('e, hipError_t \<times> hipMemoryType) state"
  hip_memGetAddressRange :: "addr \<Rightarrow> ('e, hipError_t \<times> addr \<times> size_t) state"
  hip_exportDmabuf :: "addr \<Rightarrow> size_t \<Rightarrow> ('e, int \<times> int \<times> u64) state"
  hip_closeDmabuf :: "int \<Rightarrow> ('e, int) state"

subsection \<open>libibverbs\<close>

text \<open>
  \<^verbatim>\<open>get_device_list\<close> returns the array's pointer and its entries, so that the count it reports is
  the number of entries. A null pointer is \<open>None\<close>.
\<close>

record 'e Verbs =
  v_get_device_list :: "('e, (addr \<times> ibv_device option list) option) state"
  v_free_device_list :: "addr \<Rightarrow> ('e, unit) state"
  v_open_device :: "ibv_device \<Rightarrow> ('e, ibv_context option) state"
  v_close_device :: "ibv_context \<Rightarrow> ('e, int) state"
  v_get_device_name :: "ibv_device option \<Rightarrow> ('e, string option) state"
  v_query_device :: "ibv_context \<Rightarrow> ('e, int \<times> ibv_device_attr) state"
  v_query_port :: "ibv_context \<Rightarrow> u8 \<Rightarrow> ('e, int \<times> ibv_port_attr) state"
  v_query_gid :: "ibv_context \<Rightarrow> u8 \<Rightarrow> int \<Rightarrow> ('e, int \<times> ibv_gid) state"
  v_alloc_pd :: "ibv_context \<Rightarrow> ('e, ibv_pd option) state"
  v_dealloc_pd :: "ibv_pd \<Rightarrow> ('e, int) state"
  v_reg_mr :: "ibv_pd \<Rightarrow> addr \<Rightarrow> size_t \<Rightarrow> u32 \<Rightarrow> ('e, ibv_mr option) state"
  v_supportsDmabuf :: bool
  v_reg_dmabuf_mr :: "ibv_pd \<Rightarrow> u64 \<Rightarrow> size_t \<Rightarrow> u64 \<Rightarrow> int \<Rightarrow> u32 \<Rightarrow> ('e, ibv_mr option) state"
  v_dereg_mr :: "ibv_mr \<Rightarrow> ('e, int) state"
  v_create_cq :: "ibv_context \<Rightarrow> int \<Rightarrow> ('e, ibv_cq option) state"
  v_destroy_cq :: "ibv_cq \<Rightarrow> ('e, int) state"
  v_create_qp :: "ibv_pd \<Rightarrow> ibv_qp_init_attr \<Rightarrow> ('e, ibv_qp option) state"
  v_modify_qp :: "ibv_qp \<Rightarrow> ibv_qp_attr \<Rightarrow> u32 \<Rightarrow> ('e, int) state"
  v_destroy_qp :: "ibv_qp \<Rightarrow> ('e, int) state"
  v_poll_cq :: "ibv_cq \<Rightarrow> ('e, int \<times> ibv_wc) state"

subsection \<open>The world\<close>

datatype resource =
  DeviceList nat | Context nat | Pd nat | Cq nat | Qp nat | Mr nat | HostBuf nat | Event nat | DmabufFd nat

datatype event =
  Acquire resource
| Release resource
| ModifyQp nat ibv_qp_attr u32 bool \<comment> \<open>queue pair, attributes, mask, and whether it succeeded\<close>
| StartCopy addr addr size_t hipMemcpyKind bool

record 'e world =
  env :: 'e
  log :: "event list"
  serial :: nat

definition liftE :: "('e, 'a) state \<Rightarrow> ('e world, 'a) state" where
  "liftE m = State (\<lambda>w. case run_state m (env w) of (a, e') \<Rightarrow> (a, w\<lparr>env := e'\<rparr>))"

definition emit :: "event \<Rightarrow> ('e world, unit) state" where
  "emit ev = State (\<lambda>w. ((), w\<lparr>log := log w @ [ev]\<rparr>))"

definition acquired :: "(nat \<Rightarrow> resource) \<Rightarrow> ('e world, nat) state" where
  "acquired R = State (\<lambda>w. (serial w, w\<lparr>log := log w @ [Acquire (R (serial w))], serial := serial w + 1\<rparr>))"

subsection \<open>Topology and platform\<close>

record NicInfo =
  dev_name :: string
  pcie_bus_id :: string
  numa_node :: int
  nic_port_num :: int

datatype RoceVersion = RoceUnknown | RoceV1 | RoceV2

text \<open>\<^verbatim>\<open>enumerate\<close> opens and closes devices, so it acts on the world; \<^verbatim>\<open>roceVersion\<close> only reads.\<close>

record 'e NicTopology =
  t_enumerate :: "string \<Rightarrow> ('e world, NicInfo list) state"
  t_roceVersion :: "string \<Rightarrow> u8 \<Rightarrow> int \<Rightarrow> ('e, RoceVersion) state"

text \<open>
  The platform of \<^verbatim>\<open>src/state.h\<close>, and, since the model has no global functions with effects, the
  clock that the code reads with \<^verbatim>\<open>steady_clock::now()\<close>, in nanoseconds, and \<^verbatim>\<open>sleep_for\<close>.
\<close>

record 'e Platform =
  hip :: "'e HipRuntime"
  verbs :: "'e Verbs"
  topology :: "'e NicTopology"
  steady_now :: "('e, int) state"
  sleep_for :: "int \<Rightarrow> ('e, unit) state"

subsection \<open>Calls that acquire\<close>

definition get_device_list :: "'e Verbs \<Rightarrow> ('e world, (addr \<times> nat \<times> ibv_device option list) option) state" where
  "get_device_list V = do {
     r \<leftarrow> liftE (v_get_device_list V);
     case r of
       None \<Rightarrow> State_Monad.return None
     | Some (p, ds) \<Rightarrow> do { n \<leftarrow> acquired DeviceList; State_Monad.return (Some (p, n, ds)) }
   }"

definition open_device :: "'e Verbs \<Rightarrow> ibv_device \<Rightarrow> ('e world, ibv_context option) state" where
  "open_device V d = do {
     r \<leftarrow> liftE (v_open_device V d);
     case r of
       None \<Rightarrow> State_Monad.return None
     | Some c \<Rightarrow> do { n \<leftarrow> acquired Context; State_Monad.return (Some (c\<lparr>ctx_serial := n\<rparr>)) }
   }"

definition alloc_pd :: "'e Verbs \<Rightarrow> ibv_context \<Rightarrow> ('e world, ibv_pd option) state" where
  "alloc_pd V c = do {
     r \<leftarrow> liftE (v_alloc_pd V c);
     case r of
       None \<Rightarrow> State_Monad.return None
     | Some p \<Rightarrow> do { n \<leftarrow> acquired Pd; State_Monad.return (Some (p\<lparr>pd_serial := n\<rparr>)) }
   }"

definition create_cq :: "'e Verbs \<Rightarrow> ibv_context \<Rightarrow> int \<Rightarrow> ('e world, ibv_cq option) state" where
  "create_cq V c n_cqe = do {
     r \<leftarrow> liftE (v_create_cq V c n_cqe);
     case r of
       None \<Rightarrow> State_Monad.return None
     | Some q \<Rightarrow> do { n \<leftarrow> acquired Cq; State_Monad.return (Some (q\<lparr>cq_serial := n\<rparr>)) }
   }"

definition create_qp :: "'e Verbs \<Rightarrow> ibv_pd \<Rightarrow> ibv_qp_init_attr \<Rightarrow> ('e world, ibv_qp option) state" where
  "create_qp V pd attr = do {
     r \<leftarrow> liftE (v_create_qp V pd attr);
     case r of
       None \<Rightarrow> State_Monad.return None
     | Some q \<Rightarrow> do { n \<leftarrow> acquired Qp; State_Monad.return (Some (q\<lparr>qp_serial := n\<rparr>)) }
   }"

definition reg_mr :: "'e Verbs \<Rightarrow> ibv_pd \<Rightarrow> addr \<Rightarrow> size_t \<Rightarrow> u32 \<Rightarrow> ('e world, ibv_mr option) state" where
  "reg_mr V pd a len access = do {
     r \<leftarrow> liftE (v_reg_mr V pd a len access);
     case r of
       None \<Rightarrow> State_Monad.return None
     | Some m \<Rightarrow> do { n \<leftarrow> acquired Mr; State_Monad.return (Some (m\<lparr>mr_serial := n\<rparr>)) }
   }"

definition reg_dmabuf_mr ::
  "'e Verbs \<Rightarrow> ibv_pd \<Rightarrow> u64 \<Rightarrow> size_t \<Rightarrow> u64 \<Rightarrow> int \<Rightarrow> u32 \<Rightarrow> ('e world, ibv_mr option) state" where
  "reg_dmabuf_mr V pd off len iova fd access = do {
     r \<leftarrow> liftE (v_reg_dmabuf_mr V pd off len iova fd access);
     case r of
       None \<Rightarrow> State_Monad.return None
     | Some m \<Rightarrow> do { n \<leftarrow> acquired Mr; State_Monad.return (Some (m\<lparr>mr_serial := n\<rparr>)) }
   }"

text \<open>A host staging buffer, a HIP event and a dmabuf descriptor are their handle and their serial number.\<close>

type_synonym handle = "addr \<times> nat"

definition hostMalloc :: "'e HipRuntime \<Rightarrow> size_t \<Rightarrow> ('e world, hipError_t \<times> handle option) state" where
  "hostMalloc H n_bytes = do {
     r \<leftarrow> liftE (hip_hostMalloc H n_bytes);
     if fst r = hipSuccess \<and> snd r \<noteq> nullptr
     then do { n \<leftarrow> acquired HostBuf; State_Monad.return (fst r, Some (snd r, n)) }
     else State_Monad.return (fst r, None)
   }"

definition eventCreate :: "'e HipRuntime \<Rightarrow> ('e world, handle option) state" where
  "eventCreate H = do {
     r \<leftarrow> liftE (hip_eventCreate H);
     if fst r = hipSuccess
     then do { n \<leftarrow> acquired Event; State_Monad.return (Some (snd r, n)) }
     else State_Monad.return None
   }"

definition exportDmabuf ::
  "'e HipRuntime \<Rightarrow> addr \<Rightarrow> size_t \<Rightarrow> ('e world, int \<times> (int \<times> nat) \<times> u64) state" where
  "exportDmabuf H a len = do {
     r \<leftarrow> liftE (hip_exportDmabuf H a len);
     case r of (status, fd, off) \<Rightarrow>
       if status = 0
       then do { n \<leftarrow> acquired DmabufFd; State_Monad.return (status, (fd, n), off) }
       else State_Monad.return (status, (fd, 0), off)
   }"

subsection \<open>The deleters of the owning pointers\<close>

definition IbvDeviceListDeleter :: "'e Verbs \<Rightarrow> addr \<times> nat \<Rightarrow> ('e world, unit) state" where
  "IbvDeviceListDeleter V l = do { _ \<leftarrow> liftE (v_free_device_list V (fst l)); emit (Release (DeviceList (snd l))) }"

definition IbvContextDeleter :: "'e Verbs \<Rightarrow> ibv_context \<Rightarrow> ('e world, unit) state" where
  "IbvContextDeleter V c = do { _ \<leftarrow> liftE (v_close_device V c); emit (Release (Context (ctx_serial c))) }"

definition IbvPdDeleter :: "'e Verbs \<Rightarrow> ibv_pd \<Rightarrow> ('e world, unit) state" where
  "IbvPdDeleter V p = do { _ \<leftarrow> liftE (v_dealloc_pd V p); emit (Release (Pd (pd_serial p))) }"

definition IbvCqDeleter :: "'e Verbs \<Rightarrow> ibv_cq \<Rightarrow> ('e world, unit) state" where
  "IbvCqDeleter V q = do { _ \<leftarrow> liftE (v_destroy_cq V q); emit (Release (Cq (cq_serial q))) }"

definition IbvQpDeleter :: "'e Verbs \<Rightarrow> ibv_qp \<Rightarrow> ('e world, unit) state" where
  "IbvQpDeleter V q = do { _ \<leftarrow> liftE (v_destroy_qp V q); emit (Release (Qp (qp_serial q))) }"

definition IbvMrDeleter :: "'e Verbs \<Rightarrow> ibv_mr \<Rightarrow> ('e world, unit) state" where
  "IbvMrDeleter V m = do { _ \<leftarrow> liftE (v_dereg_mr V m); emit (Release (Mr (mr_serial m))) }"

definition HostBufDeleter :: "'e HipRuntime \<Rightarrow> handle \<Rightarrow> ('e world, unit) state" where
  "HostBufDeleter H b = do { _ \<leftarrow> liftE (hip_hostFree H (fst b)); emit (Release (HostBuf (snd b))) }"

definition HipEventDeleter :: "'e HipRuntime \<Rightarrow> handle \<Rightarrow> ('e world, unit) state" where
  "HipEventDeleter H ev = do { _ \<leftarrow> liftE (hip_eventDestroy H (fst ev)); emit (Release (Event (snd ev))) }"

definition DmabufFdDeleter :: "'e HipRuntime \<Rightarrow> int \<times> nat \<Rightarrow> ('e world, unit) state" where
  "DmabufFdDeleter H fd = do { _ \<leftarrow> liftE (hip_closeDmabuf H (fst fd)); emit (Release (DmabufFd (snd fd))) }"

text \<open>\<^verbatim>\<open>deviceSpan\<close>: the devices of the list, none for a null list.\<close>

definition deviceSpan :: "ibv_device option list option \<Rightarrow> int \<Rightarrow> ibv_device option list" where
  "deviceSpan l n = (case l of None \<Rightarrow> [] | Some ds \<Rightarrow> if n \<le> 0 then [] else take (nat n) ds)"

subsection \<open>Queue pair transitions and copies\<close>

definition modify_qp :: "'e Verbs \<Rightarrow> ibv_qp \<Rightarrow> ibv_qp_attr \<Rightarrow> u32 \<Rightarrow> ('e world, int) state" where
  "modify_qp V q attr msk = do {
     r \<leftarrow> liftE (v_modify_qp V q attr msk);
     _ \<leftarrow> emit (ModifyQp (qp_serial q) attr msk (r = 0));
     State_Monad.return r
   }"

definition memcpyAsync ::
  "'e HipRuntime \<Rightarrow> addr \<Rightarrow> addr \<Rightarrow> size_t \<Rightarrow> hipMemcpyKind \<Rightarrow> ('e world, hipError_t) state" where
  "memcpyAsync H dst src n_bytes kind = do {
     r \<leftarrow> liftE (hip_memcpyAsync H dst src n_bytes kind);
     _ \<leftarrow> emit (StartCopy dst src n_bytes kind (r = hipSuccess));
     State_Monad.return r
   }"

subsection \<open>What is live, and the state of a queue pair\<close>

text \<open>
  Reading the log: \<open>live\<close> is the multiset of the resources acquired and not yet released, and
  \<open>None\<close> once something has been released that was not live; \<open>qp_state_of\<close> is the state a queue
  pair is in, \<open>None\<close> before it is created and after a failed transition, which can leave it in any
  state.
\<close>

fun live_step :: "event \<Rightarrow> resource multiset option \<Rightarrow> resource multiset option" where
  "live_step (Acquire r) (Some M) = Some (add_mset r M)"
| "live_step (Release r) (Some M) = (if r \<in># M then Some (M - {#r#}) else None)"
| "live_step _ L = L"

definition live :: "event list \<Rightarrow> resource multiset option" where
  "live es = fold live_step es (Some {#})"

fun qp_step :: "nat \<Rightarrow> event \<Rightarrow> ibv_qp_state option \<Rightarrow> ibv_qp_state option" where
  "qp_step n (Acquire (Qp m)) st = (if m = n then Some IBV_QPS_RESET else st)"
| "qp_step n (ModifyQp m attr msk ok) st =
     (if m = n then (if ok then Some (qp_state attr) else None) else st)"
| "qp_step n _ st = st"

definition qp_state_of :: "nat \<Rightarrow> event list \<Rightarrow> ibv_qp_state option" where
  "qp_state_of n es = fold (qp_step n) es None"

lemma live_Nil [simp]: "live [] = Some {#}"
  by (simp add: live_def)

lemma live_append_one [simp]: "live (es @ [e]) = live_step e (live es)"
  by (simp add: live_def)

lemma live_append_cons [simp]: "live (es @ e # fs) = fold live_step fs (live_step e (live es))"
  by (simp add: live_def)

lemma live_step_None [simp]: "live_step e None = None"
  by (cases e) auto

lemma live_step_other [simp]: "live_step (ModifyQp m attr msk ok) L = L" "live_step (StartCopy d s n k ok) L = L"
  by (cases L; simp)+

text \<open>\<open>adds A L\<close>: the resources \<open>A\<close> on top of what was live.\<close>

definition adds :: "resource multiset \<Rightarrow> resource multiset option \<Rightarrow> resource multiset option" where
  "adds A L = map_option (\<lambda>M. A + M) L"

lemma adds_empty [simp]: "adds {#} L = L"
  by (cases L) (auto simp: adds_def)

lemma adds_adds [simp]: "adds A (adds B L) = adds (A + B) L"
  by (cases L) (auto simp: adds_def add.assoc)

lemma live_step_Acquire_live [simp]: "live_step (Acquire r) (live es) = adds {#r#} (live es)"
  by (cases "live es") (auto simp: adds_def)

lemma live_step_Acquire_adds [simp]: "live_step (Acquire r) (adds A L) = adds (add_mset r A) L"
  by (cases L) (auto simp: adds_def)

lemma live_step_Release_adds [simp]: "r \<in># A \<Longrightarrow> live_step (Release r) (adds A L) = adds (A - {#r#}) L"
  by (cases L) (auto simp: adds_def)

lemma adds_Some [simp]: "adds A (Some M) = Some (A + M)"
  by (simp add: adds_def)

lemma qp_state_of_append_one [simp]: "qp_state_of n (es @ [e]) = qp_step n e (qp_state_of n es)"
  by (simp add: qp_state_of_def)

lemma qp_state_of_append_cons [simp]:
  "qp_state_of n (es @ e # fs) = fold (qp_step n) fs (qp_step n e (qp_state_of n es))"
  by (simp add: qp_state_of_def)

subsection \<open>Legal transitions\<close>

text \<open>
  The transitions of a reliable-connected queue pair that \<^verbatim>\<open>ibv_modify_qp\<close> documents: to RESET from
  anywhere, and RESET to INIT, INIT to RTR, RTR to RTS with at least the attributes each of them
  requires. A queue pair whose state is not known may only be reset.
\<close>

fun required_attrs :: "ibv_qp_state \<Rightarrow> u32" where
  "required_attrs IBV_QPS_INIT =
     IBV_QP_STATE OR IBV_QP_PKEY_INDEX OR IBV_QP_PORT OR IBV_QP_ACCESS_FLAGS"
| "required_attrs IBV_QPS_RTR =
     IBV_QP_STATE OR IBV_QP_AV OR IBV_QP_PATH_MTU OR IBV_QP_DEST_QPN OR IBV_QP_RQ_PSN OR
     IBV_QP_MAX_DEST_RD_ATOMIC OR IBV_QP_MIN_RNR_TIMER"
| "required_attrs IBV_QPS_RTS =
     IBV_QP_STATE OR IBV_QP_TIMEOUT OR IBV_QP_RETRY_CNT OR IBV_QP_RNR_RETRY OR IBV_QP_SQ_PSN OR
     IBV_QP_MAX_QP_RD_ATOMIC"
| "required_attrs _ = IBV_QP_STATE"

fun legal_step :: "ibv_qp_state option \<Rightarrow> ibv_qp_state \<Rightarrow> bool" where
  "legal_step st IBV_QPS_RESET = True"
| "legal_step st IBV_QPS_INIT \<longleftrightarrow> st = Some IBV_QPS_RESET"
| "legal_step st IBV_QPS_RTR \<longleftrightarrow> st = Some IBV_QPS_INIT"
| "legal_step st IBV_QPS_RTS \<longleftrightarrow> st = Some IBV_QPS_RTR"
| "legal_step st _ = False"

fun legal_event :: "event list \<Rightarrow> event \<Rightarrow> bool" where
  "legal_event es (ModifyQp n attr msk ok) \<longleftrightarrow>
     legal_step (qp_state_of n es) (qp_state attr) \<and>
     msk AND required_attrs (qp_state attr) = required_attrs (qp_state attr)"
| "legal_event es _ \<longleftrightarrow> True"

text \<open>Every transition in a log was legal when it was made.\<close>

definition legal_log :: "event list \<Rightarrow> bool" where
  "legal_log es \<longleftrightarrow> (\<forall>i < length es. legal_event (take i es) (es ! i))"

lemma legal_log_Nil [simp]: "legal_log []"
  by (simp add: legal_log_def)

lemma legal_log_append_one: "legal_log (es @ [e]) \<longleftrightarrow> legal_log es \<and> legal_event es e"
  by (auto simp: legal_log_def nth_append less_Suc_eq)

fun legal_from :: "event list \<Rightarrow> event list \<Rightarrow> bool" where
  "legal_from es [] \<longleftrightarrow> True"
| "legal_from es (f # fs) \<longleftrightarrow> legal_event es f \<and> legal_from (es @ [f]) fs"

lemma legal_log_append: "legal_log (es @ fs) \<longleftrightarrow> legal_log es \<and> legal_from es fs"
proof (induction fs arbitrary: es)
  case (Cons f fs)
  then show ?case
    using Cons [of "es @ [f]"] by (simp add: legal_log_append_one)
qed simp

lemma legal_log_append_cons [simp]: "legal_log (es @ f # fs) \<longleftrightarrow> legal_log es \<and> legal_from es (f # fs)"
  by (rule legal_log_append)

subsection \<open>Symbolic execution of the calls\<close>

text \<open>
  One rule per call, with the world it leaves written out, so that \<open>simp\<close> reads the log and the
  serial numbers off it.
\<close>

lemma wp_if [simp]: "wp (if b then m else m') Q s \<longleftrightarrow> (if b then wp m Q s else wp m' Q s)"
  by simp

lemma wp_liftE_iff: "wp (liftE m) Q w \<longleftrightarrow> (case run_state m (env w) of (a, e) \<Rightarrow> Q a (w\<lparr>env := e\<rparr>))"
  by (simp add: wp_def liftE_def split: prod.splits)

lemma wp_liftE [wp_intro]: "(\<And>a e. Q a (w\<lparr>env := e\<rparr>)) \<Longrightarrow> wp (liftE m) Q w"
  by (simp add: wp_liftE_iff split: prod.splits)

lemma wp_emit [simp]: "wp (emit ev) Q w \<longleftrightarrow> Q () (w\<lparr>log := log w @ [ev]\<rparr>)"
  by (simp add: wp_def emit_def)

lemma wp_acquired [simp]:
  "wp (acquired R) Q w \<longleftrightarrow> Q (serial w) (w\<lparr>log := log w @ [Acquire (R (serial w))], serial := serial w + 1\<rparr>)"
  by (simp add: wp_def acquired_def)

text \<open>A call that acquires either fails and leaves the log alone, or logs the new resource.\<close>

lemma wp_get_device_list [wp_intro]:
  assumes "\<And>e. Q None (w\<lparr>env := e\<rparr>)"
    and "\<And>e p ds. Q (Some (p, serial w, ds))
           (w\<lparr>env := e, log := log w @ [Acquire (DeviceList (serial w))], serial := serial w + 1\<rparr>)"
  shows "wp (get_device_list V) Q w"
  using assms by (auto simp: get_device_list_def wp_liftE_iff split: prod.splits option.splits)

lemma wp_open_device [wp_intro]:
  assumes "\<And>e. Q None (w\<lparr>env := e\<rparr>)"
    and "\<And>e c. Q (Some (c\<lparr>ctx_serial := serial w\<rparr>))
           (w\<lparr>env := e, log := log w @ [Acquire (Context (serial w))], serial := serial w + 1\<rparr>)"
  shows "wp (open_device V d) Q w"
  using assms by (auto simp: open_device_def wp_liftE_iff split: prod.splits option.splits)

lemma wp_alloc_pd [wp_intro]:
  assumes "\<And>e. Q None (w\<lparr>env := e\<rparr>)"
    and "\<And>e p. Q (Some (p\<lparr>pd_serial := serial w\<rparr>))
           (w\<lparr>env := e, log := log w @ [Acquire (Pd (serial w))], serial := serial w + 1\<rparr>)"
  shows "wp (alloc_pd V c) Q w"
  using assms by (auto simp: alloc_pd_def wp_liftE_iff split: prod.splits option.splits)

lemma wp_create_cq [wp_intro]:
  assumes "\<And>e. Q None (w\<lparr>env := e\<rparr>)"
    and "\<And>e q. Q (Some (q\<lparr>cq_serial := serial w\<rparr>))
           (w\<lparr>env := e, log := log w @ [Acquire (Cq (serial w))], serial := serial w + 1\<rparr>)"
  shows "wp (create_cq V c n) Q w"
  using assms by (auto simp: create_cq_def wp_liftE_iff split: prod.splits option.splits)

lemma wp_create_qp [wp_intro]:
  assumes "\<And>e. Q None (w\<lparr>env := e\<rparr>)"
    and "\<And>e q. Q (Some (q\<lparr>qp_serial := serial w\<rparr>))
           (w\<lparr>env := e, log := log w @ [Acquire (Qp (serial w))], serial := serial w + 1\<rparr>)"
  shows "wp (create_qp V pd attr) Q w"
  using assms by (auto simp: create_qp_def wp_liftE_iff split: prod.splits option.splits)

lemma wp_reg_mr [wp_intro]:
  assumes "\<And>e. Q None (w\<lparr>env := e\<rparr>)"
    and "\<And>e m. Q (Some (m\<lparr>mr_serial := serial w\<rparr>))
           (w\<lparr>env := e, log := log w @ [Acquire (Mr (serial w))], serial := serial w + 1\<rparr>)"
  shows "wp (reg_mr V pd a len access) Q w"
  using assms by (auto simp: reg_mr_def wp_liftE_iff split: prod.splits option.splits)

lemma wp_reg_dmabuf_mr [wp_intro]:
  assumes "\<And>e. Q None (w\<lparr>env := e\<rparr>)"
    and "\<And>e m. Q (Some (m\<lparr>mr_serial := serial w\<rparr>))
           (w\<lparr>env := e, log := log w @ [Acquire (Mr (serial w))], serial := serial w + 1\<rparr>)"
  shows "wp (reg_dmabuf_mr V pd off len iova fd access) Q w"
  using assms by (auto simp: reg_dmabuf_mr_def wp_liftE_iff split: prod.splits option.splits)

lemma wp_hostMalloc [wp_intro]:
  assumes "\<And>e r. Q (r, None) (w\<lparr>env := e\<rparr>)"
    and "\<And>e a. a \<noteq> nullptr \<Longrightarrow> Q (hipSuccess, Some (a, serial w))
           (w\<lparr>env := e, log := log w @ [Acquire (HostBuf (serial w))], serial := serial w + 1\<rparr>)"
  shows "wp (hostMalloc H n) Q w"
  using assms by (auto simp: hostMalloc_def wp_liftE_iff split: prod.splits option.splits)

lemma wp_eventCreate [wp_intro]:
  assumes "\<And>e. Q None (w\<lparr>env := e\<rparr>)"
    and "\<And>e a. Q (Some (a, serial w))
           (w\<lparr>env := e, log := log w @ [Acquire (Event (serial w))], serial := serial w + 1\<rparr>)"
  shows "wp (eventCreate H) Q w"
  using assms by (auto simp: eventCreate_def wp_liftE_iff split: prod.splits option.splits)

lemma wp_exportDmabuf [wp_intro]:
  assumes "\<And>e st fd off. st \<noteq> 0 \<Longrightarrow> Q (st, fd, off) (w\<lparr>env := e\<rparr>)"
    and "\<And>e fd off. Q (0, (fd, serial w), off)
           (w\<lparr>env := e, log := log w @ [Acquire (DmabufFd (serial w))], serial := serial w + 1\<rparr>)"
  shows "wp (exportDmabuf H a len) Q w"
  using assms by (auto simp: exportDmabuf_def wp_liftE_iff split: prod.splits)

text \<open>A deleter logs the release of its resource, whatever the call it makes returns.\<close>

lemma wp_deleters [wp_intro]:
  "(\<And>e. Q () (w\<lparr>env := e, log := log w @ [Release (DeviceList (snd l))]\<rparr>)) \<Longrightarrow> wp (IbvDeviceListDeleter V l) Q w"
  "(\<And>e. Q () (w\<lparr>env := e, log := log w @ [Release (Context (ctx_serial c))]\<rparr>)) \<Longrightarrow> wp (IbvContextDeleter V c) Q w"
  "(\<And>e. Q () (w\<lparr>env := e, log := log w @ [Release (Pd (pd_serial p))]\<rparr>)) \<Longrightarrow> wp (IbvPdDeleter V p) Q w"
  "(\<And>e. Q () (w\<lparr>env := e, log := log w @ [Release (Cq (cq_serial cq))]\<rparr>)) \<Longrightarrow> wp (IbvCqDeleter V cq) Q w"
  "(\<And>e. Q () (w\<lparr>env := e, log := log w @ [Release (Qp (qp_serial qp))]\<rparr>)) \<Longrightarrow> wp (IbvQpDeleter V qp) Q w"
  "(\<And>e. Q () (w\<lparr>env := e, log := log w @ [Release (Mr (mr_serial m))]\<rparr>)) \<Longrightarrow> wp (IbvMrDeleter V m) Q w"
  "(\<And>e. Q () (w\<lparr>env := e, log := log w @ [Release (HostBuf (snd b))]\<rparr>)) \<Longrightarrow> wp (HostBufDeleter H b) Q w"
  "(\<And>e. Q () (w\<lparr>env := e, log := log w @ [Release (Event (snd b))]\<rparr>)) \<Longrightarrow> wp (HipEventDeleter H b) Q w"
  "(\<And>e. Q () (w\<lparr>env := e, log := log w @ [Release (DmabufFd (snd f))]\<rparr>)) \<Longrightarrow> wp (DmabufFdDeleter H f) Q w"
  by (simp_all add: IbvDeviceListDeleter_def IbvContextDeleter_def IbvPdDeleter_def IbvCqDeleter_def
      IbvQpDeleter_def IbvMrDeleter_def HostBufDeleter_def HipEventDeleter_def DmabufFdDeleter_def
      wp_liftE_iff split: prod.splits)

lemma wp_modify_qp [wp_intro]:
  assumes "\<And>e r. Q r (w\<lparr>env := e, log := log w @ [ModifyQp (qp_serial q) attr msk (r = 0)]\<rparr>)"
  shows "wp (modify_qp V q attr msk) Q w"
  using assms by (simp add: modify_qp_def wp_liftE_iff split: prod.splits)

lemma wp_memcpyAsync [wp_intro]:
  assumes "\<And>e r. Q r (w\<lparr>env := e, log := log w @ [StartCopy dst src n kind (r = hipSuccess)]\<rparr>)"
  shows "wp (memcpyAsync H dst src n kind) Q w"
  using assms by (simp add: memcpyAsync_def wp_liftE_iff split: prod.splits)

subsection \<open>Calls that leave the queue pairs alone\<close>

text \<open>Nothing about queue pairs changes, and transitions stay legal.\<close>

definition qps_same :: "'e world \<Rightarrow> 'e world \<Rightarrow> bool" where
  "qps_same w w' \<longleftrightarrow> serial w \<le> serial w' \<and> (\<forall>n < serial w. qp_state_of n (log w') = qp_state_of n (log w)) \<and>
     (legal_log (log w) \<longrightarrow> legal_log (log w'))"

lemma qps_same_refl [simp]: "qps_same w w"
  by (simp add: qps_same_def)

lemma qps_same_trans: "qps_same w w' \<Longrightarrow> qps_same w' w'' \<Longrightarrow> qps_same w w''"
  by (auto simp: qps_same_def)

lemma qps_same_env [simp]:
  "qps_same (w\<lparr>env := e\<rparr>) w' \<longleftrightarrow> qps_same w w'" "qps_same w (w'\<lparr>env := e\<rparr>) \<longleftrightarrow> qps_same w w'"
  by (simp_all add: qps_same_def)

end
