(* ===== verification/Sample_Platform.thy ===== *)
theory Sample_Platform
  imports Seams
begin

text \<open>
  A concrete platform on which the theorems about calls through the seams are applied: one device
  with one active port and one GID, a HIP runtime whose calls all succeed, and an environment that
  is the time in nanoseconds, which moves on by what a sleep asks for and by one at every reading.
\<close>

definition sample_device :: ibv_device where
  "sample_device = \<lparr>dev_ptr = 16, dev_name_array = ''ionic_0''\<rparr>"

definition sample_verbs :: "'e Verbs" where
  "sample_verbs =
    \<lparr>v_get_device_list = State_Monad.return (Some (32, [Some sample_device])),
     v_free_device_list = (\<lambda>_. State_Monad.return ()),
     v_open_device = (\<lambda>d. State_Monad.return (Some \<lparr>ctx_ptr = 48, ctx_serial = 0, ctx_device = d\<rparr>)),
     v_close_device = (\<lambda>_. State_Monad.return 0),
     v_get_device_name = (\<lambda>d. State_Monad.return (map_option dev_name_array d)),
     v_query_device = (\<lambda>_. State_Monad.return (0, \<lparr>vendor_id = 0x1DD8, phys_port_cnt = 1\<rparr>)),
     v_query_port = (\<lambda>_ _. State_Monad.return (0, \<lparr>port_state = IBV_PORT_ACTIVE, gid_tbl_len = 1\<rparr>)),
     v_query_gid = (\<lambda>_ _ _. State_Monad.return (0, \<lparr>raw = kIpv4MappedPrefix @ [10, 0, 0, 1]\<rparr>)),
     v_alloc_pd = (\<lambda>_. State_Monad.return (Some \<lparr>pd_ptr = 64, pd_serial = 0\<rparr>)),
     v_dealloc_pd = (\<lambda>_. State_Monad.return 0),
     v_reg_mr = (\<lambda>_ a _ _. State_Monad.return (Some \<lparr>mr_ptr = a, mr_serial = 0, mr_rkey = 7\<rparr>)),
     v_supportsDmabuf = True,
     v_reg_dmabuf_mr = (\<lambda>_ _ _ iova _ _. State_Monad.return (Some \<lparr>mr_ptr = iova, mr_serial = 0, mr_rkey = 9\<rparr>)),
     v_dereg_mr = (\<lambda>_. State_Monad.return 0),
     v_create_cq = (\<lambda>_ n. State_Monad.return (Some \<lparr>cq_ptr = 80, cq_serial = 0, cqe = n\<rparr>)),
     v_destroy_cq = (\<lambda>_. State_Monad.return 0),
     v_create_qp = (\<lambda>_ _. State_Monad.return (Some \<lparr>qp_ptr = 96, qp_serial = 0, qp_num = 17\<rparr>)),
     v_modify_qp = (\<lambda>_ _ _. State_Monad.return 0),
     v_destroy_qp = (\<lambda>_. State_Monad.return 0),
     v_poll_cq = (\<lambda>_. State_Monad.return (0, \<lparr>wr_id = 0, wc_status = IBV_WC_SUCCESS,
                    wc_opcode = IBV_WC_SEND, vendor_err = 0\<rparr>))\<rparr>"

definition sample_hip :: "'e HipRuntime" where
  "sample_hip =
    \<lparr>hip_getDevice = State_Monad.return (hipSuccess, 0),
     hip_getDeviceCount = State_Monad.return (hipSuccess, 1),
     hip_deviceGetPCIBusId = (\<lambda>_ _. State_Monad.return (hipSuccess, ''0000:42:00.0'' @ [CHR 0x00])),
     hip_hostMalloc = (\<lambda>_. State_Monad.return (hipSuccess, 4096)),
     hip_hostFree = (\<lambda>_. State_Monad.return hipSuccess),
     hip_deviceSynchronize = State_Monad.return hipSuccess,
     hip_memcpyAsync = (\<lambda>_ _ _ _. State_Monad.return hipSuccess),
     hip_eventCreate = State_Monad.return (hipSuccess, 112),
     hip_eventRecord = (\<lambda>_. State_Monad.return hipSuccess),
     hip_eventQuery = (\<lambda>_. State_Monad.return hipSuccess),
     hip_eventDestroy = (\<lambda>_. State_Monad.return hipSuccess),
     hip_pointerGetAttributes = (\<lambda>_. State_Monad.return (hipSuccess, hipMemoryTypeDevice)),
     hip_memGetAddressRange = (\<lambda>a. State_Monad.return (hipSuccess, a, 0x10000)),
     hip_exportDmabuf = (\<lambda>_ _. State_Monad.return (0, 5, 0)),
     hip_closeDmabuf = (\<lambda>_. State_Monad.return 0)\<rparr>"

definition sample_topology :: "'e NicTopology" where
  "sample_topology =
    \<lparr>t_enumerate = (\<lambda>_. State_Monad.return
       [\<lparr>dev_name = ''ionic_0'', pcie_bus_id = ''0000:43:00.0'', numa_node = 0, nic_port_num = 1\<rparr>]),
     t_roceVersion = (\<lambda>_ _ _. State_Monad.return RoceV2)\<rparr>"

definition sample_platform :: "int Platform" where
  "sample_platform =
    \<lparr>hip = sample_hip, verbs = sample_verbs, topology = sample_topology,
     steady_now = State (\<lambda>t. (t, t + 1)),
     sleep_for = (\<lambda>d. State (\<lambda>t. ((), t + max d 0)))\<rparr>"

definition sample_world :: "int world" where
  "sample_world = \<lparr>env = 0, log = [], serial = 0\<rparr>"

lemmas sample_defs = sample_device_def sample_verbs_def sample_hip_def sample_topology_def
  sample_platform_def sample_world_def

end
