(* ===== verification/Topology.thy ===== *)
theory Topology
  imports Sample_Platform
begin

text \<open>
  NIC and GID selection, from \<^verbatim>\<open>src/common/rdma-topology.cpp\<close> and \<^verbatim>\<open>src/common/nic-seam.h\<close>: the
  classification of GIDs and the choice of the preferred one, the PCIe bus distance and the choice
  of the NIC closest to a GPU, and the production topology that reads sysfs. The lemmas show that
  each choice is the documented optimum with ties going to the first, that the list of allowed
  devices is matched item by item, that the bus distance is a pseudometric, and that enumerating
  the NICs leaves nothing open.

  The file system is a parameter: \<open>'e Sysfs\<close> answers the two questions the code asks of it.
\<close>

subsection \<open>GIDs\<close>

datatype GidPriority = PrioUnknown | RoceV1LinkLocal | RoceV1Global | RoceV2LinkLocal | RoceV2Global | RoceV2Ipv4

fun priority_value :: "GidPriority \<Rightarrow> int" where
  "priority_value PrioUnknown = -1"
| "priority_value RoceV1LinkLocal = 0"
| "priority_value RoceV1Global = 1"
| "priority_value RoceV2LinkLocal = 2"
| "priority_value RoceV2Global = 3"
| "priority_value RoceV2Ipv4 = 5"

lemma priority_value_inject [simp]: "priority_value p = priority_value q \<longleftrightarrow> p = q"
  by (cases p; cases q) auto

text \<open>The enumerators are compared by their values.\<close>

instantiation GidPriority :: linorder
begin

definition less_eq_GidPriority :: "GidPriority \<Rightarrow> GidPriority \<Rightarrow> bool" where
  "p \<le> q \<longleftrightarrow> priority_value p \<le> priority_value q"

definition less_GidPriority :: "GidPriority \<Rightarrow> GidPriority \<Rightarrow> bool" where
  "p < q \<longleftrightarrow> priority_value p < priority_value q"

instance
  by standard (auto simp: less_eq_GidPriority_def less_GidPriority_def order.antisym)

end

record GidCandidate =
  index :: int
  cand_gid :: Gid
  cand_roceVersion :: RoceVersion

definition IsConfiguredGid :: "Gid \<Rightarrow> bool" where
  "IsConfiguredGid g \<longleftrightarrow> g \<noteq> replicate kGidLen 0"

definition kLinkLocalPrefix :: "u8 list" where
  "kLinkLocalPrefix = [0xfe, 0x80]"

definition LinkLocalGid :: "Gid \<Rightarrow> bool" where
  "LinkLocalGid g \<longleftrightarrow> take (length kLinkLocalPrefix) g = kLinkLocalPrefix"

definition ClassifyGid :: "Gid \<Rightarrow> RoceVersion \<Rightarrow> GidPriority" where
  "ClassifyGid g roce_ver =
     (case roce_ver of
        RoceV2 \<Rightarrow> if isIpv4MappedGid g then RoceV2Ipv4
                  else if LinkLocalGid g then RoceV2LinkLocal
                  else RoceV2Global
      | RoceV1 \<Rightarrow> if LinkLocalGid g then RoceV1LinkLocal else RoceV1Global
      | RoceUnknown \<Rightarrow> PrioUnknown)"

text \<open>One turn of \<^verbatim>\<open>PickBestGid\<close>'s loop, on \<^verbatim>\<open>best_idx\<close> and \<^verbatim>\<open>best_prio\<close>.\<close>

definition pickBestStep :: "GidCandidate \<Rightarrow> int option \<times> GidPriority \<Rightarrow> int option \<times> GidPriority" where
  "pickBestStep c best =
     (if \<not> IsConfiguredGid (cand_gid c) then best
      else let prio = ClassifyGid (cand_gid c) (cand_roceVersion c) in
        if prio \<noteq> PrioUnknown \<and> (fst best = None \<or> prio > snd best)
        then (Some (index c), prio)
        else best)"

definition PickBestGid :: "GidCandidate list \<Rightarrow> int option" where
  "PickBestGid candidates = fst (fold pickBestStep candidates (None, PrioUnknown))"

text \<open>The loop of \<^verbatim>\<open>AutoSelectGidIndex\<close> over the GID table, and the function.\<close>

fun gidCandidates ::
  "'e Verbs \<Rightarrow> 'e NicTopology \<Rightarrow> ibv_context \<Rightarrow> u8 \<Rightarrow> nat list \<Rightarrow> ('e world, GidCandidate list) state" where
  "gidCandidates V T ctx port [] = State_Monad.return []"
| "gidCandidates V T ctx port (i # is) = do {
     r \<leftarrow> liftE (v_query_gid V ctx port (int i));
     if fst r \<noteq> 0 then gidCandidates V T ctx port is
     else if \<not> IsConfiguredGid (toGid (snd r)) then gidCandidates V T ctx port is
     else do {
       ver \<leftarrow> liftE (t_roceVersion T (cStringViewAll (dev_name_array (ctx_device ctx))) port (int i));
       cs \<leftarrow> gidCandidates V T ctx port is;
       State_Monad.return (\<lparr>index = int i, cand_gid = toGid (snd r), cand_roceVersion = ver\<rparr> # cs)
     }
   }"

definition AutoSelectGidIndex ::
  "'e Verbs \<Rightarrow> 'e NicTopology \<Rightarrow> ibv_context \<Rightarrow> u8 \<Rightarrow> ('e world, int option) state" where
  "AutoSelectGidIndex V T ctx port = do {
     r \<leftarrow> liftE (v_query_port V ctx port);
     if fst r \<noteq> 0 then State_Monad.return None
     else do {
       cs \<leftarrow> gidCandidates V T ctx port [0..<nat (gid_tbl_len (snd r))];
       State_Monad.return (PickBestGid cs)
     }
   }"

definition SelectBestGid ::
  "'e Verbs \<Rightarrow> 'e NicTopology \<Rightarrow> ibv_context \<Rightarrow> u8 \<Rightarrow> ('e world, int option) state" where
  "SelectBestGid V T ctx port = AutoSelectGidIndex V T ctx port"

subsection \<open>PCIe bus distance\<close>

definition ExtractBusNumber :: "string \<Rightarrow> string" where
  "ExtractBusNumber pcie =
     (if CHR '':'' \<in> set pcie
      then rev (drop 1 (dropWhile (\<lambda>c. c \<noteq> CHR '':'') (rev pcie)))
      else pcie)"

text \<open>The loop that counts how many leading characters agree.\<close>

fun commonPrefixLen :: "string \<Rightarrow> string \<Rightarrow> nat" where
  "commonPrefixLen (x # xs) (y # ys) = (if x = y then Suc (commonPrefixLen xs ys) else 0)"
| "commonPrefixLen _ _ = 0"

definition INT_MAX :: int where
  "INT_MAX = 2 ^ 31 - 1"

definition GetBusIdDistance :: "string \<Rightarrow> string \<Rightarrow> int" where
  "GetBusIdDistance bus_a bus_b =
     (if bus_a = [] \<or> bus_b = [] then INT_MAX
      else let a = ExtractBusNumber bus_a; b = ExtractBusNumber bus_b in
        if a = b then 0
        else let i = commonPrefixLen a b in int (length a - i) + int (length b - i))"

subsection \<open>Device lists\<close>

definition is_blank :: "char \<Rightarrow> bool" where
  "is_blank c \<longleftrightarrow> c = CHR '' '' \<or> c = CHR 0x09"

definition skipBlanks :: "string \<Rightarrow> string" where
  "skipBlanks hca = (if list_all is_blank hca then hca else dropWhile is_blank hca)"

function HcaListIncludes :: "string \<Rightarrow> string \<Rightarrow> bool" where
  "HcaListIncludes hcaList devName =
     (let hca = skipBlanks (takeWhile (\<lambda>c. c \<noteq> CHR '','') hcaList) in
      if hca = devName then True
      else if CHR '','' \<notin> set hcaList then False
      else HcaListIncludes (drop 1 (dropWhile (\<lambda>c. c \<noteq> CHR '','') hcaList)) devName)"
  by pat_completeness auto

lemma dropWhile_comma_shorter:
  "CHR '','' \<in> set s \<Longrightarrow> length (drop 1 (dropWhile (\<lambda>c. c \<noteq> CHR '','') s)) < length s"
  by (induction s) auto

termination HcaListIncludes
  by (relation "measure (length \<circ> fst)") (use dropWhile_comma_shorter in auto)

declare HcaListIncludes.simps [simp del]

subsection \<open>The production topology\<close>

text \<open>
  What the code asks of the file system: the last component of the canonical form of a path, and
  the contents of a file, \<open>None\<close> when it cannot be resolved or opened.
\<close>

record 'e Sysfs =
  canonical_filename :: "string \<Rightarrow> ('e, string option) state"
  file_contents :: "string \<Rightarrow> ('e, string option) state"

text \<open>\<^verbatim>\<open>operator/\<close> of \<^verbatim>\<open>std::filesystem::path\<close>.\<close>

definition path_join :: "string \<Rightarrow> string \<Rightarrow> string" where
  "path_join a b =
     (if b \<noteq> [] \<and> hd b = CHR ''/'' then b
      else if a = [] \<or> last a = CHR ''/'' then a @ b
      else a @ ''/'' @ b)"

text \<open>
  \<^verbatim>\<open>istream >> int\<close> on the contents of a file: white space is skipped, a text with no number gives
  0, and a number out of range gives the nearest \<^verbatim>\<open>int\<close>. On a file that holds nothing but white
  space the variable keeps the value it had.
\<close>

definition is_space :: "char \<Rightarrow> bool" where
  "is_space c \<longleftrightarrow> c = CHR '' '' \<or> (9 \<le> (of_char c :: nat) \<and> (of_char c :: nat) \<le> 13)"

definition read_int :: "int \<Rightarrow> string \<Rightarrow> int" where
  "read_int old content =
     (let s = dropWhile is_space content in
      if s = [] then old
      else let neg = (hd s = CHR ''-'');
               ds = takeWhile (is_base_digit 10) (if hd s = CHR ''-'' \<or> hd s = CHR ''+'' then tl s else s);
               v = int (digits_value 10 0 ds)
        in max (- INT_MAX - 1) (min INT_MAX (if neg then - v else v)))"

definition nicInfoOf :: "'e Sysfs \<Rightarrow> string \<Rightarrow> u8 \<Rightarrow> ('e world, NicInfo) state" where
  "nicInfoOf S name p = do {
     let device_path = path_join (path_join ''/sys/class/infiniband'' name) ''device'';
     resolved \<leftarrow> liftE (canonical_filename S device_path);
     numa \<leftarrow> liftE (file_contents S (path_join device_path ''numa_node''));
     State_Monad.return
       \<lparr>dev_name = name,
        pcie_bus_id = (case resolved of None \<Rightarrow> [] | Some f \<Rightarrow> f),
        numa_node = (case numa of None \<Rightarrow> -1 | Some c \<Rightarrow> max (read_int (-1) c) 0),
        nic_port_num = uint p\<rparr>
   }"

definition port_is_active :: "ibv_port_attr \<Rightarrow> bool" where
  "port_is_active attr \<longleftrightarrow> port_state attr = IBV_PORT_ACTIVE \<or> port_state attr = IBV_PORT_ACTIVE_DEFER"

text \<open>
  The loop over a device's ports. Its counter is a \<^verbatim>\<open>uint8_t\<close>, so \<^verbatim>\<open>++p\<close> wraps. The result is the
  first active port, or \<open>None\<close> when there is none; the outer option is \<open>None\<close> when the fuel runs
  out.
\<close>

fun scanPorts :: "nat \<Rightarrow> 'e Verbs \<Rightarrow> ibv_context \<Rightarrow> u8 \<Rightarrow> u8 \<Rightarrow> ('e world, u8 option option) state" where
  "scanPorts 0 V ctx cnt p = State_Monad.return None"
| "scanPorts (Suc fuel) V ctx cnt p =
     (if p \<le> cnt
      then do {
        r \<leftarrow> liftE (v_query_port V ctx p);
        if fst r \<noteq> 0 then scanPorts fuel V ctx cnt (p + 1)
        else if \<not> port_is_active (snd r) then scanPorts fuel V ctx cnt (p + 1)
        else State_Monad.return (Some (Some p))
      }
      else State_Monad.return (Some None))"

definition deviceExcluded :: "string \<Rightarrow> string \<Rightarrow> bool" where
  "deviceExcluded hcaList nm \<longleftrightarrow> hcaList \<noteq> [] \<and> \<not> HcaListIncludes hcaList nm"

text \<open>The loop over the devices.\<close>

fun scanDevices ::
  "nat \<Rightarrow> 'e Verbs \<Rightarrow> 'e Sysfs \<Rightarrow> string \<Rightarrow> ibv_device option list \<Rightarrow> ('e world, NicInfo list option) state" where
  "scanDevices fuel V S hcaList [] = State_Monad.return (Some [])"
| "scanDevices fuel V S hcaList (None # ds) = State_Monad.return (Some [])"
| "scanDevices fuel V S hcaList (Some dev # ds) = do {
     name \<leftarrow> liftE (v_get_device_name V (Some dev));
     case name of
       None \<Rightarrow> scanDevices fuel V S hcaList ds
     | Some nm \<Rightarrow>
         if deviceExcluded hcaList nm then scanDevices fuel V S hcaList ds
         else do {
           ctx \<leftarrow> open_device V dev;
           case ctx of
             None \<Rightarrow> scanDevices fuel V S hcaList ds
           | Some c \<Rightarrow> do {
               attr \<leftarrow> liftE (v_query_device V c);
               if fst attr \<noteq> 0
               then do { _ \<leftarrow> IbvContextDeleter V c; scanDevices fuel V S hcaList ds }
               else do {
                 port \<leftarrow> scanPorts fuel V c (phys_port_cnt (snd attr)) 1;
                 case port of
                   None \<Rightarrow> State_Monad.return None
                 | Some None \<Rightarrow> do { _ \<leftarrow> IbvContextDeleter V c; scanDevices fuel V S hcaList ds }
                 | Some (Some p) \<Rightarrow> do {
                     info \<leftarrow> nicInfoOf S nm p;
                     _ \<leftarrow> IbvContextDeleter V c;
                     rest \<leftarrow> scanDevices fuel V S hcaList ds;
                     State_Monad.return (map_option (\<lambda>l. info # l) rest)
                   }
               }
             }
         }
   }"

definition SysfsTopology_enumerate ::
  "nat \<Rightarrow> 'e Verbs \<Rightarrow> 'e Sysfs \<Rightarrow> string \<Rightarrow> ('e world, NicInfo list option) state" where
  "SysfsTopology_enumerate fuel V S hcaList = do {
     l \<leftarrow> get_device_list V;
     case l of
       None \<Rightarrow> State_Monad.return (Some [])
     | Some (p, n, ds) \<Rightarrow> do {
         r \<leftarrow> (if length ds = 0 then State_Monad.return (Some [])
               else scanDevices fuel V S hcaList (deviceSpan (Some ds) (int (length ds))));
         case r of
           None \<Rightarrow> State_Monad.return None
         | Some nics \<Rightarrow> do { _ \<leftarrow> IbvDeviceListDeleter V (p, n); State_Monad.return (Some nics) }
       }
   }"

text \<open>\<^verbatim>\<open>std::string::find\<close> of a substring.\<close>

fun contains :: "string \<Rightarrow> string \<Rightarrow> bool" where
  "contains sub [] \<longleftrightarrow> sub = []"
| "contains sub (c # cs) \<longleftrightarrow> take (length sub) (c # cs) = sub \<or> contains sub cs"

definition SysfsTopology_roceVersion :: "'e Sysfs \<Rightarrow> string \<Rightarrow> u8 \<Rightarrow> int \<Rightarrow> ('e, RoceVersion) state" where
  "SysfsTopology_roceVersion S devName port gidIndex = do {
     let p = path_join (path_join (path_join (path_join (path_join ''/sys/class/infiniband'' devName) ''ports'')
               (to_string (uint port))) ''gid_attrs/types'') (to_string gidIndex);
     f \<leftarrow> file_contents S p;
     State_Monad.return (case f of
       None \<Rightarrow> RoceUnknown
     | Some [] \<Rightarrow> RoceUnknown
     | Some content \<Rightarrow>
         let line = takeWhile (\<lambda>c. c \<noteq> CHR 0x0A) content in
         if contains ''RoCE v2'' line then RoceV2
         else if contains ''IB/RoCE v1'' line \<or> contains ''RoCE v1'' line then RoceV1
         else RoceUnknown)
   }"

subsection \<open>The NIC closest to a GPU\<close>

record RdmaNic =
  nic_index :: int
  nic_name :: string

definition kPciBusIdBufLen :: nat where
  "kPciBusIdBufLen = 32"

text \<open>\<^verbatim>\<open>std::ranges::min_element\<close> with a projection: its position and the least value, first one first.\<close>

definition minElementStep :: "(nat \<times> int) \<Rightarrow> nat option \<times> int \<Rightarrow> nat option \<times> int" where
  "minElementStep x best = (if fst best = None \<or> snd x < snd best then (Some (fst x), snd x) else best)"

definition min_element :: "('a \<Rightarrow> int) \<Rightarrow> 'a list \<Rightarrow> nat option" where
  "min_element f xs = fst (fold minElementStep (List.enumerate 0 (map f xs)) (None, 0))"

definition GetClosestNicToGpu ::
  "'e HipRuntime \<Rightarrow> 'e NicTopology \<Rightarrow> int \<Rightarrow> string \<Rightarrow> ('e world, RdmaNic option) state" where
  "GetClosestNicToGpu H T gpuIndex hcaList = do {
     r \<leftarrow> liftE (hip_deviceGetPCIBusId H (int kPciBusIdBufLen) gpuIndex);
     if fst r \<noteq> hipSuccess then State_Monad.return None
     else do {
       let gpu_bus = takeWhile (\<lambda>c. c \<noteq> NUL) (take kPciBusIdBufLen (snd r));
       devices \<leftarrow> t_enumerate T hcaList;
       let distance = (\<lambda>nic. GetBusIdDistance (pcie_bus_id nic) gpu_bus);
       State_Monad.return (case min_element distance devices of
         None \<Rightarrow> None
       | Some i \<Rightarrow>
           if distance (devices ! i) = INT_MAX then None
           else Some \<lparr>nic_index = int i, nic_name = dev_name (devices ! i)\<rparr>)
     }
   }"

subsection \<open>Running selections\<close>

text \<open>
  The contract of a loop that keeps the best element so far: an element replaces it only when it
  is eligible and strictly better. The result is the first of the best.
\<close>

locale running_best =
  fixes step :: "'a \<Rightarrow> 'b option \<times> 'k::linorder \<Rightarrow> 'b option \<times> 'k"
    and eligible :: "'a \<Rightarrow> bool"
    and rank :: "'a \<Rightarrow> 'k"
    and better :: "'k \<Rightarrow> 'k \<Rightarrow> bool"
    and out :: "'a \<Rightarrow> 'b"
  assumes step_None: "step x (None, k) = (if eligible x then (Some (out x), rank x) else (None, k))"
    and step_Some: "step x (Some b, k) =
      (if eligible x \<and> better (rank x) k then (Some (out x), rank x) else (Some b, k))"
    and better_irrefl: "\<not> better k k"
    and better_trans: "better j k \<Longrightarrow> better k l \<Longrightarrow> better j l"
    and better_total: "better j k \<or> j = k \<or> better k j"
begin

definition is_first_best :: "'a list \<Rightarrow> nat \<Rightarrow> bool" where
  "is_first_best xs i \<longleftrightarrow> i < length xs \<and> eligible (xs ! i) \<and>
     (\<forall>j < length xs. eligible (xs ! j) \<longrightarrow> \<not> better (rank (xs ! j)) (rank (xs ! i))) \<and>
     (\<forall>j < i. eligible (xs ! j) \<longrightarrow> better (rank (xs ! i)) (rank (xs ! j)))"

lemma first_best_new:
  assumes "is_first_best xs i" "eligible x" "better (rank x) (rank (xs ! i))"
  shows "is_first_best (xs @ [x]) (length xs)"
proof -
  have beats: "better (rank x) (rank (xs ! j))" if "j < length xs" "eligible (xs ! j)" for j
    using assms that better_total [of "rank (xs ! j)" "rank (xs ! i)"]
      better_trans [of "rank x" "rank (xs ! i)" "rank (xs ! j)"]
    by (auto simp: is_first_best_def)
  then have "\<not> better (rank (xs ! j)) (rank x)" if "j < length xs" "eligible (xs ! j)" for j
    using that better_irrefl better_trans by blast
  then show ?thesis
    using assms(2) beats better_irrefl by (auto simp: is_first_best_def nth_append less_Suc_eq)
qed

lemma first_best_old:
  assumes "is_first_best xs i" "\<not> (eligible x \<and> better (rank x) (rank (xs ! i)))"
  shows "is_first_best (xs @ [x]) i"
  using assms by (auto simp: is_first_best_def nth_append less_Suc_eq)

lemma fold_step_invariant:
  "case fold step xs (None, k0) of
     (None, k) \<Rightarrow> \<forall>x\<in>set xs. \<not> eligible x
   | (Some b, k) \<Rightarrow> \<exists>i. is_first_best xs i \<and> b = out (xs ! i) \<and> k = rank (xs ! i)"
proof (induction xs rule: rev_induct)
  case (snoc x xs)
  show ?case
  proof (cases "fold step xs (None, k0)")
    case (Pair ob k)
    show ?thesis
    proof (cases ob)
      case None
      then have none: "\<forall>y\<in>set xs. \<not> eligible y"
        using snoc Pair by simp
      then have "is_first_best (xs @ [x]) (length xs)" if "eligible x"
        using that better_irrefl by (auto simp: is_first_best_def nth_append less_Suc_eq)
      then show ?thesis
        using Pair None none by (auto simp: step_None)
    next
      case (Some b)
      then obtain i where i: "is_first_best xs i" "b = out (xs ! i)" "k = rank (xs ! i)"
        using snoc Pair by auto
      then have "i < length xs"
        by (simp add: is_first_best_def)
      show ?thesis
      proof (cases "eligible x \<and> better (rank x) k")
        case True
        then show ?thesis
          using Pair Some i first_best_new [OF i(1), of x] by (auto simp: step_Some intro!: exI [of _ "length xs"])
      next
        case False
        then show ?thesis
          using Pair Some i first_best_old [OF i(1), of x] \<open>i < length xs\<close>
          by (auto simp: step_Some nth_append intro!: exI [of _ i])
      qed
    qed
  qed
qed simp

lemma selected_first_best:
  "fst (fold step xs (None, k0)) = Some b \<Longrightarrow> \<exists>i. is_first_best xs i \<and> b = out (xs ! i)"
  using fold_step_invariant [of xs k0] by (cases "fold step xs (None, k0)") (auto split: option.splits)

lemma nothing_selected:
  "fst (fold step xs (None, k0)) = None \<longleftrightarrow> (\<forall>x\<in>set xs. \<not> eligible x)"
  using fold_step_invariant [of xs k0]
  by (cases "fold step xs (None, k0)") (auto simp: is_first_best_def split: option.splits)

end

definition eligible_candidate :: "GidCandidate \<Rightarrow> bool" where
  "eligible_candidate c \<longleftrightarrow> IsConfiguredGid (cand_gid c) \<and>
     ClassifyGid (cand_gid c) (cand_roceVersion c) \<noteq> PrioUnknown"

abbreviation candidate_priority :: "GidCandidate \<Rightarrow> GidPriority" where
  "candidate_priority c \<equiv> ClassifyGid (cand_gid c) (cand_roceVersion c)"

interpretation best_gid: running_best pickBestStep eligible_candidate candidate_priority "(>)" index
  by unfold_locales (auto simp: pickBestStep_def eligible_candidate_def Let_def)

interpretation closest: running_best minElementStep "\<lambda>_. True" snd "(<)" fst
  by unfold_locales (auto simp: minElementStep_def)

lemma min_element_first_least:
  "min_element f xs = Some i \<Longrightarrow>
   i < length xs \<and> (\<forall>j < length xs. f (xs ! i) \<le> f (xs ! j)) \<and> (\<forall>j < i. f (xs ! i) < f (xs ! j))"
  unfolding min_element_def
  by (drule closest.selected_first_best)
     (auto simp: closest.is_first_best_def nth_enumerate_eq not_less)

lemma min_element_None [simp]: "min_element f xs = None \<longleftrightarrow> xs = []"
  unfolding min_element_def closest.nothing_selected by (cases xs) auto

text \<open>\<^verbatim>\<open>PickBestGid\<close> returns the index of a candidate that is configured, has a known RoCE version and
  the highest priority of all such candidates, and every such candidate before it has a strictly
  lower priority; it returns nothing exactly when no candidate is configured with a known version.\<close>

theorem PickBestGid_first_best:
  "case PickBestGid cs of
     Some n \<Rightarrow> \<exists>i. i < length cs \<and> n = index (cs ! i) \<and> eligible_candidate (cs ! i) \<and>
        (\<forall>j < length cs. eligible_candidate (cs ! j) \<longrightarrow> candidate_priority (cs ! j) \<le> candidate_priority (cs ! i)) \<and>
        (\<forall>j < i. eligible_candidate (cs ! j) \<longrightarrow> candidate_priority (cs ! j) < candidate_priority (cs ! i))
   | None \<Rightarrow> \<not> list_ex eligible_candidate cs"
proof (cases "PickBestGid cs")
  case None
  then show ?thesis
    using best_gid.nothing_selected [of cs PrioUnknown] by (simp add: PickBestGid_def list_ex_iff)
next
  case (Some n)
  then obtain i where "best_gid.is_first_best cs i" "n = index (cs ! i)"
    using best_gid.selected_first_best [of cs PrioUnknown] by (auto simp: PickBestGid_def)
  then show ?thesis
    using Some by (auto simp: best_gid.is_first_best_def not_less intro!: exI [of _ i])
qed

definition sample_candidates :: "GidCandidate list" where
  "sample_candidates =
     [\<lparr>index = 0, cand_gid = 0xfe # 0x80 # replicate 14 1, cand_roceVersion = RoceV2\<rparr>,
      \<lparr>index = 3, cand_gid = kIpv4MappedPrefix @ [10, 0, 0, 1], cand_roceVersion = RoceV2\<rparr>]"

theorem PickBestGid_first_best_witness:
  "PickBestGid sample_candidates = Some 3 \<and>
   (\<exists>i. i < length sample_candidates \<and> 3 = index (sample_candidates ! i) \<and>
        eligible_candidate (sample_candidates ! i))"
proof -
  have "PickBestGid sample_candidates = Some 3"
    by code_simp
  then show ?thesis
    using PickBestGid_first_best [of sample_candidates] by auto
qed

subsection \<open>The device list\<close>

text \<open>The items of a comma-separated list.\<close>

function items :: "string \<Rightarrow> string list" where
  "items s = takeWhile (\<lambda>c. c \<noteq> CHR '','') s #
     (if CHR '','' \<in> set s then items (drop 1 (dropWhile (\<lambda>c. c \<noteq> CHR '','') s)) else [])"
  by pat_completeness auto
termination items
  by (relation "measure length") (use dropWhile_comma_shorter in auto)

declare items.simps [simp del]

lemma HcaListIncludes_items: "HcaListIncludes l d \<longleftrightarrow> (\<exists>x\<in>set (items l). skipBlanks x = d)"
proof (induction l rule: items.induct)
  case (1 s)
  then show ?case
    by (subst HcaListIncludes.simps, subst items.simps) (auto simp: Let_def)
qed

lemma split_at_comma:
  assumes "CHR '','' \<notin> set x"
  shows "takeWhile (\<lambda>c. c \<noteq> CHR '','') (x @ CHR '','' # rest) = x"
    and "dropWhile (\<lambda>c. c \<noteq> CHR '','') (x @ CHR '','' # rest) = CHR '','' # rest"
  using assms by (induction x) auto

lemma items_join: "CHR '','' \<notin> set x \<Longrightarrow> items (x @ CHR '','' # rest) = x # items rest"
  by (subst items.simps) (simp add: split_at_comma)

lemma items_single: "CHR '','' \<notin> set x \<Longrightarrow> items x = [x]"
  by (subst items.simps) auto

text \<open>Joining with commas is the inverse of splitting.\<close>

fun join_commas :: "string list \<Rightarrow> string" where
  "join_commas [] = []"
| "join_commas [x] = x"
| "join_commas (x # y # zs) = x @ CHR '','' # join_commas (y # zs)"

lemma items_join_commas:
  "xs \<noteq> [] \<Longrightarrow> \<forall>x\<in>set xs. CHR '','' \<notin> set x \<Longrightarrow> items (join_commas xs) = xs"
  by (induction xs rule: join_commas.induct) (auto simp: items_single items_join)

text \<open>A list of device names joined by commas includes exactly its names, once the blanks before
  each are skipped.\<close>

lemma HcaListIncludes_joined:
  assumes "xs \<noteq> []" "\<forall>x\<in>set xs. CHR '','' \<notin> set x"
  shows "HcaListIncludes (join_commas xs) d \<longleftrightarrow> d \<in> skipBlanks ` set xs"
  using assms by (auto simp: HcaListIncludes_items items_join_commas)

subsection \<open>The bus distance\<close>

lemma commonPrefixLen_commute: "commonPrefixLen a b = commonPrefixLen b a"
  by (induction a b rule: commonPrefixLen.induct) (auto elim: commonPrefixLen.elims)

lemma commonPrefixLen_le: "commonPrefixLen a b \<le> length a" "commonPrefixLen a b \<le> length b"
  by (induction a b rule: commonPrefixLen.induct) auto

lemma commonPrefixLen_self [simp]: "commonPrefixLen a a = length a"
  by (induction a) auto

lemma commonPrefixLen_ultrametric:
  "min (commonPrefixLen a b) (commonPrefixLen b c) \<le> commonPrefixLen a c"
proof (induction a b arbitrary: c rule: commonPrefixLen.induct)
  case (1 x xs y ys)
  then show ?case
    by (cases c) auto
qed auto

lemma commonPrefixLen_full:
  "commonPrefixLen a b = length a \<Longrightarrow> commonPrefixLen a b = length b \<Longrightarrow> a = b"
  by (induction a b rule: commonPrefixLen.induct) (auto split: if_splits)

lemma GetBusIdDistance_alt:
  "a \<noteq> [] \<Longrightarrow> b \<noteq> [] \<Longrightarrow> GetBusIdDistance a b =
     int (length (ExtractBusNumber a)) + int (length (ExtractBusNumber b))
     - 2 * int (commonPrefixLen (ExtractBusNumber a) (ExtractBusNumber b))"
  using commonPrefixLen_le [of "ExtractBusNumber a" "ExtractBusNumber b"]
  by (auto simp: GetBusIdDistance_def Let_def)

lemma ExtractBusNumber_length: "length (ExtractBusNumber s) \<le> length s"
  by (simp add: ExtractBusNumber_def)
     (metis length_dropWhile_le length_rev diff_le_self le_trans)

text \<open>On known bus ids the bus distance is a pseudometric: it is never negative, zero exactly when
  the two ids have the same bus, symmetric, and satisfies the triangle inequality. An id that is
  not known is farther away than any two known ids of fewer than \<open>2 ^ 30\<close> characters.\<close>

theorem bus_distance_pseudometric:
  assumes "a \<noteq> []" "b \<noteq> []" "c \<noteq> []"
  shows "0 \<le> GetBusIdDistance a b \<and>
         (GetBusIdDistance a b = 0 \<longleftrightarrow> ExtractBusNumber a = ExtractBusNumber b) \<and>
         GetBusIdDistance a b = GetBusIdDistance b a \<and>
         GetBusIdDistance a c \<le> GetBusIdDistance a b + GetBusIdDistance b c \<and>
         (length a < 2 ^ 30 \<and> length b < 2 ^ 30 \<longrightarrow> GetBusIdDistance a b < GetBusIdDistance [] b)"
proof -
  let ?a = "ExtractBusNumber a" and ?b = "ExtractBusNumber b" and ?c = "ExtractBusNumber c"
  note le = commonPrefixLen_le [of ?a ?b] commonPrefixLen_le [of ?b ?c] commonPrefixLen_le [of ?a ?c]
  have zero: "GetBusIdDistance a b = 0 \<longleftrightarrow> ?a = ?b"
    using le commonPrefixLen_full [of ?a ?b] by (auto simp: GetBusIdDistance_alt assms)
  have tri: "GetBusIdDistance a c \<le> GetBusIdDistance a b + GetBusIdDistance b c"
    using le commonPrefixLen_ultrametric [of ?a ?b ?c]
    by (simp add: GetBusIdDistance_alt assms min_def split: if_splits)
  have "GetBusIdDistance a b < GetBusIdDistance [] b" if "length a < 2 ^ 30" "length b < 2 ^ 30"
    using that ExtractBusNumber_length [of a] ExtractBusNumber_length [of b]
    by (simp add: GetBusIdDistance_alt assms) (simp add: GetBusIdDistance_def INT_MAX_def)
  then show ?thesis
    using le zero tri by (simp add: GetBusIdDistance_alt assms commonPrefixLen_commute [of ?b ?a])
qed

theorem bus_distance_pseudometric_witness:
  "GetBusIdDistance ''0000:42:00.0'' ''0000:45:00.0'' = 2 \<and>
   GetBusIdDistance ''0000:42:00.0'' ''0000:45:00.0'' \<le>
   GetBusIdDistance ''0000:42:00.0'' ''0000:42:00.1'' + GetBusIdDistance ''0000:42:00.1'' ''0000:45:00.0''"
proof -
  have "GetBusIdDistance ''0000:42:00.0'' ''0000:45:00.0'' = 2"
    by code_simp
  moreover have "GetBusIdDistance ''0000:42:00.0'' ''0000:45:00.0'' \<le>
      GetBusIdDistance ''0000:42:00.0'' ''0000:42:00.1'' + GetBusIdDistance ''0000:42:00.1'' ''0000:45:00.0''"
    using bus_distance_pseudometric [OF list.distinct(2) list.distinct(2) list.distinct(2)] by blast
  ultimately show ?thesis
    by (rule conjI)
qed

subsection \<open>Selecting on a device\<close>

text \<open>Queries leave the log alone, so what is live and the state of every queue pair stay.\<close>

lemma wp_gidCandidates:
  "wp (gidCandidates V T ctx port is) (\<lambda>cs w'. log w' = log w \<and> serial w' = serial w \<and>
     (\<forall>c\<in>set cs. \<exists>i\<in>set is. index c = int i)) w"
proof (induction "is" arbitrary: w)
  case (Cons i "is")
  show ?case
    by (auto intro!: wp_liftE wp_conseq [OF Cons])
qed simp

text \<open>What the callers of \<^verbatim>\<open>SelectBestGid\<close> rely on: an index inside the table, and an untouched log.\<close>

lemma PickBestGid_index: "PickBestGid cs = Some n \<Longrightarrow> \<exists>c\<in>set cs. n = index c \<and> eligible_candidate c"
  using best_gid.selected_first_best [of cs PrioUnknown n]
  by (auto simp: PickBestGid_def best_gid.is_first_best_def)

lemma wp_SelectBestGid:
  "wp (SelectBestGid V T ctx port) (\<lambda>r w'. log w' = log w \<and> serial w' = serial w \<and>
     (\<forall>i. r = Some i \<longrightarrow> 0 \<le> i)) w"
  unfolding SelectBestGid_def AutoSelectGidIndex_def
  by (fastforce intro!: wp_liftE wp_conseq [OF wp_gidCandidates] dest!: PickBestGid_index)

lemma wp_SelectBestGidI [wp_intro]:
  assumes "\<And>r w'. log w' = log w \<Longrightarrow> serial w' = serial w \<Longrightarrow> \<forall>i. r = Some i \<longrightarrow> 0 \<le> i \<Longrightarrow> Q r w'"
  shows "wp (SelectBestGid V T ctx port) Q w"
  by (rule wp_conseq [OF wp_SelectBestGid]) (auto intro: assms)

subsection \<open>Enumerating the NICs\<close>

text \<open>A device reports fewer than 255 ports, as every device does.\<close>

definition ports_countable :: "'e Verbs \<Rightarrow> bool" where
  "ports_countable V \<longleftrightarrow> (\<forall>c e. phys_port_cnt (snd (fst (run_state (v_query_device V c) e))) < 255)"

lemma word_Suc_unat: "p \<le> cnt \<Longrightarrow> cnt < 255 \<Longrightarrow> unat (p + 1 :: u8) = Suc (unat p)"
  by (simp add: word_le_nat_alt word_less_nat_alt unat_word_ariths)

lemma wp_scanPorts:
  assumes "cnt < 255" "unat cnt + 1 < unat p + fuel" "unat p \<le> unat cnt + 1"
  shows "wp (scanPorts fuel V c cnt p) (\<lambda>r w'. log w' = log w \<and> serial w' = serial w \<and>
           (\<exists>op. r = Some op \<and> (\<forall>q. op = Some q \<longrightarrow> p \<le> q \<and> q \<le> cnt))) w"
  using assms(2,3)
proof (induction fuel arbitrary: p w)
  case 0
  then show ?case
    by simp
next
  case (Suc fuel)
  show ?case
  proof (cases "p \<le> cnt")
    case True
    have next_p: "unat (p + 1) = Suc (unat p)"
      using True assms(1) by (rule word_Suc_unat)
    have "wp (scanPorts fuel V c cnt (p + 1)) (\<lambda>r w''. log w'' = log w' \<and> serial w'' = serial w' \<and>
           (\<exists>op. r = Some op \<and> (\<forall>q. op = Some q \<longrightarrow> p \<le> q \<and> q \<le> cnt))) w'" for w'
      by (rule wp_conseq [OF Suc.IH]) (use Suc.prems True next_p in \<open>auto simp: word_le_nat_alt\<close>)
    from this [of "w\<lparr>env := _\<rparr>"] show ?thesis
      using True by (auto intro!: wp_liftE)
  qed simp
qed

lemma wp_nicInfoOf:
  "wp (nicInfoOf S nm p) (\<lambda>info w'. log w' = log w \<and> serial w' = serial w \<and>
     dev_name info = nm \<and> nic_port_num info = uint p \<and> -1 \<le> numa_node info) w"
  by (auto simp: nicInfoOf_def Let_def max_def intro!: wp_liftE split: option.splits)

lemma wp_query_device:
  assumes "ports_countable V" "\<And>a e. phys_port_cnt (snd a) < 255 \<Longrightarrow> Q a (w\<lparr>env := e\<rparr>)"
  shows "wp (liftE (v_query_device V c)) Q w"
  using assms by (auto simp: wp_liftE_iff ports_countable_def split: prod.splits) (metis fst_conv snd_conv)

text \<open>A NIC that the enumeration may report: allowed by the list, with a port number that is a port's.\<close>

definition nic_ok :: "string \<Rightarrow> NicInfo \<Rightarrow> bool" where
  "nic_ok hcaList nic \<longleftrightarrow> \<not> deviceExcluded hcaList (dev_name nic) \<and>
     1 \<le> nic_port_num nic \<and> nic_port_num nic < 255 \<and> -1 \<le> numa_node nic"

abbreviation scan_post :: "string \<Rightarrow> 'e world \<Rightarrow> NicInfo list option \<Rightarrow> 'e world \<Rightarrow> bool" where
  "scan_post hcaList w r w' \<equiv>
     live (log w') = live (log w) \<and> (\<exists>nics. r = Some nics \<and> list_all (nic_ok hcaList) nics)"

lemma live_acquire_release: "live_step (Release r) (live_step (Acquire r) L) = L"
  by (cases L) auto

lemma nic_okI:
  "\<not> deviceExcluded hcaList (dev_name nic) \<Longrightarrow> nic_port_num nic = uint (p :: u8) \<Longrightarrow> 1 \<le> p \<Longrightarrow> p \<le> cnt \<Longrightarrow> cnt < 255 \<Longrightarrow>
   -1 \<le> numa_node nic \<Longrightarrow> nic_ok hcaList nic"
  by (simp add: nic_ok_def word_le_def word_less_def)

lemma u8_fuel: "(cnt :: u8) < 255 \<Longrightarrow> 256 \<le> fuel \<Longrightarrow> unat cnt < fuel"
  by (simp add: word_less_nat_alt)

lemma wp_scanDevices:
  assumes "ports_countable V" "256 \<le> fuel"
  shows "wp (scanDevices fuel V S hcaList ds) (scan_post hcaList w) w"
proof (induction ds arbitrary: w)
  case (Cons od ds)
  have rest: "live (log w') = live (log w) \<Longrightarrow> wp (scanDevices fuel V S hcaList ds) (scan_post hcaList w) w'" for w'
    by (rule wp_conseq [OF Cons.IH]) auto
  have rest_cons: "nic_ok hcaList info \<Longrightarrow> live (log w') = live (log w) \<Longrightarrow>
    wp (scanDevices fuel V S hcaList ds)
      (\<lambda>r. wp (State_Monad.return (map_option ((#) info) r)) (scan_post hcaList w)) w'" for info w'
    by (rule wp_conseq [OF Cons.IH]) auto
  show ?case
  proof (cases od)
    case (Some dev)
    show ?thesis
      unfolding Some by (auto intro!: wp_liftE rest rest_cons wp_open_device wp_query_device [OF assms(1)] wp_deleters
          wp_conseq [OF wp_scanPorts] wp_conseq [OF wp_nicInfoOf] u8_fuel [OF _ assms(2)]
          simp: live_acquire_release split: option.splits) (metis nic_okI)
  qed simp
qed simp

lemma wp_scanPorts_log: "wp (scanPorts fuel V c cnt p) (\<lambda>r w'. log w' = log w \<and> serial w' = serial w) w"
proof (induction fuel arbitrary: p w)
  case (Suc fuel)
  show ?case
    by (auto intro!: wp_liftE wp_conseq [OF Suc.IH])
qed simp

lemma qps_same_log: "log w' = log w \<Longrightarrow> serial w' = serial w \<Longrightarrow> qps_same w w'"
  by (simp add: qps_same_def)

lemma wp_scanDevices_qps: "wp (scanDevices fuel V S hcaList ds) (\<lambda>_. qps_same w) w"
proof (induction ds arbitrary: w)
  case (Cons od ds)
  have rest: "qps_same w w' \<Longrightarrow> wp (scanDevices fuel V S hcaList ds) (\<lambda>_. qps_same w) w'" for w'
    by (rule wp_conseq [OF Cons.IH]) (rule qps_same_trans)
  have opened: "qps_same w w'"
    if "log w' = log w @ Acquire (Context (serial w)) # map Release rs" "serial w' = Suc (serial w)" "length rs \<le> 1" for w' rs
    using that by (cases rs) (auto simp: qps_same_def)
  note opened = opened [of _ "[]", simplified] opened [of _ "[Context (serial w)]", simplified]
  show ?case
  proof (cases od)
    case (Some dev)
    show ?thesis
      unfolding Some
      by (auto intro!: wp_liftE rest wp_open_device wp_deleters wp_conseq [OF rest]
          wp_conseq [OF wp_scanPorts_log] wp_conseq [OF wp_nicInfoOf] simp: opened split: option.splits)
  qed simp
qed simp


definition sample_sysfs :: "int Sysfs" where
  "sample_sysfs = \<lparr>canonical_filename = (\<lambda>_. State_Monad.return (Some ''0000:43:00.0'')),
                    file_contents = (\<lambda>_. State_Monad.return (Some ''1''))\<rparr>"

lemma sample_ports_countable: "ports_countable (sample_verbs :: int Verbs)"
  by (simp add: ports_countable_def sample_verbs_def)


text \<open>C25. The loop over the ports does not end on a device that reports 255 ports, none of them
  active: its 8-bit counter wraps, so no number of turns is enough.\<close>

theorem scanPorts_255_diverges:
  assumes "\<forall>p e. \<not> (fst (fst (run_state (v_query_port V c p) e)) = 0 \<and>
                     port_is_active (snd (fst (run_state (v_query_port V c p) e))))"
  shows "fst (run_state (scanPorts fuel V c 255 p) w) = None"
proof -
  have "wp (scanPorts fuel V c 255 p) (\<lambda>r _. r = None) w"
  proof (induction fuel arbitrary: p w)
    case (Suc fuel)
    have "p \<le> 255"
      using word_le_nat_alt [of p 255] u8_less_256 [of p] by simp
    with assms show ?case
      by (auto simp: wp_liftE_iff Suc split: prod.splits) (metis fst_conv snd_conv)
  qed simp
  then show ?thesis
    by (auto simp: wp_def split: prod.splits)
qed

definition down_verbs :: "int Verbs" where
  "down_verbs = sample_verbs
     \<lparr>v_query_port := (\<lambda>_ _. State_Monad.return (0, \<lparr>port_state = IBV_PORT_DOWN, gid_tbl_len = 1\<rparr>))\<rparr>"

theorem scanPorts_255_diverges_witness:
  "fst (run_state (scanPorts 100000 down_verbs \<lparr>ctx_ptr = 48, ctx_serial = 0, ctx_device = sample_device\<rparr> 255 1)
     sample_world) = None"
  by (rule scanPorts_255_diverges) (simp add: down_verbs_def port_is_active_def)

subsection \<open>The closest NIC\<close>



text \<open>
  What the rest of the library relies on of a topology: enumerating the NICs leaves nothing open and
  no queue pair changed.
\<close>

definition topology_ok :: "'e NicTopology \<Rightarrow> bool" where
  "topology_ok T \<longleftrightarrow> (\<forall>h w. wp (t_enumerate T h) (\<lambda>_ w'. live (log w') = live (log w) \<and> qps_same w w') w)"

lemma wp_t_enumerate:
  assumes "topology_ok T" "\<And>nics w'. live (log w') = live (log w) \<Longrightarrow> qps_same w w' \<Longrightarrow> Q nics w'"
  shows "wp (t_enumerate T h) Q w"
  by (rule wp_conseq [of _ "\<lambda>_ w'. live (log w') = live (log w) \<and> qps_same w w'"])
     (use assms in \<open>auto simp: topology_ok_def\<close>)

lemma sample_topology_ok: "topology_ok sample_topology"
  by (simp add: topology_ok_def sample_topology_def)

text \<open>
  The production topology, with enough fuel for every device that reports fewer than 255 ports; only
  there is it the code's.
\<close>

definition SysfsTopology :: "'e Verbs \<Rightarrow> 'e Sysfs \<Rightarrow> 'e NicTopology" where
  "SysfsTopology V S =
     \<lparr>t_enumerate = (\<lambda>hcaList. do {
        r \<leftarrow> SysfsTopology_enumerate 256 V S hcaList;
        State_Monad.return (case r of None \<Rightarrow> [] | Some nics \<Rightarrow> nics)
      }),
      t_roceVersion = SysfsTopology_roceVersion S\<rparr>"

lemma SysfsTopology_ok: "ports_countable V \<Longrightarrow> topology_ok (SysfsTopology V S)"
  unfolding topology_ok_def SysfsTopology_def SysfsTopology_enumerate_def
  by (auto intro!: wp_get_device_list wp_conseq [OF wp_conj [OF wp_scanDevices wp_scanDevices_qps]] wp_deleters
      simp: live_acquire_release qps_same_def split: option.splits)

lemma wp_GetClosestNicToGpu:
  assumes "topology_ok T" "\<And>r w'. live (log w') = live (log w) \<Longrightarrow> qps_same w w' \<Longrightarrow> Q r w'"
  shows "wp (GetClosestNicToGpu H T gpu hcaList) Q w"
  unfolding GetClosestNicToGpu_def Let_def
  by (auto intro!: wp_liftE wp_t_enumerate [OF assms(1)] assms(2))

end
