(* ===== verification/Token.thy ===== *)
theory Token
  imports Gid
begin

text \<open>
  RDMA tokens and \<^verbatim>\<open>x-amz-rdma-reply\<close> values, from \<^verbatim>\<open>src/rdma/token.h\<close> and
  \<^verbatim>\<open>src/rdma/token.cpp\<close>: the binary form that \<^verbatim>\<open>TokenWriter\<close> and \<^verbatim>\<open>TokenReader\<close> produce and
  read, its hex encoding, and the reply grammar. The lemmas show that encoding and decoding
  are inverse, and that the reply parser accepts exactly the documented forms.
\<close>

unbundle bit_operations_syntax

subsection \<open>Data\<close>

definition kRdmaTokenHexLen :: nat where
  "kRdmaTokenHexLen = 88"

datatype TransportType = DC | RC

fun transport_byte :: "TransportType \<Rightarrow> u8" where
  "transport_byte DC = 0x00"
| "transport_byte RC = 0x01"

record RdmaToken =
  qpNum :: u32
  gid :: Gid
  rkey :: u32
  remoteAddr :: u64
  tokenLength :: u64
  transport :: TransportType
  portNum :: u8
  lid :: u16

definition wf_token :: "RdmaToken \<Rightarrow> bool" where
  "wf_token t \<longleftrightarrow> wf_gid (gid t)"

datatype RdmaReplyStatus = Success | Failed | NotSupported

definition kHexDigits :: string where
  "kHexDigits = ''0123456789abcdef''"

definition kLowNibble :: u8 where
  "kLowNibble = 0x0f"

definition kHttpOk :: int where "kHttpOk = 200"
definition kHttpNoContent :: int where "kHttpNoContent = 204"
definition kHttpPartialContent :: int where "kHttpPartialContent = 206"
definition kHttpStatusMin :: int where "kHttpStatusMin = 100"
definition kHttpStatusMax :: int where "kHttpStatusMax = 599"
definition HIPOBJ_RDMA_REPLY_NOT_IMPLEMENTED :: int where "HIPOBJ_RDMA_REPLY_NOT_IMPLEMENTED = 501"

lemmas http_defs = kHttpOk_def kHttpNoContent_def kHttpPartialContent_def kHttpStatusMin_def
  kHttpStatusMax_def HIPOBJ_RDMA_REPLY_NOT_IMPLEMENTED_def

definition kTokenBinaryLen :: nat where
  "kTokenBinaryLen = 1 + 4 + kGidLen + 4 + 8 + 8 + 1 + 2"

subsection \<open>\<^verbatim>\<open>TokenWriter\<close> and \<^verbatim>\<open>TokenReader\<close>\<close>

text \<open>
  A writer is the bytes it has written so far. Integers go out least significant byte first.
\<close>

definition TokenWriter_put :: "'a::len word \<Rightarrow> u8 list \<Rightarrow> u8 list" where
  "TokenWriter_put value out =
     out @ map (\<lambda>i. ucast (drop_bit (8 * i) value)) [0..<LENGTH('a) div 8]"

definition TokenWriter_put_bytes :: "u8 list \<Rightarrow> u8 list \<Rightarrow> u8 list" where
  "TokenWriter_put_bytes bytes out = out @ bytes"

text \<open>A reader is the bytes it hasn't read yet.\<close>

definition TokenReader_get :: "u8 list \<Rightarrow> 'a::len word \<times> u8 list" where
  "TokenReader_get rest =
     (fold (\<lambda>i value. value OR push_bit (8 * i) (ucast (rest ! i))) [0..<LENGTH('a) div 8] 0,
      drop (LENGTH('a) div 8) rest)"

definition TokenReader_get_bytes :: "nat \<Rightarrow> u8 list \<Rightarrow> u8 list \<times> u8 list" where
  "TokenReader_get_bytes n rest = (take n rest, drop n rest)"

subsection \<open>Encoding and decoding\<close>

definition tokenBinary :: "RdmaToken \<Rightarrow> u8 list" where
  "tokenBinary token =
     (let out = [];
          out = TokenWriter_put (transport_byte (transport token)) out;
          out = TokenWriter_put (qpNum token) out;
          out = TokenWriter_put_bytes (gid token) out;
          out = TokenWriter_put (rkey token) out;
          out = TokenWriter_put (remoteAddr token) out;
          out = TokenWriter_put (tokenLength token) out;
          out = TokenWriter_put (portNum token) out;
          out = TokenWriter_put (lid token) out
      in out)"

definition hexPair :: "u8 \<Rightarrow> string" where
  "hexPair b = [kHexDigits ! unat (drop_bit 4 b), kHexDigits ! unat (b AND kLowNibble)]"

text \<open>The hex array is zeroed first, so the digits are followed by a NUL.\<close>

definition encodeRdmaTokenHex :: "RdmaToken \<Rightarrow> string" where
  "encodeRdmaTokenHex token = concat (map hexPair (tokenBinary token)) @ [NUL]"

definition encodeRdmaToken :: "RdmaToken \<Rightarrow> string" where
  "encodeRdmaToken token = take kRdmaTokenHexLen (encodeRdmaTokenHex token)"

definition hexBytes :: "string \<Rightarrow> u8 list option" where
  "hexBytes tokenHex =
     map_option (map word_of_int)
       (those (map (\<lambda>i. parseNumber uint8_t (take 2 (drop (i * 2) tokenHex)) 16) [0..<kTokenBinaryLen]))"

definition transport_of_byte :: "u8 \<Rightarrow> TransportType option" where
  "transport_of_byte b =
     (if b = transport_byte DC then Some DC else if b = transport_byte RC then Some RC else None)"

definition decodeRdmaTokenHex :: "string \<Rightarrow> RdmaToken option" where
  "decodeRdmaTokenHex tokenHex =
     (if length tokenHex \<noteq> kRdmaTokenHexLen then None
      else case hexBytes tokenHex of
        None \<Rightarrow> None
      | Some buf \<Rightarrow>
          (let (transportByte, in0) = TokenReader_get buf
           in case transport_of_byte transportByte of
             None \<Rightarrow> None
           | Some tr \<Rightarrow>
               (let (qp, in1) = TokenReader_get in0;
                    (g, in2) = TokenReader_get_bytes kGidLen in1;
                    (rk, in3) = TokenReader_get in2;
                    (ra, in4) = TokenReader_get in3;
                    (len, in5) = TokenReader_get in4;
                    (pn, in6) = TokenReader_get in5;
                    (li, in7) = TokenReader_get in6
                in Some \<lparr>qpNum = qp, gid = g, rkey = rk, remoteAddr = ra, tokenLength = len,
                         transport = tr, portNum = pn, lid = li\<rparr>)))"

subsection \<open>Replies\<close>

definition isSuccessHttpCode :: "int \<Rightarrow> bool" where
  "isSuccessHttpCode code =
     (code = kHttpOk \<or> code = kHttpNoContent \<or> code = kHttpPartialContent)"

record ParsedReply =
  httpCode :: int
  peerToken :: "RdmaToken option"

definition stripReply :: "string \<Rightarrow> string" where
  "stripReply reply =
     rev (dropWhile (\<lambda>c. c = NUL \<or> c = CHR 0x0A \<or> c = CHR 0x0D) (rev reply))"

definition parseReply :: "string \<Rightarrow> ParsedReply option" where
  "parseReply reply =
     (let value = stripReply reply in
      if value = ''ok'' then Some \<lparr>httpCode = kHttpOk, peerToken = None\<rparr>
      else if value = ''err'' then Some \<lparr>httpCode = -1, peerToken = None\<rparr>
      else
        let status = takeWhile (\<lambda>c. c \<noteq> CHR '':'') value in
        if length status \<noteq> 3 then None
        else case parseNumber unsigned_int status kDefaultNumberBase of
          None \<Rightarrow> None
        | Some code \<Rightarrow>
            if code < kHttpStatusMin \<or> code > kHttpStatusMax then None
            else if length status = length value then Some \<lparr>httpCode = code, peerToken = None\<rparr>
            else if code \<noteq> kHttpOk then None
            else case decodeRdmaTokenHex (drop (length status + 1) value) of
              None \<Rightarrow> None
            | Some token \<Rightarrow> Some \<lparr>httpCode = code, peerToken = Some token\<rparr>)"

definition parseRdmaReplyHttpCode :: "string \<Rightarrow> int option" where
  "parseRdmaReplyHttpCode reply =
     (case parseReply reply of None \<Rightarrow> None | Some parsed \<Rightarrow> Some (httpCode parsed))"

definition decodeRdmaReply :: "string \<Rightarrow> RdmaReplyStatus option" where
  "decodeRdmaReply reply =
     (case parseRdmaReplyHttpCode reply of
        None \<Rightarrow> None
      | Some code \<Rightarrow>
          if code = HIPOBJ_RDMA_REPLY_NOT_IMPLEMENTED then Some NotSupported
          else if isSuccessHttpCode code then Some Success
          else Some Failed)"

definition parsePeerTokenFromReply :: "string \<Rightarrow> RdmaToken option" where
  "parsePeerTokenFromReply reply =
     (case parseReply reply of None \<Rightarrow> None | Some parsed \<Rightarrow> peerToken parsed)"

definition encodeReplyWithPeerToken :: "int \<Rightarrow> RdmaToken \<Rightarrow> string" where
  "encodeReplyWithPeerToken code token =
     to_string code @ [CHR '':''] @ take kRdmaTokenHexLen (encodeRdmaTokenHex token)"

text \<open>
  \<^verbatim>\<open>nicIp\<close> is the caller's buffer, as the list of its characters. The result is whether the
  call succeeded and the buffer after it.
\<close>

definition dottedQuad :: "u8 list \<Rightarrow> string" where
  "dottedQuad ip =
     show_nat (unat (ip ! 0)) @ ''.'' @ show_nat (unat (ip ! 1)) @ ''.'' @
     show_nat (unat (ip ! 2)) @ ''.'' @ show_nat (unat (ip ! 3))"

definition INET_ADDRSTRLEN :: nat where
  "INET_ADDRSTRLEN = 16"

definition parseClientNicFromTokenHex :: "string \<Rightarrow> string \<Rightarrow> bool \<times> string" where
  "parseClientNicFromTokenHex tokenHex nicIp =
     (if nicIp = [] then (False, nicIp)
      else
        let nicIp = nicIp[0 := NUL] in
        case decodeRdmaTokenHex tokenHex of
          None \<Rightarrow> (False, nicIp)
        | Some token \<Rightarrow>
            if \<not> isIpv4MappedGid (gid token) then (True, nicIp)
            else
              let formatted = dottedQuad (ipv4OfGid (gid token));
                  buf = take (INET_ADDRSTRLEN - 1) formatted @
                        replicate (INET_ADDRSTRLEN - length (take (INET_ADDRSTRLEN - 1) formatted)) NUL
              in if length formatted \<ge> length nicIp then (False, nicIp)
                 else (True, take (length formatted + 1) buf @ drop (length formatted + 1) nicIp))"

subsection \<open>Fixed-width fields\<close>

text \<open>
  The contract between a field's writer and its reader: every valid value takes the same
  number of bytes, reading them back gives the value and the bytes after it, and what is read
  is what would have been written.
\<close>

locale field_codec =
  fixes encode :: "'a \<Rightarrow> u8 list"
    and decode :: "u8 list \<Rightarrow> 'a \<times> u8 list"
    and valid :: "'a \<Rightarrow> bool"
    and width :: nat
  assumes length_encode: "valid x \<Longrightarrow> length (encode x) = width"
    and decode_encode: "valid x \<Longrightarrow> decode (encode x @ rest) = (x, rest)"
    and encode_decode: "width \<le> length bs \<Longrightarrow> decode bs = (x, rest) \<Longrightarrow> valid x \<and> encode x @ rest = bs"
begin

lemma decode_rest: "width \<le> length bs \<Longrightarrow> snd (decode bs) = drop width bs"
proof -
  assume w: "width \<le> length bs"
  obtain x rest where d: "decode bs = (x, rest)" by fastforce
  with w encode_decode length_encode have "encode x @ rest = bs" "length (encode x) = width"
    by blast+
  with d show ?thesis by auto
qed

lemma encode_inject: "valid x \<Longrightarrow> valid y \<Longrightarrow> encode x = encode y \<Longrightarrow> x = y"
  by (metis decode_encode prod.inject)

end

lemma fold_or_bit:
  "bit (fold (\<lambda>i v. v OR f i) [0..<n] (a :: 'a::len word)) k \<longleftrightarrow> bit a k \<or> (\<exists>i<n. bit (f i) k)"
  by (induction n) (auto simp: bit_or_iff less_Suc_eq)

text \<open>Bit \<open>k\<close> of the value read is bit \<open>k mod 8\<close> of byte \<open>k div 8\<close>.\<close>

lemma bit_TokenReader_get:
  assumes "8 dvd LENGTH('a::len)" and "k < LENGTH('a)"
  shows "bit (fst (TokenReader_get bs) :: 'a word) k \<longleftrightarrow> bit (bs ! (k div 8)) (k mod 8)"
proof -
  have small: "k div 8 < LENGTH('a) div 8"
    using assms by (simp add: div_less_iff_less_mult dvd_div_mult_self)
  have "bit (push_bit (8 * i) (ucast (bs ! i) :: 'a word)) k \<longleftrightarrow> i = k div 8 \<and> bit (bs ! i) (k mod 8)" for i
  proof -
    have push: "bit (push_bit (8 * i) (ucast (bs ! i) :: 'a word)) k
        \<longleftrightarrow> 8 * i \<le> k \<and> bit (bs ! i) (k - 8 * i)"
      using assms(2) by (auto simp: bit_push_bit_iff bit_ucast_iff)
    show ?thesis
    proof (cases "i = k div 8")
      case True
      have "8 * (k div 8) \<le> k" by simp
      with True push show ?thesis by (simp only: minus_mult_div_eq_mod simp_thms)
    next
      case False
      then have "\<not> (8 * i \<le> k \<and> k - 8 * i < 8)" by linarith
      moreover have "bit (bs ! i) (k - 8 * i) \<Longrightarrow> k - 8 * i < 8"
        using bit_imp_le_length [of "bs ! i"] by simp
      ultimately show ?thesis using False push by blast
    qed
  qed
  then show ?thesis
    using small by (auto simp: TokenReader_get_def fold_or_bit)
qed

lemma bit_put_byte:
  "i < LENGTH('a::len) div 8 \<Longrightarrow> j < 8 \<Longrightarrow>
    bit (TokenWriter_put (v :: 'a word) [] ! i) j \<longleftrightarrow> bit v (8 * i + j)"
  by (simp add: TokenWriter_put_def bit_ucast_iff bit_drop_bit_eq add.commute)

lemma length_put [simp]: "length (TokenWriter_put (v :: 'a::len word) out) = length out + LENGTH('a) div 8"
  by (simp add: TokenWriter_put_def)

lemma put_append: "TokenWriter_put v out = out @ TokenWriter_put v []"
  by (simp add: TokenWriter_put_def)

lemma TokenReader_get_put:
  assumes "8 dvd LENGTH('a::len)"
  shows "TokenReader_get (TokenWriter_put (v :: 'a word) [] @ rest) = (v, rest)"
proof -
  have "fst (TokenReader_get (TokenWriter_put v [] @ rest)) = v"
  proof (rule bit_word_eqI)
    fix k assume k: "k < LENGTH('a)"
    then have "k div 8 < LENGTH('a) div 8"
      using assms by (simp add: div_less_iff_less_mult dvd_div_mult_self)
    with assms k show "bit (fst (TokenReader_get (TokenWriter_put v [] @ rest)) :: 'a word) k \<longleftrightarrow> bit v k"
      by (simp add: bit_TokenReader_get nth_append bit_put_byte)
  qed
  then show ?thesis
    by (simp add: prod_eq_iff TokenReader_get_def [of "TokenWriter_put v [] @ rest"])
qed

lemma TokenWriter_put_get:
  assumes "8 dvd LENGTH('a::len)" and "LENGTH('a) div 8 \<le> length bs"
  shows "TokenWriter_put (fst (TokenReader_get bs) :: 'a word) [] = take (LENGTH('a) div 8) bs"
proof (rule nth_equalityI)
  fix i assume "i < length (TokenWriter_put (fst (TokenReader_get bs) :: 'a word) [])"
  then have i: "i < LENGTH('a) div 8" by simp
  show "TokenWriter_put (fst (TokenReader_get bs) :: 'a word) [] ! i = take (LENGTH('a) div 8) bs ! i"
  proof (rule bit_word_eqI)
    fix j assume j: "j < LENGTH(8)"
    with i assms(1) have "8 * i + j < LENGTH('a)" by auto
    with i j assms show "bit (TokenWriter_put (fst (TokenReader_get bs) :: 'a word) [] ! i) j
        \<longleftrightarrow> bit (take (LENGTH('a) div 8) bs ! i) j"
      by (simp add: bit_put_byte bit_TokenReader_get)
  qed
qed (use assms in simp)

lemma word_field_codec:
  assumes "8 dvd LENGTH('a::len)"
  shows "field_codec (\<lambda>v :: 'a word. TokenWriter_put v []) TokenReader_get (\<lambda>_. True) (LENGTH('a) div 8)"
proof
  fix bs :: "u8 list" and x :: "'a word" and rest
  assume "LENGTH('a) div 8 \<le> length bs" "TokenReader_get bs = (x, rest)"
  then have "x = fst (TokenReader_get bs)" and "rest = drop (LENGTH('a) div 8) bs"
    and "LENGTH('a) div 8 \<le> length bs"
    by (simp_all add: TokenReader_get_def)
  with TokenWriter_put_get [OF assms, of bs] show "True \<and> TokenWriter_put x [] @ rest = bs"
    by (simp only: append_take_drop_id simp_thms)
qed (simp_all add: TokenReader_get_put assms)

interpretation u8_field: field_codec "\<lambda>v :: u8. TokenWriter_put v []" TokenReader_get "\<lambda>_. True" 1
  using word_field_codec [where 'a = 8] by simp

interpretation u16_field: field_codec "\<lambda>v :: u16. TokenWriter_put v []" TokenReader_get "\<lambda>_. True" 2
  using word_field_codec [where 'a = 16] by simp

interpretation u32_field: field_codec "\<lambda>v :: u32. TokenWriter_put v []" TokenReader_get "\<lambda>_. True" 4
  using word_field_codec [where 'a = 32] by simp

interpretation u64_field: field_codec "\<lambda>v :: u64. TokenWriter_put v []" TokenReader_get "\<lambda>_. True" 8
  using word_field_codec [where 'a = 64] by simp

interpretation gid_field: field_codec "\<lambda>g. TokenWriter_put_bytes g []" "TokenReader_get_bytes kGidLen"
    wf_gid kGidLen
  by unfold_locales (auto simp: TokenWriter_put_bytes_def TokenReader_get_bytes_def wf_gid_def)

lemmas field_decode = u8_field.decode_encode u16_field.decode_encode u32_field.decode_encode
  u64_field.decode_encode gid_field.decode_encode

subsection \<open>The binary form\<close>

lemma tokenBinary_fields:
  "tokenBinary t =
     TokenWriter_put (transport_byte (transport t)) [] @ TokenWriter_put (qpNum t) [] @
     TokenWriter_put_bytes (gid t) [] @ TokenWriter_put (rkey t) [] @ TokenWriter_put (remoteAddr t) [] @
     TokenWriter_put (tokenLength t) [] @ TokenWriter_put (portNum t) [] @ TokenWriter_put (lid t) []"
  by (simp add: tokenBinary_def Let_def TokenWriter_put_def TokenWriter_put_bytes_def)

lemma length_tokenBinary: "wf_token t \<Longrightarrow> length (tokenBinary t) = kTokenBinaryLen"
  by (simp add: tokenBinary_fields TokenWriter_put_bytes_def wf_token_def kTokenBinaryLen_def
      kGidLen_def)

lemma transport_of_byte_iff: "transport_of_byte b = Some tr \<longleftrightarrow> b = transport_byte tr"
  by (cases tr) (auto simp: transport_of_byte_def)

lemma transport_of_transport_byte [simp]: "transport_of_byte (transport_byte tr) = Some tr"
  by (simp add: transport_of_byte_iff)

subsection \<open>Hex digits\<close>

lemma nat_less_16_cases:
  "(d :: nat) < 16 \<Longrightarrow> d \<in> {0, 1, 2, 3, 4, 5, 6, 7, 8, 9, 10, 11, 12, 13, 14, 15}"
  by (simp, presburger)

lemma hex_digit_value: "d < 16 \<Longrightarrow> digit_value (kHexDigits ! d) = Some d"
  by (drule nat_less_16_cases) (auto simp: kHexDigits_def digit_value_def)

definition lower :: "char \<Rightarrow> char" where
  "lower c = (let n = of_char c :: nat in if 65 \<le> n \<and> n \<le> 90 then char_of (n + 32) else c)"

lemma hex_digit_lower:
  assumes "is_base_digit 16 c"
  shows "kHexDigits ! digit_or_0 c = lower c"
proof -
  obtain n :: nat where n: "n = of_char c" by simp
  then have c: "c = char_of n" by simp
  have "n \<in> {48, 49, 50, 51, 52, 53, 54, 55, 56, 57, 97, 98, 99, 100, 101, 102, 65, 66, 67, 68, 69, 70}"
  proof -
    have "48 \<le> n \<and> n \<le> 57 \<or> 97 \<le> n \<and> n \<le> 102 \<or> 65 \<le> n \<and> n \<le> 70"
      using assms unfolding is_base_digit_def digit_value_def Let_def n [symmetric]
      by (auto split: if_splits)
    then show ?thesis by (simp, presburger)
  qed
  then have "(of_char (kHexDigits ! digit_or_0 (char_of n)) :: nat) = of_char (lower (char_of n))"
    by (elim insertE emptyE)
      (simp_all add: digit_or_0_def digit_value_def lower_def kHexDigits_def)
  then show ?thesis
    unfolding c by (simp only: of_char_eq_iff)
qed

lemma hexPair_nibbles: "hexPair b = [kHexDigits ! (unat b div 16), kHexDigits ! (unat b mod 16)]"
  by (simp add: hexPair_def kLowNibble_def unat_and_15 unat_drop_bit)

lemma length_hexPair [simp]: "length (hexPair b) = 2"
  by (simp add: hexPair_def)

lemma parse_hexPair: "parseNumber uint8_t (hexPair b) 16 = Some (uint b)"
proof -
  have d: "unat b div 16 < 16" "unat b mod 16 < 16"
    using u8_less_256 [of b] by auto
  then have "digits_value 16 0 (hexPair b) = unat b"
    by (simp add: hexPair_nibbles hex_digit_value digit_or_0_def)
  moreover have "\<forall>c\<in>set (hexPair b). is_base_digit 16 c"
    using d by (simp add: hexPair_nibbles is_base_digit_def hex_digit_value)
  moreover have "hexPair b \<noteq> []" by (simp add: hexPair_def)
  moreover have "uint b \<le> 255" using uint_bounded [of b] by simp
  ultimately show ?thesis
    by (simp add: parseNumber_unsigned_iff uint8_t_def)
qed

lemma hexPair_parse:
  assumes "parseNumber uint8_t s 16 = Some v" and "length s = 2"
  shows "hexPair (word_of_int v) = map lower s"
proof -
  from assms(2) obtain x y where s: "s = [x, y]"
    by (auto simp: length_Suc_conv numeral_2_eq_2)
  from assms(1) have digits: "is_base_digit 16 x" "is_base_digit 16 y"
    and v: "v = int (digit_or_0 x * 16 + digit_or_0 y)"
    by (auto simp: parseNumber_unsigned_iff uint8_t_def s)
  then have small: "digit_or_0 x < 16" "digit_or_0 y < 16"
    by (auto simp: is_base_digit_def digit_or_0_def split: option.splits)
  define m where "m = digit_or_0 x * 16 + digit_or_0 y"
  from small have "unat (word_of_int (int m) :: u8) = m"
    by (simp add: unat_of_nat m_def [symmetric]) (simp add: m_def)
  then have "unat (word_of_int v :: u8) = digit_or_0 x * 16 + digit_or_0 y"
    by (simp add: v m_def [symmetric])
  with small digits show ?thesis
    by (simp add: hexPair_nibbles s hex_digit_lower)
qed

subsection \<open>Chunks of two characters\<close>

lemma those_eq_Some_iff: "those xs = Some ys \<longleftrightarrow> xs = map Some ys"
proof (induction xs arbitrary: ys)
  case (Cons x xs)
  then show ?case
    by (cases ys) (auto split: option.splits simp: Cons)
qed auto

lemma chunk_concat:
  assumes "\<And>x. length (f x) = k" and "i < length xs"
  shows "take k (drop (i * k) (concat (map f xs))) = f (xs ! i)"
  using assms(2)
proof (induction xs arbitrary: i)
  case (Cons x xs)
  then show ?case
    by (cases i) (simp_all add: assms(1) drop_append)
qed simp

lemma concat_chunks:
  "length s = n * k \<Longrightarrow> concat (map (\<lambda>i. take k (drop (i * k) s)) [0..<n]) = s"
proof (induction n arbitrary: s)
  case (Suc n)
  have "concat (map (\<lambda>i. take k (drop (i * k) (take (n * k) s))) [0..<n]) = take (n * k) s"
    using Suc by simp
  moreover have "map (\<lambda>i. take k (drop (i * k) (take (n * k) s))) [0..<n]
      = map (\<lambda>i. take k (drop (i * k) s)) [0..<n]"
  proof (rule map_cong [OF refl])
    fix i assume "i \<in> set [0..<n]"
    then have "Suc i * k \<le> n * k" by (intro mult_le_mono1) simp
    then show "take k (drop (i * k) (take (n * k) s)) = take k (drop (i * k) s)"
      by (simp add: drop_take take_take min_def)
  qed
  ultimately show ?case
    using Suc.prems by simp
qed simp

lemma hexBytes_encode:
  assumes "length bs = kTokenBinaryLen"
  shows "hexBytes (concat (map hexPair bs)) = Some bs"
proof -
  have "map (\<lambda>i. parseNumber uint8_t (take 2 (drop (i * 2) (concat (map hexPair bs)))) 16) [0..<kTokenBinaryLen]
      = map (\<lambda>i. Some (uint (bs ! i))) [0..<kTokenBinaryLen]"
    using assms by (intro map_cong [OF refl]) (simp add: chunk_concat parse_hexPair)
  also have "\<dots> = map Some (map uint bs)"
    using assms by (simp add: map_upt_nth_eq [of _ _ "\<lambda>b. Some (uint b)"] comp_def)
  finally have "those (map (\<lambda>i. parseNumber uint8_t (take 2 (drop (i * 2) (concat (map hexPair bs)))) 16)
      [0..<kTokenBinaryLen]) = Some (map uint bs)"
    by (simp only: those_eq_Some_iff)
  then show ?thesis
    by (simp add: hexBytes_def comp_def)
qed

lemma hexBytes_decode:
  assumes "hexBytes s = Some bs" and "length s = kRdmaTokenHexLen"
  shows "length bs = kTokenBinaryLen \<and> concat (map hexPair bs) = map lower s"
proof -
  let ?chunk = "\<lambda>i. take 2 (drop (i * 2) s)"
  have len: "length s = kTokenBinaryLen * 2"
    using assms(2) by (simp add: kRdmaTokenHexLen_def kTokenBinaryLen_def kGidLen_def)
  from assms(1) obtain vs where bs: "bs = map word_of_int vs"
    and vs: "map (\<lambda>i. parseNumber uint8_t (?chunk i) 16) [0..<kTokenBinaryLen] = map Some vs"
    by (auto simp: hexBytes_def those_eq_Some_iff)
  from arg_cong [OF vs, of length] have n: "length vs = kTokenBinaryLen" by simp
  have "hexPair (word_of_int (vs ! i)) = map lower (?chunk i)" if "i < kTokenBinaryLen" for i
  proof (rule hexPair_parse)
    show "parseNumber uint8_t (?chunk i) 16 = Some (vs ! i)"
      using arg_cong [OF vs, of "\<lambda>l. l ! i"] that n by simp
    show "length (?chunk i) = 2"
      using that len by simp
  qed
  then have "map (\<lambda>i. hexPair (word_of_int (vs ! i))) [0..<kTokenBinaryLen]
      = map (\<lambda>i. map lower (?chunk i)) [0..<kTokenBinaryLen]"
    by simp
  then have "map hexPair bs = map (\<lambda>i. map lower (?chunk i)) [0..<kTokenBinaryLen]"
    using map_upt_nth_eq [of kTokenBinaryLen vs "\<lambda>v. hexPair (word_of_int v)"] n
    by (simp add: bs comp_def)
  then have "concat (map hexPair bs) = map lower (concat (map ?chunk [0..<kTokenBinaryLen]))"
    by (simp add: map_concat comp_def)
  then show ?thesis
    using n concat_chunks [OF len] by (simp add: bs)
qed

subsection \<open>Tokens: encoding and decoding are inverse\<close>

lemma decode_fields:
  assumes "wf_token t"
  shows "(case TokenReader_get (tokenBinary t) of (b, in0) \<Rightarrow>
      case TokenReader_get in0 of (qp, in1) \<Rightarrow>
      case TokenReader_get_bytes kGidLen in1 of (g, in2) \<Rightarrow>
      case TokenReader_get in2 of (rk, in3) \<Rightarrow>
      case TokenReader_get in3 of (ra, in4) \<Rightarrow>
      case TokenReader_get in4 of (len, in5) \<Rightarrow>
      case TokenReader_get in5 of (pn, in6) \<Rightarrow>
      case TokenReader_get in6 of (li, in7) \<Rightarrow> (b, qp, g, rk, ra, len, pn, li))
    = (transport_byte (transport t), qpNum t, gid t, rkey t, remoteAddr t, tokenLength t, portNum t, lid t)"
  using assms u16_field.decode_encode [where rest = "[]"]
  by (simp add: tokenBinary_fields field_decode wf_token_def)

lemma encodeRdmaToken_hex: "wf_token t \<Longrightarrow> encodeRdmaToken t = concat (map hexPair (tokenBinary t))"
  by (simp add: encodeRdmaToken_def encodeRdmaTokenHex_def length_concat comp_def sum_list_triv
      length_tokenBinary kTokenBinaryLen_def kGidLen_def kRdmaTokenHexLen_def)

lemma length_encodeRdmaToken: "wf_token t \<Longrightarrow> length (encodeRdmaToken t) = kRdmaTokenHexLen"
  by (simp add: encodeRdmaToken_hex length_concat comp_def sum_list_triv
      length_tokenBinary kTokenBinaryLen_def kGidLen_def kRdmaTokenHexLen_def)

lemma decode_encodeRdmaToken:
  assumes "wf_token t"
  shows "decodeRdmaTokenHex (encodeRdmaToken t) = Some t"
proof -
  have "hexBytes (encodeRdmaToken t) = Some (tokenBinary t)"
    using hexBytes_encode [OF length_tokenBinary [OF assms]] assms by (simp add: encodeRdmaToken_hex)
  then show ?thesis
    using decode_fields [OF assms] length_encodeRdmaToken [OF assms]
    by (simp add: decodeRdmaTokenHex_def split: prod.splits)
qed

lemma decoded_token_binary:
  assumes "decodeRdmaTokenHex s = Some t" and "hexBytes s = Some buf" and "length buf = kTokenBinaryLen"
  shows "wf_token t \<and> tokenBinary t = buf"
proof -
  obtain b in0 where 0: "(TokenReader_get buf :: u8 \<times> u8 list) = (b, in0)" by fastforce
  obtain qp in1 where 1: "(TokenReader_get in0 :: u32 \<times> u8 list) = (qp, in1)" by fastforce
  obtain g in2 where 2: "TokenReader_get_bytes kGidLen in1 = (g, in2)" by fastforce
  obtain rk in3 where 3: "(TokenReader_get in2 :: u32 \<times> u8 list) = (rk, in3)" by fastforce
  obtain ra in4 where 4: "(TokenReader_get in3 :: u64 \<times> u8 list) = (ra, in4)" by fastforce
  obtain len in5 where 5: "(TokenReader_get in4 :: u64 \<times> u8 list) = (len, in5)" by fastforce
  obtain pn in6 where 6: "(TokenReader_get in5 :: u8 \<times> u8 list) = (pn, in6)" by fastforce
  obtain li in7 where 7: "(TokenReader_get in6 :: u16 \<times> u8 list) = (li, in7)" by fastforce
  have l: "length buf = 44" using assms(3) by (simp add: kTokenBinaryLen_def kGidLen_def)
  have r0: "in0 = drop 1 buf" using u8_field.decode_rest [of buf] 0 l by simp
  have r1: "in1 = drop 5 buf" using u32_field.decode_rest [of in0] 1 l by (simp add: r0)
  have r2: "in2 = drop 21 buf" using gid_field.decode_rest [of in1] 2 l by (simp add: r1 kGidLen_def)
  have r3: "in3 = drop 25 buf" using u32_field.decode_rest [of in2] 3 l by (simp add: r2)
  have r4: "in4 = drop 33 buf" using u64_field.decode_rest [of in3] 4 l by (simp add: r3)
  have r5: "in5 = drop 41 buf" using u64_field.decode_rest [of in4] 5 l by (simp add: r4)
  have r6: "in6 = drop 42 buf" using u8_field.decode_rest [of in5] 6 l by (simp add: r5)
  have r7: "in7 = []" using u16_field.decode_rest [of in6] 7 l by (simp add: r6)
  have e: "TokenWriter_put b [] @ in0 = buf" "TokenWriter_put qp [] @ in1 = in0"
    "TokenWriter_put_bytes g [] @ in2 = in1" "TokenWriter_put rk [] @ in3 = in2"
    "TokenWriter_put ra [] @ in4 = in3" "TokenWriter_put len [] @ in5 = in4"
    "TokenWriter_put pn [] @ in6 = in5" "TokenWriter_put li [] = in6"
    and g: "wf_gid g"
    using u8_field.encode_decode [OF _ 0] u32_field.encode_decode [OF _ 1] gid_field.encode_decode [OF _ 2]
      u32_field.encode_decode [OF _ 3] u64_field.encode_decode [OF _ 4] u64_field.encode_decode [OF _ 5]
      u8_field.encode_decode [OF _ 6] u16_field.encode_decode [OF _ 7] l
    by (simp_all add: r0 r1 r2 r3 r4 r5 r6 r7 kGidLen_def)
  from assms(1,2) obtain tr where b: "b = transport_byte tr"
    and t: "t = \<lparr>qpNum = qp, gid = g, rkey = rk, remoteAddr = ra, tokenLength = len,
                 transport = tr, portNum = pn, lid = li\<rparr>"
    by (auto simp: decodeRdmaTokenHex_def 0 1 2 3 4 5 6 7 transport_of_byte_iff
        split: if_splits option.splits)
  show ?thesis
    using e g by (simp add: tokenBinary_fields t wf_token_def b [symmetric])
qed

lemma encode_decodeRdmaTokenHex:
  assumes "decodeRdmaTokenHex s = Some t"
  shows "wf_token t \<and> encodeRdmaToken t = map lower s"
proof -
  from assms obtain buf where buf: "hexBytes s = Some buf" and len: "length s = kRdmaTokenHexLen"
    by (auto simp: decodeRdmaTokenHex_def split: if_splits option.splits)
  from hexBytes_decode [OF this] decoded_token_binary [OF assms buf] show ?thesis
    by (auto simp: encodeRdmaToken_hex)
qed

text \<open>C21. Decoding the hex encoding of any token, whose GID has its 16 bytes, gives the token back.\<close>

theorem token_decode_encode:
  "wf_token t \<Longrightarrow> decodeRdmaTokenHex (encodeRdmaToken t) = Some t"
  by (rule decode_encodeRdmaToken)

definition sample_token :: RdmaToken where
  "sample_token = \<lparr>qpNum = 0x1a2b3c, gid = kIpv4MappedPrefix @ [192, 168, 1, 20], rkey = 0xdeadbeef,
     remoteAddr = 0x7f0012345678, tokenLength = 4096, transport = RC, portNum = 1, lid = 0\<rparr>"

lemma wf_sample_token: "wf_token sample_token"
  by (simp add: wf_token_def wf_gid_def kGidLen_def sample_token_def kIpv4MappedPrefix_def)

theorem token_decode_encode_witness:
  "wf_token sample_token \<and> decodeRdmaTokenHex (encodeRdmaToken sample_token) = Some sample_token"
  using token_decode_encode [OF wf_sample_token] wf_sample_token by simp

text \<open>C22. A text that decodes is, apart from the case of its hex digits, the encoding of the token it
  decodes to: decoding accepts no second spelling of a token.\<close>

theorem token_encode_decode:
  "decodeRdmaTokenHex s = Some t \<Longrightarrow> wf_token t \<and> encodeRdmaToken t = map lower s"
  by (rule encode_decodeRdmaTokenHex)

theorem token_encode_decode_witness:
  "encodeRdmaToken sample_token = map lower (encodeRdmaToken sample_token)"
  using token_encode_decode [OF decode_encodeRdmaToken [OF wf_sample_token]] by simp

text \<open>The binary form has the layout that \<^verbatim>\<open>docs/interop.rst\<close> specifies: 44 bytes, the fields at
  the documented offsets, the integers little-endian and the GID verbatim.\<close>

theorem token_wire_layout:
  assumes "wf_token t"
  shows "length (tokenBinary t) = 44 \<and>
    tokenBinary t ! 0 = transport_byte (transport t) \<and>
    (\<forall>i<4. tokenBinary t ! (1 + i) = ucast (drop_bit (8 * i) (qpNum t))) \<and>
    take 16 (drop 5 (tokenBinary t)) = gid t \<and>
    (\<forall>i<4. tokenBinary t ! (21 + i) = ucast (drop_bit (8 * i) (rkey t))) \<and>
    (\<forall>i<8. tokenBinary t ! (25 + i) = ucast (drop_bit (8 * i) (remoteAddr t))) \<and>
    (\<forall>i<8. tokenBinary t ! (33 + i) = ucast (drop_bit (8 * i) (tokenLength t))) \<and>
    tokenBinary t ! 41 = portNum t \<and>
    (\<forall>i<2. tokenBinary t ! (42 + i) = ucast (drop_bit (8 * i) (lid t)))"
proof -
  have "length (gid t) = 16" using assms by (simp add: wf_token_def)
  then show ?thesis
    using length_tokenBinary [OF assms]
    by (simp add: tokenBinary_fields TokenWriter_put_bytes_def TokenWriter_put_def nth_append
        kTokenBinaryLen_def kGidLen_def)
qed

theorem token_wire_layout_witness:
  "length (tokenBinary sample_token) = 44 \<and> tokenBinary sample_token ! 0 = 1 \<and>
   take 16 (drop 5 (tokenBinary sample_token)) = kIpv4MappedPrefix @ [192, 168, 1, 20]"
  using token_wire_layout [OF wf_sample_token] by (simp add: sample_token_def)

subsection \<open>Replies: what the parser accepts\<close>

lemma decimal_digit_char:
  assumes "is_base_digit 10 c"
  obtains d where "d < 10" and "c = digit_char d"
proof -
  define n where "n = (of_char c :: nat)"
  from assms have "48 \<le> n \<and> n \<le> 57"
    unfolding is_base_digit_def digit_value_def Let_def n_def [symmetric] by (auto split: if_splits)
  moreover have "c = char_of n" by (simp add: n_def)
  ultimately have "n - 48 < 10" "c = digit_char (n - 48)" by (auto simp: digit_char_def)
  then show ?thesis by (rule that)
qed

lemma show_nat_three:
  assumes "100 \<le> n" and "n < 1000"
  shows "show_nat n = [digit_char (n div 100), digit_char (n div 10 mod 10), digit_char (n mod 10)]"
proof -
  have "\<not> n < 10" and "\<not> n div 10 < 10" and "n div 10 div 10 < 10"
    using assms by (simp_all add: not_less div_mult2_eq [symmetric])
  moreover have "n div 10 div 10 = n div 100" by (simp add: div_mult2_eq [symmetric])
  ultimately show ?thesis
    using show_nat.simps [of n] show_nat.simps [of "n div 10"] show_nat.simps [of "n div 10 div 10"]
    by simp
qed

lemma three_digits:
  assumes "length s = 3" and "\<forall>c\<in>set s. is_base_digit 10 c" and "100 \<le> digits_value 10 0 s"
  shows "s = show_nat (digits_value 10 0 s)"
proof -
  from assms(1) obtain x y z where s: "s = [x, y, z]"
    by (auto simp: length_Suc_conv numeral_3_eq_3)
  with assms(2) have "is_base_digit 10 x" "is_base_digit 10 y" "is_base_digit 10 z" by auto
  then obtain a b c where d: "a < 10" "b < 10" "c < 10"
    and abc: "x = digit_char a" "y = digit_char b" "z = digit_char c"
    by (metis decimal_digit_char)
  then have v: "digits_value 10 0 s = (a * 10 + b) * 10 + c"
    by (simp add: s digit_or_0_def)
  define m where "m = a * 10 + b"
  have "(m * 10 + c) div 10 = m" "(m * 10 + c) mod 10 = c"
    using d by simp_all
  moreover have "m div 10 = a" "m mod 10 = b"
    using d by (simp_all add: m_def)
  ultimately have m: "m div 10 = a" "m mod 10 = b" "(m * 10 + c) div 10 = m" "(m * 10 + c) mod 10 = c"
    by blast+
  then have "(m * 10 + c) div 100 = a"
    using div_mult2_eq [of "m * 10 + c" 10 10] by simp
  moreover have "digits_value 10 0 s = m * 10 + c" and "m * 10 + c < 1000"
    using v d by (simp_all add: m_def)
  ultimately show ?thesis
    using assms(3) m show_nat_three [of "m * 10 + c"] by (simp add: s abc)
qed

lemma show_nat_no_colon: "CHR '':'' \<notin> set (show_nat n)"
proof
  assume "CHR '':'' \<in> set (show_nat n)"
  with show_nat_digits have "is_base_digit 10 (CHR '':'')" by blast
  then show False by (simp add: is_base_digit_def digit_value_def)
qed

text \<open>The documented forms of an \<^verbatim>\<open>x-amz-rdma-reply\<close> value, and what each one means.\<close>

inductive reply_form :: "string \<Rightarrow> int \<Rightarrow> RdmaToken option \<Rightarrow> bool" where
  form_ok: "reply_form ''ok'' 200 None"
| form_err: "reply_form ''err'' (- 1) None"
| form_status: "100 \<le> n \<Longrightarrow> n \<le> 599 \<Longrightarrow> reply_form (show_nat n) (int n) None"
| form_peer: "decodeRdmaTokenHex hex = Some t \<Longrightarrow> reply_form (''200:'' @ hex) 200 (Some t)"

lemma show_nat_200: "show_nat 200 = ''200''"
proof -
  have "(of_char (digit_char 2) :: nat) = of_char (CHR ''2'')" "(of_char (digit_char 0) :: nat) = of_char (CHR ''0'')"
    by (simp_all add: of_char_digit_char)
  then have "digit_char 2 = CHR ''2''" "digit_char 0 = CHR ''0''"
    by (simp_all only: of_char_eq_iff)
  then show ?thesis by (simp add: show_nat_three)
qed

lemma parseNumber_status:
  "100 \<le> n \<Longrightarrow> n \<le> 599 \<Longrightarrow> parseNumber unsigned_int (show_nat n) kDefaultNumberBase = Some (int n)"
  using parseNumber_to_string [of unsigned_int "int n"]
  by (simp add: unsigned_int_def to_string_def kDefaultNumberBase_def)

lemma reply_form_parses:
  assumes "reply_form value code tok" and "stripReply reply = value"
  shows "parseReply reply = Some \<lparr>httpCode = code, peerToken = tok\<rparr>"
  using assms
proof (induction rule: reply_form.induct)
  case (form_status n)
  have no_colon: "takeWhile (\<lambda>c. c \<noteq> CHR '':'') (show_nat n) = show_nat n"
    using show_nat_no_colon [of n] by (intro takeWhile_all) auto
  have "\<not> is_base_digit 10 (CHR ''k'')" "\<not> is_base_digit 10 (CHR ''r'')"
    by (simp_all add: is_base_digit_def digit_value_def)
  then have "show_nat n \<noteq> ''ok''" and "show_nat n \<noteq> ''err''"
    using show_nat_digits [of n] by (metis list.set_intros)+
  moreover have "length (show_nat n) = 3"
    using form_status by (simp add: show_nat_three)
  ultimately show ?case
    using form_status parseNumber_status [of n]
    by (simp add: parseReply_def Let_def no_colon http_defs)
next
  case (form_peer hex t)
  then show ?case
    using parseNumber_status [of 200]
    by (simp add: parseReply_def Let_def http_defs show_nat_200)
qed (simp_all add: parseReply_def kHttpOk_def)

lemma parses_reply_form:
  assumes "parseReply reply = Some p"
  shows "reply_form (stripReply reply) (httpCode p) (peerToken p)"
proof (cases "stripReply reply = ''ok'' \<or> stripReply reply = ''err''")
  case True
  with assms show ?thesis
    by (auto simp: parseReply_def kHttpOk_def reply_form.simps)
next
  case False
  define val where "val = stripReply reply"
  define status where "status = takeWhile (\<lambda>c. c \<noteq> CHR '':'') val"
  from assms False obtain code where len: "length status = 3"
    and num: "parseNumber unsigned_int status kDefaultNumberBase = Some code"
    and range: "100 \<le> code" "code \<le> 599"
    and rest: "length status = length val \<and> p = \<lparr>httpCode = code, peerToken = None\<rparr> \<or>
      length status \<noteq> length val \<and> code = 200 \<and>
      (\<exists>t. decodeRdmaTokenHex (drop 4 val) = Some t \<and> p = \<lparr>httpCode = code, peerToken = Some t\<rparr>)"
    unfolding parseReply_def Let_def val_def [symmetric] status_def [symmetric]
    by (auto simp: http_defs split: if_splits option.splits)
  from num have digits: "\<forall>c\<in>set status. is_base_digit 10 c"
    and code: "code = int (digits_value 10 0 status)"
    by (auto simp: parseNumber_unsigned_iff unsigned_int_def kDefaultNumberBase_def)
  with len range have status: "status = show_nat (nat code)"
    using three_digits [of status] by simp
  have split: "val = status @ dropWhile (\<lambda>c. c \<noteq> CHR '':'') val"
    by (simp add: status_def)
  from rest show ?thesis
  proof (elim disjE conjE exE)
    assume "length status = length val" and p: "p = \<lparr>httpCode = code, peerToken = None\<rparr>"
    with split have "val = status" by (metis append_eq_conv_conj takeWhile_dropWhile_id take_all_iff order_refl)
    then show ?thesis
      using form_status [of "nat code"] range p by (simp add: val_def [symmetric] status)
  next
    fix t assume ne: "length status \<noteq> length val" and c: "code = 200"
      and d: "decodeRdmaTokenHex (drop 4 val) = Some t" and p: "p = \<lparr>httpCode = code, peerToken = Some t\<rparr>"
    from ne split have "dropWhile (\<lambda>c. c \<noteq> CHR '':'') val \<noteq> []" by force
    then obtain r where r: "dropWhile (\<lambda>c. c \<noteq> CHR '':'') val = CHR '':'' # r"
      using hd_dropWhile [of "\<lambda>c. c \<noteq> CHR '':''" val] by (metis list.collapse)
    have "drop 4 val = r"
      using arg_cong [OF split, of "drop 4"] len by (simp add: r)
    then have "val = ''200:'' @ drop 4 val"
      using split status c show_nat_200 by (simp add: r)
    then show ?thesis
      using form_peer [OF d] p c by (simp add: val_def [symmetric])
  qed
qed

text \<open>C23. The reply parser accepts exactly the documented forms, once trailing NUL, CR and LF
  characters are gone, and reports the status and the peer token that form carries.\<close>

theorem reply_grammar:
  "parseReply reply = Some p \<longleftrightarrow> reply_form (stripReply reply) (httpCode p) (peerToken p)"
  using parses_reply_form reply_form_parses [OF _ refl] by fastforce

lemma decode_no_strip:
  assumes "decodeRdmaTokenHex hex = Some t"
  shows "stripReply (xs @ hex) = xs @ hex"
proof -
  from assms obtain buf where b: "hexBytes hex = Some buf" and l: "length hex = kRdmaTokenHexLen"
    by (auto simp: decodeRdmaTokenHex_def split: if_splits option.splits)
  have "hex \<noteq> []" using l by (auto simp: kRdmaTokenHexLen_def)
  then obtain ys c where hex: "hex = ys @ [c]" by (metis append_butlast_last_id)
  from b have "parseNumber uint8_t (take 2 (drop (43 * 2) hex)) 16 \<noteq> None"
    by (auto simp: hexBytes_def those_eq_Some_iff kTokenBinaryLen_def kGidLen_def map_eq_conv list_eq_iff_nth_eq
        dest: spec [where x = 43])
  moreover have "c \<in> set (take 2 (drop (43 * 2) hex))"
    using l by (auto simp: hex kRdmaTokenHexLen_def)
  ultimately have "is_base_digit 16 c"
    by (auto simp: parseNumber_unsigned_iff uint8_t_def)
  then have "c \<noteq> NUL \<and> c \<noteq> CHR 0x0A \<and> c \<noteq> CHR 0x0D"
    by (auto simp: is_base_digit_def digit_value_def NUL_def)
  then show ?thesis by (simp add: stripReply_def hex)
qed

text \<open>A server's \<^verbatim>\<open>200\<close> reply with its peer token is parsed back to that token, and is a success.\<close>

theorem reply_with_peer_token_roundtrip:
  assumes "wf_token t"
  shows "parsePeerTokenFromReply (encodeReplyWithPeerToken kHttpOk t) = Some t \<and>
    decodeRdmaReply (encodeReplyWithPeerToken kHttpOk t) = Some Success"
proof -
  have reply: "encodeReplyWithPeerToken kHttpOk t = ''200:'' @ encodeRdmaToken t"
    by (simp add: encodeReplyWithPeerToken_def to_string_def kHttpOk_def show_nat_200 encodeRdmaToken_def)
  have "parseReply (''200:'' @ encodeRdmaToken t) = Some \<lparr>httpCode = 200, peerToken = Some t\<rparr>"
    using decode_encodeRdmaToken [OF assms] reply_form_parses form_peer decode_no_strip by blast
  then show ?thesis
    unfolding reply
    by (simp add: parsePeerTokenFromReply_def decodeRdmaReply_def parseRdmaReplyHttpCode_def
        isSuccessHttpCode_def http_defs)
qed

theorem reply_with_peer_token_roundtrip_witness:
  "parsePeerTokenFromReply (encodeReplyWithPeerToken kHttpOk sample_token) = Some sample_token"
  using reply_with_peer_token_roundtrip [OF wf_sample_token] by simp

text \<open>A status that isn't 200 never comes with a peer token.\<close>

lemma peer_token_only_200:
  "parseReply reply = Some p \<Longrightarrow> peerToken p = Some t \<Longrightarrow> httpCode p = 200"
  by (drule parses_reply_form) (auto elim: reply_form.cases)

subsection \<open>The client's NIC address\<close>

lemma length_dottedQuad_le: "length (dottedQuad ip) \<le> 15"
proof -
  have "length (show_nat (unat b)) \<le> 3" for b :: u8
    using length_show_nat_le [of "unat b" 3] u8_less_256 [of b] by simp
  from this [of "ip ! 0"] this [of "ip ! 1"] this [of "ip ! 2"] this [of "ip ! 3"]
  show ?thesis by (simp add: dottedQuad_def)
qed

lemma NUL_not_in_dottedQuad: "NUL \<notin> set (dottedQuad ip)"
proof -
  have "\<not> is_base_digit 10 NUL" by (simp add: is_base_digit_def digit_value_def NUL_def)
  then have "NUL \<notin> set (show_nat n)" for n using show_nat_digits by blast
  moreover have "NUL \<noteq> CHR ''.''" by (simp add: NUL_def)
  ultimately show ?thesis by (auto simp: dottedQuad_def)
qed

lemma dottedQuad_buffer:
  "length (dottedQuad ip) < n \<Longrightarrow>
   take (length (dottedQuad ip) + 1)
     (take (INET_ADDRSTRLEN - 1) (dottedQuad ip) @
      replicate (INET_ADDRSTRLEN - length (take (INET_ADDRSTRLEN - 1) (dottedQuad ip))) NUL)
   = dottedQuad ip @ [NUL]"
  using length_dottedQuad_le [of ip] by (simp add: INET_ADDRSTRLEN_def)

text \<open>\<^verbatim>\<open>parseClientNicFromTokenHex\<close> never writes outside the caller's buffer. It succeeds exactly
  when the buffer isn't empty, the token decodes, and the address it holds, if any, fits with its
  NUL; then the buffer holds that address, NUL-terminated, or an empty string.\<close>

theorem client_nic_buffer:
  "(case parseClientNicFromTokenHex tokenHex nicIp of (ok, out) \<Rightarrow>
     length out = length nicIp \<and>
     ok = (nicIp \<noteq> [] \<and> (\<exists>t. decodeRdmaTokenHex tokenHex = Some t \<and>
            (isIpv4MappedGid (gid t) \<longrightarrow> length (dottedQuad (ipv4OfGid (gid t))) < length nicIp))) \<and>
     (ok \<longrightarrow> (\<forall>t. decodeRdmaTokenHex tokenHex = Some t \<longrightarrow>
        cStringViewAll out = (if isIpv4MappedGid (gid t) then dottedQuad (ipv4OfGid (gid t)) else []))))"
proof (cases "nicIp = [] \<or> decodeRdmaTokenHex tokenHex = None")
  case True
  then show ?thesis by (auto simp: parseClientNicFromTokenHex_def Let_def)
next
  case False
  then obtain t c cs where t: "decodeRdmaTokenHex tokenHex = Some t" and n: "nicIp = c # cs"
    by (meson list.exhaust not_None_eq)
  have "cStringViewAll (dottedQuad ip @ [NUL] @ rest) = dottedQuad ip" for ip rest
    using NUL_not_in_dottedQuad cStringView_terminated by (simp add: cStringViewAll_def)
  moreover have "cStringViewAll (NUL # cs) = []"
    by (simp add: cStringViewAll_def cStringView_def)
  ultimately show ?thesis
    using t dottedQuad_buffer [of "ipv4OfGid (gid t)" "length nicIp"]
    by (simp add: parseClientNicFromTokenHex_def Let_def n del: take_append)
qed

theorem client_nic_buffer_witness:
  "cStringViewAll (snd (parseClientNicFromTokenHex (encodeRdmaToken sample_token) (replicate 16 NUL)))
     = dottedQuad [192, 168, 1, 20]"
proof -
  have d: "decodeRdmaTokenHex (encodeRdmaToken sample_token) = Some sample_token"
    by (rule decode_encodeRdmaToken [OF wf_sample_token])
  have "isIpv4MappedGid (gid sample_token)" "ipv4OfGid (gid sample_token) = [192, 168, 1, 20]"
    by (simp_all add: sample_token_def isIpv4MappedGid_def ipv4OfGid_def kIpv4MappedPrefix_def)
  with d length_dottedQuad_le [of "[192, 168, 1, 20]"] show ?thesis
    using client_nic_buffer [where tokenHex = "encodeRdmaToken sample_token" and nicIp = "replicate 16 NUL"]
    by (simp add: split_beta)
qed

end
