(* ===== verification/Transport.thy ===== *)
theory Transport
  imports Topology Token
begin

text \<open>
  Devices and connections, from \<^verbatim>\<open>src/rdma/transport.h\<close>, \<^verbatim>\<open>src/rdma/transport.cpp\<close>,
  \<^verbatim>\<open>src/rdma/vendor-ops.h\<close> and the two vendor backends. The lemmas show that opening a device and
  creating a connection either own exactly what they return or leave nothing behind, which state a
  queue pair is in after each operation, what is written into its attributes, and that both polling
  loops end.
\<close>

subsection \<open>Vendors\<close>

definition kVendorIdBroadcom :: u32 where "kVendorIdBroadcom = 0x14E4"
definition kVendorIdPensando :: u32 where "kVendorIdPensando = 0x1DD8"
definition kQpTimeout :: u8 where "kQpTimeout = 14"
definition kQpRetryCount :: u8 where "kQpRetryCount = 7"
definition kQpRnrRetry :: u8 where "kQpRnrRetry = 7"

definition isBnxtDevice :: "u32 \<Rightarrow> bool" where
  "isBnxtDevice vendorId \<longleftrightarrow> vendorId = kVendorIdBroadcom"

definition configureBnxtQp :: "ibv_qp_attr \<Rightarrow> ibv_qp_attr" where
  "configureBnxtQp attr = attr\<lparr>path_mtu := IBV_MTU_4096, timeout := kQpTimeout,
     retry_cnt := kQpRetryCount, rnr_retry := kQpRnrRetry\<rparr>"

definition isIonicDevice :: "u32 \<Rightarrow> bool" where
  "isIonicDevice vendorId \<longleftrightarrow> vendorId = kVendorIdPensando"

definition configureIonicQp :: "ibv_qp_attr \<Rightarrow> ibv_qp_attr" where
  "configureIonicQp attr = attr\<lparr>path_mtu := IBV_MTU_4096, timeout := kQpTimeout,
     retry_cnt := kQpRetryCount, rnr_retry := kQpRnrRetry\<rparr>"

text \<open>Which of the two vendor backends the build includes.\<close>

record build_config =
  HIPOBJ_BNXT :: bool
  HIPOBJ_IONIC :: bool

subsection \<open>Devices and connections\<close>

record RdmaDevice =
  dev_ctx :: ibv_context
  dev_pd :: ibv_pd
  dev_portNum :: u8
  gidIndex :: int
  localGid :: ibv_gid
  vendorId :: "u32 option"

text \<open>The device a connection refers to is shared and never changes, so the connection holds its value.\<close>

record RcConnection =
  conn_device :: RdmaDevice
  conn_cq :: ibv_cq
  conn_qp :: ibv_qp

text \<open>The destructors: the protection domain before the context, the queue pair before its CQ.\<close>

definition destroyRdmaDevice :: "'e Verbs \<Rightarrow> RdmaDevice \<Rightarrow> ('e world, unit) state" where
  "destroyRdmaDevice V d = do { _ \<leftarrow> IbvPdDeleter V (dev_pd d); IbvContextDeleter V (dev_ctx d) }"

definition destroyRcConnection :: "'e Verbs \<Rightarrow> RcConnection \<Rightarrow> ('e world, unit) state" where
  "destroyRcConnection V c = do { _ \<leftarrow> IbvQpDeleter V (conn_qp c); IbvCqDeleter V (conn_cq c) }"

definition kPortNum :: u8 where
  "kPortNum = 1"

text \<open>
  The part of \<^verbatim>\<open>openRdmaDevice\<close> after the context is open: every early return releases what was
  acquired, the last acquired first.
\<close>

definition finishOpen ::
  "'e Verbs \<Rightarrow> 'e NicTopology \<Rightarrow> ibv_context \<Rightarrow> ('e world, RdmaDevice option) state" where
  "finishOpen V T c = do {
     opd \<leftarrow> alloc_pd V c;
     case opd of
       None \<Rightarrow> do { _ \<leftarrow> IbvContextDeleter V c; State_Monad.return None }
     | Some pdv \<Rightarrow> do {
         port \<leftarrow> liftE (v_query_port V c kPortNum);
         if fst port \<noteq> 0
         then do { _ \<leftarrow> IbvPdDeleter V pdv; _ \<leftarrow> IbvContextDeleter V c; State_Monad.return None }
         else do {
           best \<leftarrow> SelectBestGid V T c kPortNum;
           let gi = (case best of None \<Rightarrow> 0 | Some i \<Rightarrow> i);
           g \<leftarrow> liftE (v_query_gid V c kPortNum gi);
           if fst g \<noteq> 0
           then do { _ \<leftarrow> IbvPdDeleter V pdv; _ \<leftarrow> IbvContextDeleter V c; State_Monad.return None }
           else do {
             attr \<leftarrow> liftE (v_query_device V c);
             State_Monad.return (Some \<lparr>dev_ctx = c, dev_pd = pdv, dev_portNum = kPortNum, gidIndex = gi,
               localGid = snd g, vendorId = (if fst attr = 0 then Some (vendor_id (snd attr)) else None)\<rparr>)
           }
         }
       }
   }"

definition openRdmaDevice ::
  "'e Verbs \<Rightarrow> 'e NicTopology \<Rightarrow> int \<Rightarrow> ('e world, RdmaDevice option) state" where
  "openRdmaDevice V T nicIndex = do {
     l \<leftarrow> get_device_list V;
     case l of
       None \<Rightarrow> State_Monad.return None
     | Some (p, n, ds) \<Rightarrow>
         if int (length ds) \<le> 0 \<or> nicIndex < 0 \<or> nicIndex \<ge> int (length ds)
         then do { _ \<leftarrow> IbvDeviceListDeleter V (p, n); State_Monad.return None }
         else (case deviceSpan (Some ds) (int (length ds)) ! nat nicIndex of
             None \<Rightarrow> do { _ \<leftarrow> IbvDeviceListDeleter V (p, n); State_Monad.return None }
           | Some dev \<Rightarrow> do {
               octx \<leftarrow> open_device V dev;
               _ \<leftarrow> IbvDeviceListDeleter V (p, n);
               case octx of
                 None \<Rightarrow> State_Monad.return None
               | Some c \<Rightarrow> finishOpen V T c
             })
   }"

text \<open>The loop of \<^verbatim>\<open>openRdmaDeviceByName\<close>: the index of the first device with the name.\<close>

fun findDeviceByName ::
  "'e Verbs \<Rightarrow> string \<Rightarrow> nat \<Rightarrow> ibv_device option list \<Rightarrow> ('e world, int) state" where
  "findDeviceByName V devName i [] = State_Monad.return (-1)"
| "findDeviceByName V devName i (d # ds) = do {
     name \<leftarrow> liftE (v_get_device_name V d);
     if name = Some devName then State_Monad.return (int i) else findDeviceByName V devName (Suc i) ds
   }"

definition openRdmaDeviceByName ::
  "'e Verbs \<Rightarrow> 'e NicTopology \<Rightarrow> string \<Rightarrow> ('e world, RdmaDevice option) state" where
  "openRdmaDeviceByName V T devName =
     (if devName = [] then State_Monad.return None
      else do {
        l \<leftarrow> get_device_list V;
        case l of
          None \<Rightarrow> State_Monad.return None
        | Some (p, n, ds) \<Rightarrow>
            if int (length ds) \<le> 0
            then do { _ \<leftarrow> IbvDeviceListDeleter V (p, n); State_Monad.return None }
            else do {
              i \<leftarrow> findDeviceByName V devName 0 (deviceSpan (Some ds) (int (length ds)));
              r \<leftarrow> (if i < 0 then State_Monad.return None else openRdmaDevice V T i);
              _ \<leftarrow> IbvDeviceListDeleter V (p, n);
              State_Monad.return r
            }
      })"

subsection \<open>Queue pair transitions\<close>

definition kMinRnrTimer :: u8 where "kMinRnrTimer = 12"
definition kHopLimit :: u8 where "kHopLimit = 64"

definition initAttrs :: "RdmaDevice \<Rightarrow> ibv_qp_attr" where
  "initAttrs d = zeroed_qp_attr
     \<lparr>qp_state := IBV_QPS_INIT, pkey_index := 0, port_num := dev_portNum d,
      qp_access_flags := IBV_ACCESS_REMOTE_READ OR IBV_ACCESS_REMOTE_WRITE\<rparr>"

definition transitionQpToInit :: "'e Verbs \<Rightarrow> RcConnection \<Rightarrow> ('e world, bool) state" where
  "transitionQpToInit V c = do {
     r \<leftarrow> modify_qp V (conn_qp c) (initAttrs (conn_device c))
            (IBV_QP_STATE OR IBV_QP_PKEY_INDEX OR IBV_QP_PORT OR IBV_QP_ACCESS_FLAGS);
     State_Monad.return (r = 0)
   }"

definition applyVendorQpAttrs :: "build_config \<Rightarrow> RdmaDevice \<Rightarrow> ibv_qp_attr \<Rightarrow> ibv_qp_attr" where
  "applyVendorQpAttrs B d attr =
     (case vendorId d of
        None \<Rightarrow> attr
      | Some v \<Rightarrow>
          let attr1 = (if HIPOBJ_BNXT B \<and> isBnxtDevice v then configureBnxtQp attr else attr)
          in if HIPOBJ_IONIC B \<and> isIonicDevice v then configureIonicQp attr1 else attr1)"

definition initQpAttr :: "ibv_cq \<Rightarrow> u32 \<Rightarrow> u32 \<Rightarrow> ibv_qp_init_attr" where
  "initQpAttr q maxSendWr maxRecvWr = zeroed_qp_init_attr
     \<lparr>send_cq := cq_ptr q, recv_cq := cq_ptr q,
      init_cap := zeroed_qp_cap\<lparr>max_send_wr := maxSendWr, max_recv_wr := maxRecvWr,
        max_send_sge := 1, max_recv_sge := 1\<rparr>,
      qp_type := IBV_QPT_RC\<rparr>"

definition createRcConnection ::
  "'e Verbs \<Rightarrow> RdmaDevice \<Rightarrow> int \<Rightarrow> u32 \<Rightarrow> u32 \<Rightarrow> ('e world, RcConnection option) state" where
  "createRcConnection V d cqSize maxSendWr maxRecvWr = do {
     ocq \<leftarrow> create_cq V (dev_ctx d) cqSize;
     case ocq of
       None \<Rightarrow> State_Monad.return None
     | Some q \<Rightarrow> do {
         oqp \<leftarrow> create_qp V (dev_pd d) (initQpAttr q maxSendWr maxRecvWr);
         case oqp of
           None \<Rightarrow> do { _ \<leftarrow> IbvCqDeleter V q; State_Monad.return None }
         | Some p \<Rightarrow> do {
             let conn = \<lparr>conn_device = d, conn_cq = q, conn_qp = p\<rparr>;
             ok \<leftarrow> transitionQpToInit V conn;
             if \<not> ok
             then do { _ \<leftarrow> destroyRcConnection V conn; State_Monad.return None }
             else State_Monad.return (Some conn)
           }
       }
   }"

definition in_range_u8 :: "int \<Rightarrow> bool" where
  "in_range_u8 i \<longleftrightarrow> 0 \<le> i \<and> i \<le> 255"

definition rtrAttrs :: "build_config \<Rightarrow> RdmaDevice \<Rightarrow> u32 \<Rightarrow> u16 \<Rightarrow> ibv_gid \<Rightarrow> ibv_qp_attr" where
  "rtrAttrs B d destQpNum destLid destGid =
     (applyVendorQpAttrs B d (zeroed_qp_attr\<lparr>qp_state := IBV_QPS_RTR, path_mtu := IBV_MTU_4096\<rparr>))
       \<lparr>dest_qp_num := destQpNum, rq_psn := 0, max_dest_rd_atomic := 1, min_rnr_timer := kMinRnrTimer,
        ah_attr := zeroed_ah_attr
          \<lparr>is_global := 1, dlid := destLid, sl := 0, src_path_bits := 0, ah_port_num := dev_portNum d,
           grh := zeroed_grh\<lparr>dgid := destGid, flow_label := 0, hop_limit := kHopLimit,
             sgid_index := word_of_int (gidIndex d), traffic_class := 0\<rparr>\<rparr>\<rparr>"

definition transitionQpToRtr ::
  "build_config \<Rightarrow> 'e Verbs \<Rightarrow> RcConnection \<Rightarrow> u32 \<Rightarrow> u16 \<Rightarrow> ibv_gid \<Rightarrow> ('e world, bool) state" where
  "transitionQpToRtr B V c destQpNum destLid destGid =
     (if \<not> in_range_u8 (gidIndex (conn_device c)) then State_Monad.return False
      else do {
        r \<leftarrow> modify_qp V (conn_qp c) (rtrAttrs B (conn_device c) destQpNum destLid destGid)
               (IBV_QP_STATE OR IBV_QP_AV OR IBV_QP_PATH_MTU OR IBV_QP_DEST_QPN OR IBV_QP_RQ_PSN OR
                IBV_QP_MAX_DEST_RD_ATOMIC OR IBV_QP_MIN_RNR_TIMER);
        State_Monad.return (r = 0)
      })"

definition rtsAttrs :: "build_config \<Rightarrow> RdmaDevice \<Rightarrow> ibv_qp_attr" where
  "rtsAttrs B d =
     (applyVendorQpAttrs B d (zeroed_qp_attr\<lparr>qp_state := IBV_QPS_RTS\<rparr>))
       \<lparr>timeout := kQpTimeout, retry_cnt := kQpRetryCount, rnr_retry := kQpRnrRetry, sq_psn := 0,
        max_rd_atomic := 1\<rparr>"

definition transitionQpToRts :: "build_config \<Rightarrow> 'e Verbs \<Rightarrow> RcConnection \<Rightarrow> ('e world, bool) state" where
  "transitionQpToRts B V c = do {
     r \<leftarrow> modify_qp V (conn_qp c) (rtsAttrs B (conn_device c))
            (IBV_QP_STATE OR IBV_QP_TIMEOUT OR IBV_QP_RETRY_CNT OR IBV_QP_RNR_RETRY OR IBV_QP_SQ_PSN OR
             IBV_QP_MAX_QP_RD_ATOMIC);
     State_Monad.return (r = 0)
   }"

definition connectRcPeer ::
  "build_config \<Rightarrow> 'e Verbs \<Rightarrow> RcConnection \<Rightarrow> RdmaToken \<Rightarrow> ('e world, bool) state" where
  "connectRcPeer B V c tok =
     (if transport tok \<noteq> RC then State_Monad.return False
      else do {
        ok \<leftarrow> transitionQpToRtr B V c (qpNum tok) (lid tok) (toIbvGid (gid tok));
        if \<not> ok then State_Monad.return False else transitionQpToRts B V c
      })"

definition transitionQpToReset :: "'e Verbs \<Rightarrow> RcConnection \<Rightarrow> ('e world, bool) state" where
  "transitionQpToReset V c = do {
     r \<leftarrow> modify_qp V (conn_qp c) (zeroed_qp_attr\<lparr>qp_state := IBV_QPS_RESET\<rparr>) IBV_QP_STATE;
     State_Monad.return (r = 0)
   }"

text \<open>The loop of \<^verbatim>\<open>drainCompletions\<close> makes at most \<^verbatim>\<open>cqe\<close> polls, so it is structural.\<close>

fun drainLoop :: "nat \<Rightarrow> 'e Verbs \<Rightarrow> RcConnection \<Rightarrow> ('e world, bool) state" where
  "drainLoop 0 V c = State_Monad.return True"
| "drainLoop (Suc left) V c = do {
     r \<leftarrow> liftE (v_poll_cq V (conn_cq c));
     if fst r < 0 then State_Monad.return False
     else if fst r = 0 then State_Monad.return True
     else drainLoop left V c
   }"

definition drainCompletions :: "'e Verbs \<Rightarrow> RcConnection \<Rightarrow> ('e world, bool) state" where
  "drainCompletions V c = drainLoop (nat (cqe (conn_cq c))) V c"

definition resetRcConnection :: "'e Verbs \<Rightarrow> RcConnection \<Rightarrow> ('e world, bool) state" where
  "resetRcConnection V c = do {
     ok1 \<leftarrow> transitionQpToReset V c;
     if \<not> ok1 then State_Monad.return False
     else do {
       ok2 \<leftarrow> drainCompletions V c;
       if \<not> ok2 then State_Monad.return False else transitionQpToInit V c
     }
   }"

subsection \<open>Polling for a completion\<close>

text \<open>Times are in nanoseconds; \<^verbatim>\<open>None\<close> is the loop still running when the fuel is used up.\<close>

definition ms :: int where
  "ms = 1000000"

definition opcodeWanted :: "ibv_wc_opcode option \<Rightarrow> ibv_wc_opcode \<Rightarrow> bool" where
  "opcodeWanted expected op \<longleftrightarrow> expected = None \<or> expected = Some op"

fun pollLoop ::
  "nat \<Rightarrow> 'e Platform \<Rightarrow> RcConnection \<Rightarrow> ibv_wc_opcode option \<Rightarrow> int \<Rightarrow> ('e world, bool option) state" where
  "pollLoop 0 P c expected deadline = State_Monad.return None"
| "pollLoop (Suc fuel) P c expected deadline = do {
     now \<leftarrow> liftE (steady_now P);
     if \<not> now < deadline then State_Monad.return (Some False)
     else do {
       r \<leftarrow> liftE (v_poll_cq (verbs P) (conn_cq c));
       if fst r < 0 then State_Monad.return (Some False)
       else if fst r = 0
       then do { _ \<leftarrow> liftE (sleep_for P ms); pollLoop fuel P c expected deadline }
       else if wc_status (snd r) \<noteq> IBV_WC_SUCCESS then State_Monad.return (Some False)
       else if opcodeWanted expected (wc_opcode (snd r)) then State_Monad.return (Some True)
       else pollLoop fuel P c expected deadline
     }
   }"

definition pollCompletion ::
  "nat \<Rightarrow> 'e Platform \<Rightarrow> RcConnection \<Rightarrow> ibv_wc_opcode option \<Rightarrow> int \<Rightarrow> ('e world, bool option) state" where
  "pollCompletion fuel P c expected timeout_ms = do {
     now \<leftarrow> liftE (steady_now P);
     pollLoop fuel P c expected (now + timeout_ms * ms)
   }"

subsection \<open>Opening a device\<close>

definition device_resources :: "RdmaDevice \<Rightarrow> resource multiset" where
  "device_resources d = {#Pd (pd_serial (dev_pd d)), Context (ctx_serial (dev_ctx d))#}"

definition connection_resources :: "RcConnection \<Rightarrow> resource multiset" where
  "connection_resources c = {#Qp (qp_serial (conn_qp c)), Cq (cq_serial (conn_cq c))#}"

text \<open>The resources that a result owns: none when there is no result.\<close>

abbreviation owned :: "('a \<Rightarrow> resource multiset) \<Rightarrow> 'a option \<Rightarrow> resource multiset" where
  "owned R r \<equiv> (case r of None \<Rightarrow> {#} | Some x \<Rightarrow> R x)"

lemma wp_destroyRdmaDevice [wp_intro]:
  assumes "\<And>e. Q () (w\<lparr>env := e, log := log w @ [Release (Pd (pd_serial (dev_pd d))), Release (Context (ctx_serial (dev_ctx d)))]\<rparr>)"
  shows "wp (destroyRdmaDevice V d) Q w"
  using assms by (auto simp: destroyRdmaDevice_def intro!: wp_deleters)

lemma wp_destroyRcConnection [wp_intro]:
  assumes "\<And>e. Q () (w\<lparr>env := e, log := log w @ [Release (Qp (qp_serial (conn_qp c))), Release (Cq (cq_serial (conn_cq c)))]\<rparr>)"
  shows "wp (destroyRcConnection V c) Q w"
  using assms by (auto simp: destroyRcConnection_def intro!: wp_deleters)

lemma wp_finishOpen:
  assumes "live (log w) = adds {#Context (ctx_serial c)#} L"
  shows "wp (finishOpen V T c) (\<lambda>r w'. live (log w') = adds (owned device_resources r) L \<and> qps_same w w' \<and>
           (\<forall>d. r = Some d \<longrightarrow> dev_portNum d = 1 \<and> 0 \<le> gidIndex d)) w"
  using assms unfolding finishOpen_def Let_def
  by (auto intro!: wp_intro simp: device_resources_def qps_same_def kPortNum_def split: option.splits)

lemma wp_openRdmaDevice:
  "wp (openRdmaDevice V T i) (\<lambda>r w'. live (log w') = adds (owned device_resources r) (live (log w)) \<and> qps_same w w' \<and>
     (\<forall>d. r = Some d \<longrightarrow> dev_portNum d = 1 \<and> 0 \<le> gidIndex d)) w"
  unfolding openRdmaDevice_def
  by (auto intro!: wp_get_device_list wp_open_device wp_deleters wp_conseq [OF wp_finishOpen [where L = "live (log w)"]] simp: qps_same_def split: option.splits)

lemma wp_findDeviceByName:
  "wp (findDeviceByName V nm i ds) (\<lambda>r w'. log w' = log w \<and> serial w' = serial w \<and> r < int (i + length ds)) w"
proof (induction ds arbitrary: i w)
  case (Cons d ds)
  show ?case
    by (auto intro!: wp_liftE wp_conseq [OF Cons.IH])
qed simp

lemma wp_openRdmaDeviceByName:
  "wp (openRdmaDeviceByName V T nm) (\<lambda>r w'. live (log w') = adds (owned device_resources r) (live (log w)) \<and> qps_same w w' \<and>
     (\<forall>d. r = Some d \<longrightarrow> dev_portNum d = 1 \<and> 0 \<le> gidIndex d)) w"
  unfolding openRdmaDeviceByName_def
  by (auto intro!: wp_get_device_list wp_deleters wp_conseq [OF wp_findDeviceByName]
      wp_conseq [OF wp_openRdmaDevice] simp: device_resources_def qps_same_def split: option.splits)

subsection \<open>Creating, connecting and resetting\<close>

text \<open>
  What an operation on queue pairs keeps: serial numbers only grow, transitions stay legal, and the
  queue pairs outside \<open>N\<close> that existed before stay in the state they were in.
\<close>

definition qp_frame :: "nat set \<Rightarrow> 'e world \<Rightarrow> 'e world \<Rightarrow> bool" where
  "qp_frame N w w' \<longleftrightarrow> serial w \<le> serial w' \<and>
     (\<forall>n < serial w. n \<notin> N \<longrightarrow> qp_state_of n (log w') = qp_state_of n (log w))"

lemma qp_frame_refl [simp]: "qp_frame N w w"
  by (simp add: qp_frame_def)

lemma qp_frame_trans: "qp_frame N w w' \<Longrightarrow> qp_frame N w' w'' \<Longrightarrow> qp_frame N w w''"
  by (auto simp: qp_frame_def)

lemma qp_frame_mono: "qp_frame N w w' \<Longrightarrow> N \<subseteq> N' \<Longrightarrow> qp_frame N' w w'"
  by (auto simp: qp_frame_def)

abbreviation conn_state :: "RcConnection \<Rightarrow> 'e world \<Rightarrow> ibv_qp_state option" where
  "conn_state c w \<equiv> qp_state_of (qp_serial (conn_qp c)) (log w)"

definition created :: "RdmaDevice \<Rightarrow> 'e world \<Rightarrow> RcConnection option \<Rightarrow> 'e world \<Rightarrow> bool" where
  "created d w r w' \<longleftrightarrow>
     live (log w') = adds (owned connection_resources r) (live (log w)) \<and> qp_frame {} w w' \<and>
     (legal_log (log w) \<longrightarrow> legal_log (log w')) \<and>
     (\<forall>c. r = Some c \<longrightarrow> conn_state c w' = Some IBV_QPS_INIT \<and> conn_device c = d \<and>
        serial w \<le> qp_serial (conn_qp c) \<and> qp_serial (conn_qp c) < serial w')"

lemma wp_createRcConnection:
  "wp (createRcConnection V d cqSize maxSendWr maxRecvWr) (created d w) w"
  unfolding createRcConnection_def transitionQpToInit_def Let_def
  by (auto intro!: wp_create_cq wp_create_qp wp_modify_qp wp_deleters wp_destroyRcConnection
      simp: created_def connection_resources_def qp_frame_def initAttrs_def split: option.splits)

text \<open>\<open>only_moves c\<close>: an operation on the queue pair of \<open>c\<close> alone, which acquires and releases nothing.\<close>

definition only_moves :: "RcConnection \<Rightarrow> 'e world \<Rightarrow> 'e world \<Rightarrow> bool" where
  "only_moves c w w' \<longleftrightarrow> live (log w') = live (log w) \<and> serial w' = serial w \<and>
     qp_frame {qp_serial (conn_qp c)} w w'"

lemma applyVendor_keeps [simp]:
  "qp_state (applyVendorQpAttrs B d attr) = qp_state attr"
  by (simp add: applyVendorQpAttrs_def configureBnxtQp_def configureIonicQp_def Let_def split: option.splits)

lemma rtrAttrs_state [simp]: "qp_state (rtrAttrs B d n l g) = IBV_QPS_RTR"
  by (simp add: rtrAttrs_def)

lemma rtsAttrs_state [simp]: "qp_state (rtsAttrs B d) = IBV_QPS_RTS"
  by (simp add: rtsAttrs_def)

lemma initAttrs_state [simp]: "qp_state (initAttrs d) = IBV_QPS_INIT"
  by (simp add: initAttrs_def)

lemma wp_connectRcPeer:
  "wp (connectRcPeer B V c tok) (\<lambda>ok w'. only_moves c w w' \<and>
     (legal_log (log w) \<and> conn_state c w = Some IBV_QPS_INIT \<longrightarrow> legal_log (log w')) \<and>
     (ok \<longrightarrow> conn_state c w' = Some IBV_QPS_RTS)) w"
  unfolding connectRcPeer_def transitionQpToRtr_def transitionQpToRts_def
  by (auto intro!: wp_modify_qp simp: only_moves_def qp_frame_def)

lemma wp_drainLoop: "wp (drainLoop n V c) (\<lambda>_ w'. log w' = log w \<and> serial w' = serial w) w"
proof (induction n arbitrary: w)
  case (Suc n)
  show ?case
    by (auto intro!: wp_liftE wp_conseq [OF Suc])
qed simp

lemma wp_resetRcConnection:
  "wp (resetRcConnection V c) (\<lambda>ok w'. only_moves c w w' \<and>
     (legal_log (log w) \<longrightarrow> legal_log (log w')) \<and>
     (ok \<longrightarrow> conn_state c w' = Some IBV_QPS_INIT)) w"
  unfolding resetRcConnection_def transitionQpToReset_def transitionQpToInit_def drainCompletions_def
  by (auto intro!: wp_modify_qp wp_conseq [OF wp_drainLoop] simp: only_moves_def qp_frame_def)

subsection \<open>Properties\<close>

text \<open>Opening a device by name owns exactly its context and protection domain when it succeeds, and
  leaves what is live as it was when any step fails; nothing is released twice. The device uses
  port 1 and a GID index that is not negative.\<close>

theorem open_device_owns:
  "wp (openRdmaDeviceByName V T nm)
     (\<lambda>r w'. case r of
        None \<Rightarrow> live (log w') = live (log w)
      | Some d \<Rightarrow> live (log w') = adds (device_resources d) (live (log w)) \<and>
                  dev_portNum d = 1 \<and> 0 \<le> gidIndex d) w"
  by (rule wp_conseq [OF wp_openRdmaDeviceByName]) (auto split: option.splits)

text \<open>Creating a connection owns exactly its queue pair and CQ when it succeeds, with the queue pair in
  INIT, and leaves what is live as it was when any step fails. Every transition it makes is legal,
  and it does not touch the queue pairs that were there before.\<close>

theorem create_connection_contract:
  assumes "legal_log (log w)"
  shows "wp (createRcConnection V d cqSize maxSendWr maxRecvWr)
     (\<lambda>r w'. legal_log (log w') \<and>
        (\<forall>n < serial w. qp_state_of n (log w') = qp_state_of n (log w)) \<and>
        (case r of
           None \<Rightarrow> live (log w') = live (log w)
         | Some c \<Rightarrow> live (log w') = adds (connection_resources c) (live (log w)) \<and>
                     conn_state c w' = Some IBV_QPS_INIT)) w"
  by (rule wp_conseq [OF wp_createRcConnection])
     (use assms in \<open>auto simp: created_def qp_frame_def split: option.splits\<close>)

definition sample_rdma_device :: RdmaDevice where
  "sample_rdma_device =
     \<lparr>dev_ctx = \<lparr>ctx_ptr = 48, ctx_serial = 0, ctx_device = sample_device\<rparr>,
      dev_pd = \<lparr>pd_ptr = 64, pd_serial = 1\<rparr>, dev_portNum = 1, gidIndex = 0,
      localGid = \<lparr>raw = kIpv4MappedPrefix @ [10, 0, 0, 1]\<rparr>, vendorId = Some 0x1DD8\<rparr>"

theorem create_connection_contract_witness:
  "legal_log (log sample_world) \<and>
   wp (createRcConnection sample_verbs sample_rdma_device 16 8 8)
     (\<lambda>r w'. legal_log (log w') \<and>
        (\<forall>n < serial sample_world. qp_state_of n (log w') = qp_state_of n (log sample_world)) \<and>
        (case r of
           None \<Rightarrow> live (log w') = live (log sample_world)
         | Some c \<Rightarrow> live (log w') = adds (connection_resources c) (live (log sample_world)) \<and>
                     conn_state c w' = Some IBV_QPS_INIT)) sample_world"
  using create_connection_contract [of sample_world sample_verbs sample_rdma_device 16 8 8]
  by (simp add: sample_world_def)


text \<open>Resetting a connection leaves its queue pair in INIT when it succeeds, whatever state it was in,
  through legal transitions only, acquires and releases nothing, and touches no other queue
  pair.\<close>

theorem reset_connection_contract:
  assumes "legal_log (log w)"
  shows "wp (resetRcConnection V c)
     (\<lambda>ok w'. legal_log (log w') \<and> live (log w') = live (log w) \<and>
        (\<forall>n < serial w. n \<noteq> qp_serial (conn_qp c) \<longrightarrow> qp_state_of n (log w') = qp_state_of n (log w)) \<and>
        (ok \<longrightarrow> conn_state c w' = Some IBV_QPS_INIT)) w"
  by (rule wp_conseq [OF wp_resetRcConnection])
     (use assms in \<open>auto simp: only_moves_def qp_frame_def\<close>)

definition sample_connection :: RcConnection where
  "sample_connection = \<lparr>conn_device = sample_rdma_device, conn_cq = \<lparr>cq_ptr = 80, cq_serial = 2, cqe = 16\<rparr>,
     conn_qp = \<lparr>qp_ptr = 96, qp_serial = 3, qp_num = 17\<rparr>\<rparr>"

theorem reset_connection_contract_witness:
  "wp (resetRcConnection sample_verbs sample_connection)
     (\<lambda>ok w'. legal_log (log w') \<and> live (log w') = live (log sample_world) \<and>
        (\<forall>n < serial sample_world. n \<noteq> qp_serial (conn_qp sample_connection) \<longrightarrow>
           qp_state_of n (log w') = qp_state_of n (log sample_world)) \<and>
        (ok \<longrightarrow> conn_state sample_connection w' = Some IBV_QPS_INIT)) sample_world"
  by (rule reset_connection_contract) (simp add: sample_world_def)

subsection \<open>Polling ends\<close>

text \<open>
  What polling needs of the clock, with \<open>clk\<close> the time in an environment: reading the clock gives the
  time and takes at least a nanosecond, sleeping takes at least as long as asked, and polling does
  not turn time back.
\<close>

definition time_passes :: "('e \<Rightarrow> int) \<Rightarrow> 'e Platform \<Rightarrow> bool" where
  "time_passes clk P \<longleftrightarrow>
     (\<forall>e. fst (run_state (steady_now P) e) = clk e \<and> clk e < clk (snd (run_state (steady_now P) e))) \<and>
     (\<forall>e d. clk e + d \<le> clk (snd (run_state (sleep_for P d) e)) \<and> clk e \<le> clk (snd (run_state (sleep_for P d) e))) \<and>
     (\<forall>e q. clk e \<le> clk (snd (run_state (v_poll_cq (verbs P) q) e)))"

lemma time_passes_rules:
  assumes "time_passes clk P"
  shows "(\<And>a e. a = clk (env w) \<Longrightarrow> clk (env w) < clk e \<Longrightarrow> Q a (w\<lparr>env := e\<rparr>)) \<Longrightarrow> wp (liftE (steady_now P)) Q w"
    and "(\<And>u e. clk (env w) + d \<le> clk e \<Longrightarrow> clk (env w) \<le> clk e \<Longrightarrow> R u (w\<lparr>env := e\<rparr>)) \<Longrightarrow> wp (liftE (sleep_for P d)) R w"
    and "(\<And>r e. clk (env w) \<le> clk e \<Longrightarrow> S r (w\<lparr>env := e\<rparr>)) \<Longrightarrow> wp (liftE (v_poll_cq (verbs P) q)) S w"
  using assms unfolding time_passes_def wp_liftE_iff split_beta by blast+

lemma wp_pollLoop_ends:
  assumes "time_passes clk P" "nat (deadline - clk (env w)) < fuel"
  shows "wp (pollLoop fuel P c expected deadline) (\<lambda>r _. \<not> Option.is_none r) w"
  using assms(2)
proof (induction fuel arbitrary: w)
  case (Suc fuel)
  show ?case
    using Suc.prems by (auto intro!: time_passes_rules [OF assms(1)] Suc.IH simp: ms_def; linarith)
qed simp

text \<open>A poll of \<open>q\<close> that delivers a successful completion of the kind awaited.\<close>

definition delivers :: "'e Verbs \<Rightarrow> ibv_cq \<Rightarrow> ibv_wc_opcode option \<Rightarrow> bool" where
  "delivers V q expected \<longleftrightarrow> (\<exists>e n wc e'. run_state (v_poll_cq V q) e = ((n, wc), e') \<and> 0 < n \<and>
     wc_status wc = IBV_WC_SUCCESS \<and> opcodeWanted expected (wc_opcode wc))"

lemma wp_poll_undelivered:
  assumes "\<not> delivers V q expected"
    and "\<And>r e. 0 < fst r \<longrightarrow> wc_status (snd r) = IBV_WC_SUCCESS \<longrightarrow> \<not> opcodeWanted expected (wc_opcode (snd r)) \<Longrightarrow>
           Q r (w\<lparr>env := e\<rparr>)"
  shows "wp (liftE (v_poll_cq V q)) Q w"
  unfolding wp_liftE_iff split_beta by (rule assms(2)) (metis assms(1) delivers_def prod.collapse)

lemma wp_pollLoop_undelivered:
  assumes "\<not> delivers (verbs P) (conn_cq c) expected"
  shows "wp (pollLoop fuel P c expected deadline) (\<lambda>r _. r \<noteq> Some True) w"
proof (induction fuel arbitrary: w)
  case (Suc fuel)
  show ?case
    by (auto intro!: wp_poll_undelivered [OF assms] Suc
        wp_liftE [where m = "steady_now P"] wp_liftE [where m = "sleep_for P ms"])
qed simp

lemma wp_pollLoop_sound:
  "wp (pollLoop fuel P c expected deadline) (\<lambda>r _. r = Some True \<longrightarrow> delivers (verbs P) (conn_cq c) expected) w"
  by (cases "delivers (verbs P) (conn_cq c) expected") (auto intro: wpI wp_pollLoop_undelivered)

text \<open>C29. With a clock that moves on, polling for a completion always returns; the number of turns is at
  most the timeout in nanoseconds plus one. It reports success only when a poll delivered a successful
  completion with the opcode that was asked for, so a timeout is never a success.\<close>

theorem poll_completion_ends:
  assumes "time_passes clk P" "nat (timeout_ms * ms) < fuel"
  shows "wp (pollCompletion fuel P c expected timeout_ms)
           (\<lambda>r _. \<exists>ok. r = Some ok \<and> (ok \<longrightarrow> delivers (verbs P) (conn_cq c) expected)) w"
proof -
  let ?d = "clk (env w) + timeout_ms * ms"
  have "wp (pollLoop fuel P c expected ?d)
          (\<lambda>r _. \<exists>ok. r = Some ok \<and> (ok \<longrightarrow> delivers (verbs P) (conn_cq c) expected)) (w\<lparr>env := e\<rparr>)"
    if "clk (env w) < clk e" for e
  proof (rule wp_conseq [OF wp_conj])
    show "wp (pollLoop fuel P c expected ?d) (\<lambda>r _. \<not> Option.is_none r) (w\<lparr>env := e\<rparr>)"
      using that assms by (intro wp_pollLoop_ends) auto
    show "wp (pollLoop fuel P c expected ?d)
      (\<lambda>r _. r = Some True \<longrightarrow> delivers (verbs P) (conn_cq c) expected) (w\<lparr>env := e\<rparr>)"
      by (rule wp_pollLoop_sound)
  qed (auto simp: Option.is_none_def)
  then show ?thesis
    unfolding pollCompletion_def by (auto intro!: time_passes_rules(1) [OF assms(1)])
qed

lemma sample_time_passes: "time_passes (\<lambda>t. t) sample_platform"
  by (auto simp: time_passes_def sample_platform_def sample_verbs_def)

theorem poll_completion_ends_witness:
  "wp (pollCompletion 2000001 sample_platform sample_connection None 2)
     (\<lambda>r _. \<exists>ok. r = Some ok \<and> (ok \<longrightarrow> delivers (verbs sample_platform) (conn_cq sample_connection) None))
     sample_world"
  by (rule poll_completion_ends [OF sample_time_passes]) (simp add: ms_def)

end
