(* ===== verification/Pool.thy ===== *)
theory Pool
  imports Transport
begin

text \<open>
  The connection pool, from \<^verbatim>\<open>src/rdma/connection-pool.h\<close> and \<^verbatim>\<open>src/rdma/connection-pool.cpp\<close>: its
  constructor, leases, \<^verbatim>\<open>acquire\<close>, \<^verbatim>\<open>connect\<close>, \<^verbatim>\<open>restore\<close>, \<^verbatim>\<open>release\<close> and \<^verbatim>\<open>close\<close>. The invariant
  \<open>pool_inv\<close> says that every connection is either free or held by exactly one lease, that a free
  connection's queue pair is in INIT, and that the pool owns exactly the queue pairs and CQs of its
  slots; every operation keeps it.

  A call that would wait for another thread has the outcome \<open>Block\<close>; how several threads interleave
  at the pool's mutex and condition variable is modelled in \<^verbatim>\<open>Pool_Threads\<close>.
\<close>

subsection \<open>Data\<close>

definition kCqSize :: int where "kCqSize = 16"
definition kMaxSendWr :: u32 where "kMaxSendWr = 8"
definition kMaxRecvWr :: u32 where "kMaxRecvWr = 8"

text \<open>\<^verbatim>\<open>device_\<close>, \<^verbatim>\<open>slots_\<close>, \<^verbatim>\<open>free_\<close>, \<^verbatim>\<open>live_\<close> and \<^verbatim>\<open>closed_\<close>; the mutex and the condition variable
  have no value of their own.\<close>

record ConnectionPool =
  pool_device :: RdmaDevice
  slots :: "RcConnection option list"
  free_slots :: "nat list"
  pool_live :: nat
  closed :: bool

text \<open>A lease that still has its pool.\<close>

record Lease =
  lease_index :: nat
  connected :: bool

datatype AcquireError = Closed | NoConnections | Busy

subsection \<open>Operations\<close>

text \<open>The constructor's loop, from slot \<open>i\<close> on.\<close>

fun createSlots ::
  "'e Verbs \<Rightarrow> RdmaDevice \<Rightarrow> nat \<Rightarrow> RcConnection option list \<Rightarrow> ('e world, RcConnection option list) state" where
  "createSlots V d 0 ss = State_Monad.return ss"
| "createSlots V d (Suc n) ss = do {
     conn \<leftarrow> createRcConnection V d kCqSize kMaxSendWr kMaxRecvWr;
     case conn of
       None \<Rightarrow> State_Monad.return ss
     | Some c \<Rightarrow> createSlots V d n (ss @ [Some c])
   }"

definition newConnectionPool :: "'e Verbs \<Rightarrow> RdmaDevice \<Rightarrow> nat \<Rightarrow> ('e world, ConnectionPool) state" where
  "newConnectionPool V d n = do {
     ss \<leftarrow> createSlots V d n [];
     State_Monad.return \<lparr>pool_device = d, slots = ss, free_slots = [0..<length ss], pool_live = length ss,
       closed = False\<rparr>
   }"

text \<open>The condition that \<^verbatim>\<open>acquire\<close> waits on, and what it does once it stops waiting.\<close>

definition waitCondition :: "ConnectionPool \<Rightarrow> bool" where
  "waitCondition p \<longleftrightarrow> \<not> closed p \<and> free_slots p = [] \<and> pool_live p \<noteq> 0"

definition takeFree :: "ConnectionPool \<Rightarrow> (AcquireError + Lease) \<times> ConnectionPool" where
  "takeFree p =
     (if closed p then (Inl Closed, p)
      else if free_slots p = [] then (Inl (if pool_live p = 0 then NoConnections else Busy), p)
      else (Inr \<lparr>lease_index = last (free_slots p), connected = False\<rparr>,
            p\<lparr>free_slots := butlast (free_slots p)\<rparr>))"

text \<open>\<open>held\<close> is \<^verbatim>\<open>t_leasesHeld\<close> of the calling thread, which a new lease counts up.\<close>

definition acquire :: "nat \<Rightarrow> ConnectionPool \<Rightarrow> ((AcquireError + Lease) \<times> ConnectionPool \<times> nat) outcome" where
  "acquire held p =
     (if held = 0 \<and> waitCondition p then Block
      else case takeFree p of
          (Inl err, p') \<Rightarrow> Return (Inl err, p', held)
        | (Inr l, p') \<Rightarrow> Return (Inr l, p', held + 1))"

definition close_pool :: "ConnectionPool \<Rightarrow> ConnectionPool" where
  "close_pool p = p\<lparr>closed := True\<rparr>"

definition pool_size :: "ConnectionPool \<Rightarrow> nat" where
  "pool_size p = pool_live p"

definition available :: "ConnectionPool \<Rightarrow> nat" where
  "available p = length (free_slots p)"

definition leaseConnection :: "ConnectionPool \<Rightarrow> Lease \<Rightarrow> RcConnection" where
  "leaseConnection p l = the (slots p ! lease_index l)"

definition connectLease ::
  "build_config \<Rightarrow> 'e Verbs \<Rightarrow> ConnectionPool \<Rightarrow> Lease \<Rightarrow> RdmaToken \<Rightarrow> ('e world, bool \<times> Lease) state" where
  "connectLease B V p l tok = do {
     ok \<leftarrow> connectRcPeer B V (leaseConnection p l) tok;
     State_Monad.return (ok, l\<lparr>connected := True\<rparr>)
   }"

text \<open>\<^verbatim>\<open>restore\<close> resets the connection in a slot, or replaces it; \<open>None\<close> is an empty slot.\<close>

definition restore :: "'e Verbs \<Rightarrow> RdmaDevice \<Rightarrow> RcConnection option \<Rightarrow> ('e world, RcConnection option) state" where
  "restore V d conn = do {
     ok \<leftarrow> (case conn of None \<Rightarrow> State_Monad.return False | Some c \<Rightarrow> resetRcConnection V c);
     if ok then State_Monad.return conn
     else do {
       _ \<leftarrow> (case conn of None \<Rightarrow> State_Monad.return () | Some c \<Rightarrow> destroyRcConnection V c);
       createRcConnection V d kCqSize kMaxSendWr kMaxRecvWr
     }
   }"

text \<open>The part of \<^verbatim>\<open>release\<close> that holds the mutex.\<close>

definition releaseLocked :: "nat \<Rightarrow> bool \<Rightarrow> ConnectionPool \<Rightarrow> ConnectionPool" where
  "releaseLocked i usable p =
     (if usable then p\<lparr>free_slots := free_slots p @ [i]\<rparr> else p\<lparr>pool_live := pool_live p - 1\<rparr>)"

definition release :: "'e Verbs \<Rightarrow> nat \<Rightarrow> bool \<Rightarrow> ConnectionPool \<Rightarrow> ('e world, ConnectionPool) state" where
  "release V i conn p =
     (if \<not> conn then State_Monad.return (releaseLocked i True p)
      else do {
        s \<leftarrow> restore V (pool_device p) (slots p ! i);
        State_Monad.return (releaseLocked i (s \<noteq> None) (p\<lparr>slots := (slots p)[i := s]\<rparr>))
      })"

definition destroyLease ::
  "'e Verbs \<Rightarrow> Lease \<Rightarrow> ConnectionPool \<Rightarrow> nat \<Rightarrow> ('e world, ConnectionPool \<times> nat) state" where
  "destroyLease V l p held = do {
     p' \<leftarrow> release V (lease_index l) (connected l) p;
     State_Monad.return (p', held - 1)
   }"

text \<open>The destructor: the slots' connections, first to last.\<close>

fun destroySlots :: "'e Verbs \<Rightarrow> RcConnection option list \<Rightarrow> ('e world, unit) state" where
  "destroySlots V [] = State_Monad.return ()"
| "destroySlots V (None # ss) = destroySlots V ss"
| "destroySlots V (Some c # ss) = do { _ \<leftarrow> destroyRcConnection V c; destroySlots V ss }"

definition destroyConnectionPool :: "'e Verbs \<Rightarrow> ConnectionPool \<Rightarrow> ('e world, unit) state" where
  "destroyConnectionPool V p = destroySlots V (slots p)"

subsection \<open>Invariant\<close>

text \<open>The connections of the slots, and what they own.\<close>

definition connections :: "RcConnection option list \<Rightarrow> RcConnection list" where
  "connections ss = List.map_filter id ss"

definition slots_resources :: "RcConnection option list \<Rightarrow> resource multiset" where
  "slots_resources ss = (\<Sum>s\<leftarrow>ss. owned connection_resources s)"

lemma connections_simps [simp]:
  "connections [] = []" "connections (None # ss) = connections ss" "connections (Some c # ss) = c # connections ss"
  "connections (ss @ ss') = connections ss @ connections ss'"
  by (simp_all add: connections_def List.map_filter_def)

lemma slots_resources_simps [simp]:
  "slots_resources [] = {#}" "slots_resources (s # ss) = owned connection_resources s + slots_resources ss"
  "slots_resources (ss @ ss') = slots_resources ss + slots_resources ss'"
  by (simp_all add: slots_resources_def)

abbreviation qp_id :: "RcConnection \<Rightarrow> nat" where
  "qp_id c \<equiv> qp_serial (conn_qp c)"

text \<open>Every connection is free or held by exactly one lease, and \<open>pool_live\<close> counts them.\<close>

definition pool_shape :: "Lease list \<Rightarrow> ConnectionPool \<Rightarrow> bool" where
  "pool_shape Ls p \<longleftrightarrow> distinct (free_slots p @ map lease_index Ls) \<and>
     (\<forall>i. i \<in> set (free_slots p @ map lease_index Ls) \<longleftrightarrow> i < length (slots p) \<and> slots p ! i \<noteq> None) \<and>
     pool_live p = length (free_slots p) + length Ls"

text \<open>The queue pairs are distinct, and INIT unless a lease has connected them.\<close>

definition pool_conns :: "Lease list \<Rightarrow> ConnectionPool \<Rightarrow> 'e world \<Rightarrow> bool" where
  "pool_conns Ls p w \<longleftrightarrow>
     distinct (map qp_id (connections (slots p))) \<and>
     (\<forall>c\<in>set (connections (slots p)). qp_id c < serial w) \<and>
     (\<forall>i c. i < length (slots p) \<and> slots p ! i = Some c \<and> (\<forall>l\<in>set Ls. lease_index l = i \<longrightarrow> \<not> connected l) \<longrightarrow>
        conn_state c w = Some IBV_QPS_INIT)"

definition pool_inv :: "Lease list \<Rightarrow> ConnectionPool \<Rightarrow> resource multiset option \<Rightarrow> 'e world \<Rightarrow> bool" where
  "pool_inv Ls p L w \<longleftrightarrow> pool_shape Ls p \<and> pool_conns Ls p w \<and>
     live (log w) = adds (slots_resources (slots p)) L \<and> legal_log (log w)"

lemma length_connections: "length (connections ss) \<le> length ss"
  by (simp add: connections_def List.map_filter_def)

lemma connections_set: "c \<in> set (connections ss) \<longleftrightarrow> Some c \<in> set ss"
  by (induction ss) (auto split: option.splits simp: connections_def)

text \<open>Replacing one slot.\<close>

lemma slots_split:
  assumes "i < length ss"
  shows "ss = take i ss @ ss ! i # drop (Suc i) ss" and "ss[i := s] = take i ss @ s # drop (Suc i) ss"
  using assms by (simp_all add: id_take_nth_drop upd_conv_take_nth_drop)

subsection \<open>The constructor\<close>

definition fresh_slots :: "RcConnection option list \<Rightarrow> 'e world \<Rightarrow> bool" where
  "fresh_slots ss w \<longleftrightarrow> None \<notin> set ss \<and> distinct (map qp_id (connections ss)) \<and>
     (\<forall>c\<in>set (connections ss). qp_id c < serial w \<and> conn_state c w = Some IBV_QPS_INIT)"

lemma fresh_slots_Nil [simp]: "fresh_slots [] w"
  by (simp add: fresh_slots_def)

lemma wp_createSlots:
  assumes "fresh_slots ss w" "live (log w) = adds (slots_resources ss) L" "legal_log (log w)"
  shows "wp (createSlots V d n ss) (\<lambda>r w'. fresh_slots r w' \<and> live (log w') = adds (slots_resources r) L \<and>
           legal_log (log w') \<and> length r \<le> length ss + n \<and> qp_frame {} w w' \<and>
           (\<forall>c\<in>set (connections r). c \<in> set (connections ss) \<or> serial w \<le> qp_id c)) w"
  using assms
proof (induction n arbitrary: ss w)
  case (Suc n)
  have more: "wp (createSlots V d n (ss @ [Some c])) (\<lambda>r w''. fresh_slots r w'' \<and>
      live (log w'') = adds (slots_resources r) L \<and> legal_log (log w'') \<and> length r \<le> Suc (length ss + n) \<and>
      qp_frame {} w w'' \<and> (\<forall>c\<in>set (connections r). c \<in> set (connections ss) \<or> serial w \<le> qp_id c)) w'"
    if "created d w (Some c) w'" for c w'
  proof (rule wp_conseq [OF Suc.IH])
    show "fresh_slots (ss @ [Some c]) w'"
      using that Suc.prems by (force simp: created_def fresh_slots_def qp_frame_def)
    show "live (log w') = adds (slots_resources (ss @ [Some c])) L" "legal_log (log w')"
      using that Suc.prems by (auto simp: created_def add.commute)
  next
    fix r and w'' :: "'a world"
    have le: "serial w \<le> serial w'" "serial w \<le> qp_id c" and fr: "qp_frame {} w w'"
      using that by (auto simp: created_def qp_frame_def)
    assume *: "fresh_slots r w'' \<and> live (log w'') = adds (slots_resources r) L \<and> legal_log (log w'') \<and>
      length r \<le> length (ss @ [Some c]) + n \<and> qp_frame {} w' w'' \<and>
      (\<forall>x\<in>set (connections r). x \<in> set (connections (ss @ [Some c])) \<or> serial w' \<le> qp_id x)"
    then have "\<forall>x\<in>set (connections r). x \<in> set (connections ss) \<or> serial w \<le> qp_id x"
      using le by (auto dest: le_trans)
    then show "fresh_slots r w'' \<and> live (log w'') = adds (slots_resources r) L \<and> legal_log (log w'') \<and>
      length r \<le> Suc (length ss + n) \<and> qp_frame {} w w'' \<and>
      (\<forall>c\<in>set (connections r). c \<in> set (connections ss) \<or> serial w \<le> qp_id c)"
      using * qp_frame_trans [OF fr] by simp
  qed
  have stop: "fresh_slots ss w' \<and> live (log w') = adds (slots_resources ss) L \<and> legal_log (log w') \<and>
      qp_frame {} w w'" if "created d w None w'" for w'
    using that Suc.prems by (force simp: created_def fresh_slots_def qp_frame_def)
  show ?case
    unfolding createSlots.simps wp_bind_iff
  proof (rule wp_conseq [OF wp_createRcConnection])
    fix r w' assume r: "created d w r w'"
    show "wp (case r of None \<Rightarrow> State_Monad.return ss | Some c \<Rightarrow> createSlots V d n (ss @ [Some c])) (\<lambda>r w'. fresh_slots r w' \<and>
        live (log w') = adds (slots_resources r) L \<and> legal_log (log w') \<and> length r \<le> length ss + Suc n \<and>
        qp_frame {} w w' \<and> (\<forall>c\<in>set (connections r). c \<in> set (connections ss) \<or> serial w \<le> qp_id c)) w'"
    proof (cases r)
      case None
      then show ?thesis using stop r by simp
    next
      case (Some c)
      then show ?thesis using more [of c w'] r by simp
    qed
  qed
qed simp

lemma wp_newConnectionPool:
  assumes "legal_log (log w)"
  shows "wp (newConnectionPool V d n) (\<lambda>p w'. pool_inv [] p (live (log w)) w' \<and> qp_frame {} w w' \<and>
           pool_device p = d \<and> length (slots p) \<le> n \<and> \<not> closed p \<and> pool_size p = available p \<and>
           (\<forall>c\<in>set (connections (slots p)). serial w \<le> qp_id c)) w"
proof -
  have "pool_inv [] \<lparr>pool_device = d, slots = ss, free_slots = [0..<length ss], pool_live = length ss, closed = False\<rparr> L w'"
    if "fresh_slots ss w'" "live (log w') = adds (slots_resources ss) L" "legal_log (log w')" for ss L w'
  proof -
    have some: "i < length ss \<Longrightarrow> ss ! i \<noteq> None" for i
      using that(1) by (metis fresh_slots_def nth_mem)
    have conn: "i < length ss \<Longrightarrow> ss ! i = Some c \<Longrightarrow> c \<in> set (connections ss)" for i c
      by (metis connections_set nth_mem)
    show ?thesis
      using that some unfolding pool_inv_def pool_shape_def pool_conns_def fresh_slots_def
      by (auto dest: conn)
  qed
  then show ?thesis
    unfolding newConnectionPool_def
    by (auto intro!: wp_conseq [OF wp_createSlots [where L = "live (log w)"]]
        simp: assms pool_size_def available_def)
qed

subsection \<open>Leases\<close>

lemma pool_live_counts:
  assumes "pool_shape Ls p"
  shows "pool_live p = length (connections (slots p))"
proof -
  have "length (connections (slots p)) = card {i. i < length (slots p) \<and> slots p ! i \<noteq> None}"
    by (simp add: connections_def List.map_filter_def length_filter_conv_card)
  also have "{i. i < length (slots p) \<and> slots p ! i \<noteq> None} = set (free_slots p @ map lease_index Ls)"
    using assms by (auto simp: pool_shape_def)
  also have "card \<dots> = length (free_slots p @ map lease_index Ls)"
    using assms by (intro distinct_card) (simp add: pool_shape_def)
  finally show ?thesis
    using assms by (simp add: pool_shape_def)
qed

lemma takeFree_shape:
  assumes "pool_shape Ls p" "takeFree p = (Inr l, p')"
  shows "pool_shape (l # Ls) p' \<and> slots p' = slots p \<and> \<not> connected l \<and> lease_index l \<in> set (free_slots p)"
proof -
  from assms(2) have ne: "free_slots p \<noteq> []" and l: "l = \<lparr>lease_index = last (free_slots p), connected = False\<rparr>"
    and p': "p' = p\<lparr>free_slots := butlast (free_slots p)\<rparr>"
    by (auto simp: takeFree_def split: if_splits)
  then have fs: "free_slots p = butlast (free_slots p) @ [last (free_slots p)]"
    by simp
  obtain xs x where xs: "free_slots p = xs @ [x]"
    using ne by (metis append_butlast_last_id)
  show ?thesis
    using assms(1) unfolding p' l pool_shape_def xs by auto
qed

text \<open>The slot of a lease.\<close>

lemma leased_slot:
  assumes "pool_inv (l # Ls) p L w"
  shows "lease_index l < length (slots p)" "slots p ! lease_index l = Some (leaseConnection p l)"
    "lease_index l \<notin> set (free_slots p)" "lease_index l \<notin> lease_index ` set Ls"
    "qp_id (leaseConnection p l) < serial w"
proof -
  have "\<exists>y. slots p ! lease_index l = Some y"
    using assms by (auto simp: pool_inv_def pool_shape_def)
  then show c: "slots p ! lease_index l = Some (leaseConnection p l)"
    by (auto simp: leaseConnection_def)
  show i: "lease_index l < length (slots p)" and "lease_index l \<notin> set (free_slots p)"
    and "lease_index l \<notin> lease_index ` set Ls"
    using assms by (auto simp: pool_inv_def pool_shape_def)
  have "leaseConnection p l \<in> set (connections (slots p))"
    using c i by (metis connections_set nth_mem)
  then show "qp_id (leaseConnection p l) < serial w"
    using assms by (auto simp: pool_inv_def pool_conns_def)
qed

lemma unconnected_init:
  assumes "pool_inv (l # Ls) p L w" "\<not> connected l"
  shows "conn_state (leaseConnection p l) w = Some IBV_QPS_INIT"
proof -
  have "\<forall>l'\<in>set (l # Ls). lease_index l' = lease_index l \<longrightarrow> \<not> connected l'"
    using leased_slot(4) [OF assms(1)] assms(2) by (auto simp: image_iff)
  then show ?thesis
    using assms(1) leased_slot(1,2) [OF assms(1)] unfolding pool_inv_def pool_conns_def by blast
qed

lemma acquire_inv:
  assumes "pool_inv Ls p L w" "acquire held p = Return (r, p', held')"
  shows "case r of
           Inl err \<Rightarrow> p' = p \<and> held' = held
         | Inr l \<Rightarrow> pool_inv (l # Ls) p' L w \<and> held' = held + 1 \<and> \<not> connected l \<and> slots p' = slots p \<and>
                   lease_index l \<notin> lease_index ` set Ls \<and>
                   conn_state (leaseConnection p' l) w = Some IBV_QPS_INIT"
proof (cases r)
  case (Inl err)
  then show ?thesis
    using assms(2) by (auto simp: acquire_def takeFree_def split: if_splits)
next
  case (Inr l)
  then have take: "takeFree p = (Inr l, p')" "held' = held + 1"
    using assms(2) by (auto simp: acquire_def split: if_splits prod.splits sum.splits)
  note shape = takeFree_shape [OF _ take(1), of Ls]
  have "pool_shape (l # Ls) p'" "slots p' = slots p" "\<not> connected l"
    using shape assms(1) by (auto simp: pool_inv_def)
  moreover have "pool_conns (l # Ls) p' w"
    using assms(1) calculation by (auto simp: pool_inv_def pool_conns_def)
  ultimately have inv: "pool_inv (l # Ls) p' L w"
    using assms(1) by (simp add: pool_inv_def)
  then show ?thesis
    using Inr take(2) \<open>\<not> connected l\<close> \<open>slots p' = slots p\<close> leased_slot(4) [OF inv] unconnected_init [OF inv] by simp
qed

lemma close_inv: "pool_inv Ls p L w \<Longrightarrow> pool_inv Ls (close_pool p) L w"
  by (simp add: close_pool_def pool_inv_def pool_shape_def pool_conns_def)

text \<open>The queue pair of another slot is another one.\<close>

lemma other_qp:
  assumes "distinct (map qp_id (connections ss))" "i < length ss" "ss ! i = Some c" "j < length ss" "ss ! j = Some c'" "i \<noteq> j"
  shows "qp_id c \<noteq> qp_id c'"
proof (rule ccontr)
  assume eq: "\<not> qp_id c \<noteq> qp_id c'"
  have "distinct (map qp_id (connections (take i ss @ Some c # drop (Suc i) ss)))"
    using assms(1-3) slots_split(1) by metis
  moreover have "c' \<in> set (connections (take i ss)) \<union> set (connections (drop (Suc i) ss))"
  proof (cases "j < i")
    case True
    then have "take i ss ! j = Some c'" "j < length (take i ss)"
      using assms by auto
    then show ?thesis
      by (metis UnI1 connections_set nth_mem)
  next
    case False
    then have "drop (Suc i) ss ! (j - Suc i) = Some c'" "j - Suc i < length (drop (Suc i) ss)"
      using assms by auto
    then show ?thesis
      by (metis UnI2 connections_set nth_mem)
  qed
  ultimately show False
    using eq by auto
qed

lemma wp_connectLease:
  assumes "pool_inv (l # Ls) p L w" "\<not> connected l"
  shows "wp (connectLease B V p l tok) (\<lambda>r w'. pool_inv (snd r # Ls) p L w' \<and> snd r = l\<lparr>connected := True\<rparr> \<and>
           (fst r \<longrightarrow> conn_state (leaseConnection p l) w' = Some IBV_QPS_RTS)) w"
proof -
  let ?c = "leaseConnection p l"
  note slot = leased_slot [OF assms(1)]
  have init: "conn_state ?c w = Some IBV_QPS_INIT"
    using assms by (rule unconnected_init)
  have inv: "pool_inv (l\<lparr>connected := True\<rparr> # Ls) p L w'"
    if "only_moves ?c w w'" "legal_log (log w')" for w'
  proof -
    have "conn_state c w' = conn_state c w" if "i < length (slots p)" "slots p ! i = Some c" "i \<noteq> lease_index l" for i c
    proof -
      have "qp_id c \<noteq> qp_id ?c" "qp_id c < serial w"
        using that assms(1) slot other_qp [of "slots p" i c "lease_index l" ?c] connections_set nth_mem
        by (fastforce simp: pool_inv_def pool_conns_def)+
      then show ?thesis
        using \<open>only_moves ?c w w'\<close> by (simp add: only_moves_def qp_frame_def)
    qed
    then show ?thesis
      using assms that unfolding pool_inv_def pool_shape_def pool_conns_def only_moves_def by auto
  qed
  show ?thesis
    unfolding connectLease_def
    using assms init inv by (auto intro!: wp_conseq [OF wp_connectRcPeer] simp: pool_inv_def)
qed

lemma wp_restore:
  assumes "live (log w) = adds (connection_resources c + R) L" "legal_log (log w)" "qp_id c < serial w"
  shows "wp (restore V d (Some c)) (\<lambda>r w'. live (log w') = adds (owned connection_resources r + R) L \<and>
           legal_log (log w') \<and> qp_frame {qp_id c} w w' \<and>
           (\<forall>c'. r = Some c' \<longrightarrow> conn_state c' w' = Some IBV_QPS_INIT \<and> qp_id c' < serial w' \<and>
              (qp_id c' = qp_id c \<or> serial w \<le> qp_id c'))) w"
proof -
  let ?post = "\<lambda>r w'. live (log w') = adds (owned connection_resources r + R) L \<and>
           legal_log (log w') \<and> qp_frame {qp_id c} w w' \<and>
           (\<forall>c'. r = Some c' \<longrightarrow> conn_state c' w' = Some IBV_QPS_INIT \<and> qp_id c' < serial w' \<and>
              (qp_id c' = qp_id c \<or> serial w \<le> qp_id c'))"
  have post: "?post r w''"
    if "only_moves c w w'" "legal_log (log w')"
      "created d (w'\<lparr>env := e, log := log w' @ [Release (Qp (qp_id c)), Release (Cq (cq_serial (conn_cq c)))]\<rparr>) r w''"
    for w' e r w''
    using that assms unfolding created_def only_moves_def qp_frame_def connection_resources_def
    by (auto split: option.splits)
  have replaced: "wp (do { _ \<leftarrow> destroyRcConnection V c; createRcConnection V d kCqSize kMaxSendWr kMaxRecvWr }) ?post w'"
    if "only_moves c w w'" "legal_log (log w')" for w'
    unfolding wp_bind_iff
    by (intro wp_destroyRcConnection wp_conseq [OF wp_createRcConnection]) (rule post [OF that])
  have reset: "?post (Some c) w'" if "only_moves c w w'" "legal_log (log w')" "conn_state c w' = Some IBV_QPS_INIT" for w'
    using that assms by (auto simp: only_moves_def)
  show ?thesis
    unfolding restore_def option.case wp_bind_iff
  proof (rule wp_conseq [OF wp_resetRcConnection])
    fix ok w'
    assume *: "only_moves c w w' \<and> (legal_log (log w) \<longrightarrow> legal_log (log w')) \<and> (ok \<longrightarrow> conn_state c w' = Some IBV_QPS_INIT)"
    then show "wp (if ok then State_Monad.return (Some c)
        else do { _ \<leftarrow> destroyRcConnection V c; createRcConnection V d kCqSize kMaxSendWr kMaxRecvWr }) ?post w'"
      using assms(2) reset [of w'] replaced [of w'] by (cases ok) simp_all
  qed
qed

text \<open>The connection a slot is restored to is the old one or a new one.\<close>

lemma created_serial: "created d w (Some c) w' \<Longrightarrow> serial w \<le> qp_id c"
  by (simp add: created_def)

lemma wp_restore_new:
  "wp (restore V d (Some c)) (\<lambda>r w'. \<forall>c'. r = Some c' \<longrightarrow> c' = c \<or> serial w \<le> qp_id c') w"
proof -
  have replaced: "wp (do { _ \<leftarrow> destroyRcConnection V c; createRcConnection V d kCqSize kMaxSendWr kMaxRecvWr })
      (\<lambda>r w'. \<forall>c'. r = Some c' \<longrightarrow> c' = c \<or> serial w \<le> qp_id c') w'" if "serial w' = serial w" for w'
    unfolding wp_bind_iff
    by (intro wp_destroyRcConnection wp_conseq [OF wp_createRcConnection]) (use that created_serial in fastforce)
  show ?thesis
    unfolding restore_def option.case wp_bind_iff
  proof (rule wp_conseq [OF wp_resetRcConnection])
    fix ok w'
    assume *: "only_moves c w w' \<and> (legal_log (log w) \<longrightarrow> legal_log (log w')) \<and> (ok \<longrightarrow> conn_state c w' = Some IBV_QPS_INIT)"
    then show "wp (if ok then State_Monad.return (Some c)
        else do { _ \<leftarrow> destroyRcConnection V c; createRcConnection V d kCqSize kMaxSendWr kMaxRecvWr })
      (\<lambda>r w'. \<forall>c'. r = Some c' \<longrightarrow> c' = c \<or> serial w \<le> qp_id c') w'"
      using replaced [of w'] by (cases ok) (simp_all add: only_moves_def)
  qed
qed

text \<open>The shape after a lease on slot \<open>i\<close> ends, with the slot's new contents.\<close>

lemma release_shape:
  assumes "pool_shape (l # Ls) p" "i = lease_index l"
  shows "pool_shape Ls (releaseLocked i (r \<noteq> None) (p\<lparr>slots := (slots p)[i := r]\<rparr>))"
proof -
  have "i < length (slots p)"
    using assms by (auto simp: pool_shape_def)
  then have nth: "j < length (slots p) \<Longrightarrow> (slots p)[i := r] ! j = (if j = i then r else slots p ! j)" for j
    by simp
  have mem: "j \<in> set (free_slots p) \<or> j \<in> lease_index ` set Ls \<longleftrightarrow> j < length (slots p) \<and> slots p ! j \<noteq> None"
    if "j \<noteq> i" for j
    using assms that by (auto simp: pool_shape_def)
  have notin: "i \<notin> set (free_slots p)" "i \<notin> lease_index ` set Ls"
    using assms by (auto simp: pool_shape_def)
  show ?thesis
  proof (cases "r = None")
    case True
    have "j \<in> set (free_slots p) \<or> j \<in> lease_index ` set Ls \<longleftrightarrow> j < length (slots p) \<and> (slots p)[i := r] ! j \<noteq> None" for j
      using mem [of j] notin nth [of j] True by (cases "j = i") auto
    then show ?thesis
      using assms True by (simp add: pool_shape_def releaseLocked_def)
  next
    case False
    have "j = i \<or> j \<in> set (free_slots p) \<or> j \<in> lease_index ` set Ls \<longleftrightarrow> j < length (slots p) \<and> (slots p)[i := r] ! j \<noteq> None" for j
      using mem [of j] notin nth [of j] False \<open>i < length (slots p)\<close> by (cases "j = i") auto
    then show ?thesis
      using assms False notin by (auto simp: pool_shape_def releaseLocked_def)
  qed
qed

lemma release_conns:
  assumes inv: "pool_inv (l # Ls) p L w" and i: "i = lease_index l" and c: "c = leaseConnection p l"
    and frame: "qp_frame {qp_id c} w w'"
    and new: "\<And>c'. r = Some c' \<Longrightarrow> conn_state c' w' = Some IBV_QPS_INIT \<and> qp_id c' < serial w' \<and>
                (qp_id c' = qp_id c \<or> serial w \<le> qp_id c')"
  shows "pool_conns Ls (releaseLocked i b (p\<lparr>slots := (slots p)[i := r]\<rparr>)) w'"
proof -
  let ?A = "take i (slots p)" and ?B = "drop (Suc i) (slots p)"
  note slot = leased_slot [OF inv, folded i c]
  have split: "slots p = ?A @ Some c # ?B" "(slots p)[i := r] = ?A @ r # ?B"
    using slots_split [OF slot(1)] slot(2) by auto
  have old: "distinct (map qp_id (connections (?A @ Some c # ?B)))"
      "\<forall>x\<in>set (connections (?A @ Some c # ?B)). qp_id x < serial w"
    using inv split(1) unfolding pool_inv_def pool_conns_def by metis+
  have le: "serial w \<le> serial w'"
    using frame by (simp add: qp_frame_def)
  have notin: "qp_id c' \<noteq> qp_id x"
    if "r = Some c'" "x \<in> set (connections ?A) \<union> set (connections ?B)" for c' x
  proof -
    have "qp_id x \<in> qp_id ` (set (connections ?A) \<union> set (connections ?B))"
      using that(2) by blast
    moreover have "qp_id c \<notin> qp_id ` (set (connections ?A) \<union> set (connections ?B))"
      using old(1) by auto
    ultimately have "qp_id x \<noteq> qp_id c"
      by metis
    moreover have "qp_id x < serial w"
      using that(2) old(2) by auto
    ultimately show ?thesis
      using new [OF that(1)] by auto
  qed
  have dist: "distinct (map qp_id (connections (?A @ r # ?B)))"
  proof (cases r)
    case None
    then show ?thesis
      using old(1) by simp
  next
    case (Some c')
    then show ?thesis
      using old(1) notin [OF Some] by (simp add: image_iff)
  qed
  have below: "\<forall>x\<in>set (connections (?A @ r # ?B)). qp_id x < serial w'"
  proof -
    have "\<forall>x\<in>set (connections ?A) \<union> set (connections ?B). qp_id x < serial w'"
      using old(2) le by (auto intro: less_le_trans)
    then show ?thesis
      using new by (cases r) auto
  qed
  have "conn_state x w' = Some IBV_QPS_INIT"
    if "j < length (slots p)" "(slots p)[i := r] ! j = Some x" "\<forall>l'\<in>set Ls. lease_index l' = j \<longrightarrow> \<not> connected l'" for j x
  proof (cases "j = i")
    case True
    then show ?thesis
      using that new slot(1) by simp
  next
    case False
    then have x: "slots p ! j = Some x"
      using that by simp
    have "conn_state x w = Some IBV_QPS_INIT"
      using inv x that False i unfolding pool_inv_def pool_conns_def by auto
    moreover have "x \<in> set (connections (slots p))"
      using x that(1) by (metis connections_set nth_mem)
    moreover have "qp_id x \<noteq> qp_id c"
      using inv x that(1) False slot other_qp [of "slots p" j x i c] by (simp add: pool_inv_def pool_conns_def)
    ultimately show ?thesis
      using frame inv by (simp add: qp_frame_def pool_inv_def pool_conns_def)
  qed
  then show ?thesis
    using dist below unfolding pool_conns_def releaseLocked_def by (simp add: split(2) [symmetric]) blast
qed

lemma wp_release:
  assumes "pool_inv (l # Ls) p L w"
  shows "wp (release V (lease_index l) (connected l) p) (\<lambda>p' w'. pool_inv Ls p' L w' \<and>
           pool_device p' = pool_device p \<and> closed p' = closed p \<and> length (slots p') = length (slots p) \<and>
           qp_frame {qp_id (leaseConnection p l)} w w' \<and>
           (\<forall>c\<in>set (connections (slots p')). c \<in> set (connections (slots p)) \<or> serial w \<le> qp_id c) \<and>
           (pool_live p' = pool_live p \<and> available p' = available p + 1 \<or>
            connected l \<and> pool_live p' = pool_live p - 1 \<and> available p' = available p)) w"
proof (cases "connected l")
  case False
  let ?i = "lease_index l" and ?c = "leaseConnection p l"
  note slot = leased_slot [OF assms]
  have same: "p\<lparr>slots := (slots p)[?i := Some ?c]\<rparr> = p"
    by (simp add: slot(2) [symmetric] list_update_id)
  have "pool_shape Ls (releaseLocked ?i True p)"
    using release_shape [of l Ls p ?i "Some ?c"] assms same by (simp add: pool_inv_def)
  moreover have "pool_conns Ls (releaseLocked ?i True p) w"
    using release_conns [OF assms refl refl qp_frame_refl, of "Some ?c" True] same slot(5)
      unconnected_init [OF assms False] by simp
  ultimately show ?thesis
    using False assms by (simp add: release_def pool_inv_def releaseLocked_def available_def)
next
  case True
  let ?i = "lease_index l" and ?c = "leaseConnection p l"
  let ?R = "slots_resources (take ?i (slots p)) + slots_resources (drop (Suc ?i) (slots p))"
  note slot = leased_slot [OF assms]
  have res: "slots_resources (slots p) = connection_resources ?c + ?R"
      "slots_resources ((slots p)[?i := r]) = owned connection_resources r + ?R" for r
    using slots_split [OF slot(1)] slot(2) by (metis add.assoc add.commute option.case(2) slots_resources_simps(2,3))+
  have restored: "pool_inv Ls (releaseLocked ?i (r \<noteq> None) (p\<lparr>slots := (slots p)[?i := r]\<rparr>)) L w'"
    if "live (log w') = adds (owned connection_resources r + ?R) L" "legal_log (log w')" "qp_frame {qp_id ?c} w w'"
      "\<forall>c'. r = Some c' \<longrightarrow> conn_state c' w' = Some IBV_QPS_INIT \<and> qp_id c' < serial w' \<and>
         (qp_id c' = qp_id ?c \<or> serial w \<le> qp_id c')" for r w'
    using release_shape [of l Ls p ?i r] release_conns [OF assms refl refl that(3), of r] assms that res
    by (auto simp: pool_inv_def releaseLocked_def)
  have pre: "live (log w) = adds (connection_resources ?c + ?R) L" "legal_log (log w)"
    using assms res(1) by (simp_all add: pool_inv_def)
  have new: "\<forall>c\<in>set (connections ((slots p)[?i := r])). c \<in> set (connections (slots p)) \<or> serial w \<le> qp_id c"
    if "\<forall>c'. r = Some c' \<longrightarrow> c' = ?c \<or> serial w \<le> qp_id c'" for r
  proof
    fix c assume "c \<in> set (connections ((slots p)[?i := r]))"
    then have "Some c = r \<or> Some c \<in> set (slots p)"
      using set_update_subset_insert [of "slots p" ?i r] by (auto simp: connections_set)
    moreover have "Some ?c \<in> set (slots p)"
      using slot(1,2) by (metis nth_mem)
    ultimately show "c \<in> set (connections (slots p)) \<or> serial w \<le> qp_id c"
      using that by (auto simp: connections_set)
  qed
  show ?thesis
    using True restored new unfolding release_def slot(2)
    by (auto intro!: wp_conseq [OF wp_conj [OF wp_restore [OF pre slot(5)] wp_restore_new]]
        simp: releaseLocked_def available_def)
qed

text \<open>Destroying the slots releases exactly what they own.\<close>

lemma wp_destroySlots:
  assumes "live (log w) = adds (slots_resources ss) L"
  shows "wp (destroySlots V ss) (\<lambda>_ w'. live (log w') = L \<and> qps_same w w') w"
  using assms
proof (induction ss arbitrary: w)
  case (Cons s ss)
  show ?case
  proof (cases s)
    case None
    then show ?thesis
      using Cons by simp
  next
    case (Some c)
    then show ?thesis
      using Cons.prems
      by (auto intro!: wp_destroyRcConnection wp_conseq [OF Cons.IH] simp: connection_resources_def qps_same_def)
  qed
qed simp

subsection \<open>Properties\<close>

text \<open>A new pool holds as many connections as could be created, at most the number asked for, all
  of them available; it owns exactly their queue pairs and CQs, and each queue pair is in INIT.\<close>

lemma new_pool_inv:
  assumes "legal_log (log w)"
  shows "wp (newConnectionPool V d n) (\<lambda>p w'. pool_inv [] p (live (log w)) w' \<and>
           pool_size p = available p \<and> pool_size p \<le> n \<and> \<not> closed p) w"
proof (rule wp_conseq [OF wp_newConnectionPool [OF assms]])
  fix p and w' :: "'a world"
  assume *: "pool_inv [] p (live (log w)) w' \<and> qp_frame {} w w' \<and> pool_device p = d \<and>
     length (slots p) \<le> n \<and> \<not> closed p \<and> pool_size p = available p \<and>
     (\<forall>c\<in>set (connections (slots p)). serial w \<le> qp_id c)"
  then have "pool_shape [] p"
    by (simp add: pool_inv_def)
  then have "pool_size p = length (connections (slots p))"
    unfolding pool_size_def by (rule pool_live_counts)
  then have "pool_size p \<le> length (slots p)"
    using length_connections [of "slots p"] by simp
  then show "pool_inv [] p (live (log w)) w' \<and> pool_size p = available p \<and> pool_size p \<le> n \<and> \<not> closed p"
    using * by simp
qed

text \<open>A lease is on a connection that no other lease holds, with its queue pair in INIT; a thread
  that already holds a lease never waits; and a call that returns no lease leaves the pool as it
  was, reporting that it is closed, that it has no connections, or that they are all leased,
  in that order.\<close>

theorem acquire_exclusive:
  assumes "pool_inv Ls p L w"
  shows "case acquire held p of
           Return (Inr l, p', held') \<Rightarrow>
             pool_inv (l # Ls) p' L w \<and> held' = held + 1 \<and> lease_index l \<notin> lease_index ` set Ls \<and>
             conn_state (leaseConnection p' l) w = Some IBV_QPS_INIT \<and> \<not> closed p
         | Return (Inl err, p', held') \<Rightarrow> p' = p \<and> held' = held \<and>
             err = (if closed p then Closed else if pool_live p = 0 then NoConnections else Busy) \<and>
             (err = Busy \<longrightarrow> held \<noteq> 0 \<and> available p = 0)
         | Throw \<Rightarrow> False | Running \<Rightarrow> False
         | Block \<Rightarrow> held = 0 \<and> \<not> closed p \<and> available p = 0 \<and> pool_live p \<noteq> 0"
proof (cases "acquire held p")
  case (Return x)
  then obtain r p' held' where x: "acquire held p = Return (r, p', held')"
    by (cases x) auto
  show ?thesis
  proof (cases r)
    case (Inl err)
    then show ?thesis
      using x assms by (auto simp: acquire_def takeFree_def waitCondition_def available_def pool_inv_def pool_shape_def
          split: if_splits)
  next
    case (Inr l)
    then have "\<not> closed p"
      using x by (auto simp: acquire_def takeFree_def split: if_splits)
    then show ?thesis
      using acquire_inv [OF assms x] x Inr by simp
  qed
qed (auto simp: acquire_def waitCondition_def available_def split: if_splits prod.splits sum.splits)

definition sample_pool :: ConnectionPool where
  "sample_pool = fst (run_state (newConnectionPool sample_verbs sample_rdma_device 1) sample_world)"

definition sample_pool_world :: "int world" where
  "sample_pool_world = snd (run_state (newConnectionPool sample_verbs sample_rdma_device 1) sample_world)"

lemma sample_pool_inv: "pool_inv [] sample_pool (Some {#}) sample_pool_world"
  using wp_newConnectionPool [of sample_world sample_verbs sample_rdma_device 1]
  by (simp add: sample_pool_def sample_pool_world_def wp_def sample_world_def split: prod.splits)

theorem acquire_exclusive_witness:
  "case acquire 0 sample_pool of
     Return (Inr l, p', held') \<Rightarrow>
       pool_inv [l] p' (Some {#}) sample_pool_world \<and> held' = 0 + 1 \<and> lease_index l \<notin> lease_index ` set ([] :: Lease list) \<and>
       conn_state (leaseConnection p' l) sample_pool_world = Some IBV_QPS_INIT \<and> \<not> closed sample_pool
   | Return (Inl err, p', held') \<Rightarrow> p' = sample_pool \<and> held' = 0 \<and>
       err = (if closed sample_pool then Closed else if pool_live sample_pool = 0 then NoConnections else Busy) \<and>
       (err = Busy \<longrightarrow> (0::nat) \<noteq> 0 \<and> available sample_pool = 0)
   | Throw \<Rightarrow> False | Running \<Rightarrow> False
   | Block \<Rightarrow> (0::nat) = 0 \<and> \<not> closed sample_pool \<and> available sample_pool = 0 \<and> pool_live sample_pool \<noteq> 0"
  by (rule acquire_exclusive [OF sample_pool_inv])

text \<open>Ending a lease keeps the invariant whatever the verbs return: the connection goes back to the
  pool in INIT, after a reset or a replacement if the lease had connected it, or is dropped when it
  can be neither, and then the pool's size goes down by one. Nothing leaks and nothing is destroyed
  twice.\<close>

theorem end_lease_inv:
  assumes "pool_inv (l # Ls) p L w"
  shows "wp (destroyLease V l p held) (\<lambda>(p', held') w'. pool_inv Ls p' L w' \<and> held' = held - 1 \<and>
           closed p' = closed p \<and>
           (pool_live p' = pool_live p \<and> available p' = available p + 1 \<or>
            connected l \<and> pool_live p' = pool_live p - 1 \<and> available p' = available p)) w"
  unfolding destroyLease_def by (auto intro!: wp_conseq [OF wp_release [OF assms]])

definition sample_lease :: Lease where
  "sample_lease = \<lparr>lease_index = 0, connected = False\<rparr>"

lemma sample_acquire:
  "acquire 0 sample_pool = Return (Inr sample_lease, sample_pool\<lparr>free_slots := []\<rparr>, 1)"
  by code_simp

lemma sample_lease_inv: "pool_inv [sample_lease] (sample_pool\<lparr>free_slots := []\<rparr>) (Some {#}) sample_pool_world"
  using acquire_inv [OF sample_pool_inv sample_acquire] by simp

theorem end_lease_inv_witness:
  "wp (destroyLease sample_verbs sample_lease (sample_pool\<lparr>free_slots := []\<rparr>) 1)
     (\<lambda>(p', held') w'. pool_inv [] p' (Some {#}) w' \<and> held' = 1 - 1 \<and>
        closed p' = closed (sample_pool\<lparr>free_slots := []\<rparr>) \<and>
        (pool_live p' = pool_live (sample_pool\<lparr>free_slots := []\<rparr>) \<and>
           available p' = available (sample_pool\<lparr>free_slots := []\<rparr>) + 1 \<or>
         connected sample_lease \<and> pool_live p' = pool_live (sample_pool\<lparr>free_slots := []\<rparr>) - 1 \<and>
           available p' = available (sample_pool\<lparr>free_slots := []\<rparr>))) sample_pool_world"
  by (rule end_lease_inv [OF sample_lease_inv])

end
