(* ===== verification/Pool_Threads.thy ===== *)
theory Pool_Threads
  imports Pool
begin

text \<open>
  Several threads on one connection pool. A step is what one thread does while it holds the pool's
  mutex, a wake-up, or a notification, which \<^verbatim>\<open>release\<close> and \<^verbatim>\<open>close\<close> make after they have given the
  mutex up; the steps of different threads interleave freely. The steps use the same definitions of
  the critical sections as the sequential model.

  The theorems: two leases never share a connection, a wake-up is never lost, and a thread never
  waits while it holds a lease, so somebody who is not waiting can always return one.
\<close>

subsection \<open>Invariants of step relations\<close>

inductive reach :: "('s \<Rightarrow> bool) \<Rightarrow> ('s \<Rightarrow> 's \<Rightarrow> bool) \<Rightarrow> 's \<Rightarrow> bool" for init step where
  reach_init: "init s \<Longrightarrow> reach init step s"
| reach_step: "reach init step s \<Longrightarrow> step s s' \<Longrightarrow> reach init step s'"

text \<open>The contract of an inductive invariant; it then holds in every reachable state.\<close>

locale inductive_invariant =
  fixes init :: "'s \<Rightarrow> bool" and step :: "'s \<Rightarrow> 's \<Rightarrow> bool" and invar :: "'s \<Rightarrow> bool"
  assumes invar_init: "init s \<Longrightarrow> invar s"
    and invar_step: "invar s \<Longrightarrow> step s s' \<Longrightarrow> invar s'"
begin

lemma reachable_invar: "reach init step s \<Longrightarrow> invar s"
  by (induction rule: reach.induct) (auto intro: invar_init invar_step)

end

subsection \<open>States and steps\<close>

type_synonym thread = nat

text \<open>
  A thread is asleep in \<^verbatim>\<open>returned_.wait\<close>, awake when it has been woken and has yet to look at the
  condition again, or between a critical section and the notification that follows it.
\<close>

record pool_sys =
  spool :: ConnectionPool
  leases :: "(thread \<times> Lease) list"
  asleep :: "thread set"
  awake :: "thread set"
  notifying_one :: "thread set"
  notifying_all :: "thread set"

definition idle :: "pool_sys \<Rightarrow> thread \<Rightarrow> bool" where
  "idle s t \<longleftrightarrow> t \<notin> asleep s \<union> awake s \<union> notifying_one s \<union> notifying_all s"

definition leases_of :: "pool_sys \<Rightarrow> thread \<Rightarrow> nat" where
  "leases_of s t = length (filter (\<lambda>x. fst x = t) (leases s))"

inductive pool_step :: "pool_sys \<Rightarrow> pool_sys \<Rightarrow> bool" where
  acquire_wait: "idle s t \<Longrightarrow> acquire (leases_of s t) (spool s) = Block \<Longrightarrow>
     pool_step s (s\<lparr>asleep := insert t (asleep s)\<rparr>)"
| acquire_lease: "idle s t \<Longrightarrow> acquire (leases_of s t) (spool s) = Return (Inr l, p, h) \<Longrightarrow>
     pool_step s (s\<lparr>spool := p, leases := (t, l) # leases s\<rparr>)"
| acquire_fail: "idle s t \<Longrightarrow> acquire (leases_of s t) (spool s) = Return (Inl err, p, h) \<Longrightarrow>
     pool_step s (s\<lparr>spool := p\<rparr>)"
| spurious: "t \<in> asleep s \<Longrightarrow>
     pool_step s (s\<lparr>asleep := asleep s - {t}, awake := insert t (awake s)\<rparr>)"
| recheck_wait: "t \<in> awake s \<Longrightarrow> waitCondition (spool s) \<Longrightarrow>
     pool_step s (s\<lparr>asleep := insert t (asleep s), awake := awake s - {t}\<rparr>)"
| recheck_lease: "t \<in> awake s \<Longrightarrow> \<not> waitCondition (spool s) \<Longrightarrow> takeFree (spool s) = (Inr l, p) \<Longrightarrow>
     pool_step s (s\<lparr>spool := p, leases := (t, l) # leases s, awake := awake s - {t}\<rparr>)"
| recheck_fail: "t \<in> awake s \<Longrightarrow> \<not> waitCondition (spool s) \<Longrightarrow> takeFree (spool s) = (Inl err, p) \<Longrightarrow>
     pool_step s (s\<lparr>spool := p, awake := awake s - {t}\<rparr>)"
| connect: "idle s t \<Longrightarrow> leases s = xs @ (t, l) # ys \<Longrightarrow>
     pool_step s (s\<lparr>leases := xs @ (t, l\<lparr>connected := True\<rparr>) # ys\<rparr>)"
| release_usable: "idle s t \<Longrightarrow> leases s = xs @ (t, l) # ys \<Longrightarrow>
     (if connected l then r \<noteq> None else r = slots (spool s) ! lease_index l) \<Longrightarrow>
     pool_step s (s\<lparr>spool := releaseLocked (lease_index l) True
                      (spool s\<lparr>slots := (slots (spool s))[lease_index l := r]\<rparr>),
                    leases := xs @ ys, notifying_one := insert t (notifying_one s)\<rparr>)"
| release_dropped: "idle s t \<Longrightarrow> leases s = xs @ (t, l) # ys \<Longrightarrow> connected l \<Longrightarrow>
     p = releaseLocked (lease_index l) False (spool s\<lparr>slots := (slots (spool s))[lease_index l := None]\<rparr>) \<Longrightarrow>
     pool_step s (s\<lparr>spool := p, leases := xs @ ys,
                    notifying_all := (if pool_live p = 0 then insert t (notifying_all s) else notifying_all s)\<rparr>)"
| notify_one: "t \<in> notifying_one s \<Longrightarrow> u \<in> asleep s \<Longrightarrow>
     pool_step s (s\<lparr>notifying_one := notifying_one s - {t}, asleep := asleep s - {u}, awake := insert u (awake s)\<rparr>)"
| notify_nobody: "t \<in> notifying_one s \<Longrightarrow> asleep s = {} \<Longrightarrow>
     pool_step s (s\<lparr>notifying_one := notifying_one s - {t}\<rparr>)"
| notify_all: "t \<in> notifying_all s \<Longrightarrow>
     pool_step s (s\<lparr>notifying_all := notifying_all s - {t}, asleep := {}, awake := awake s \<union> asleep s\<rparr>)"
| close: "idle s t \<Longrightarrow>
     pool_step s (s\<lparr>spool := close_pool (spool s), notifying_all := insert t (notifying_all s)\<rparr>)"

definition pool_start :: "pool_sys \<Rightarrow> bool" where
  "pool_start s \<longleftrightarrow> pool_shape [] (spool s) \<and> leases s = [] \<and> asleep s = {} \<and> awake s = {} \<and>
     notifying_one s = {} \<and> notifying_all s = {}"

subsection \<open>The invariants\<close>

definition exclusive :: "pool_sys \<Rightarrow> bool" where
  "exclusive s \<longleftrightarrow> pool_shape (map snd (leases s)) (spool s)"

text \<open>
  No wake-up is lost: while somebody sleeps, every free connection has a thread awake or a
  notification on its way, and a pool that is closed or has no connections has a notification of
  all on its way. Waiting threads hold no lease.
\<close>

definition no_lost :: "pool_sys \<Rightarrow> bool" where
  "no_lost s \<longleftrightarrow> finite (asleep s) \<and> finite (awake s) \<and> finite (notifying_one s) \<and>
     asleep s \<inter> awake s = {} \<and>
     (\<forall>t \<in> asleep s \<union> awake s. \<forall>l. (t, l) \<notin> set (leases s)) \<and>
     (asleep s \<noteq> {} \<longrightarrow>
        (if closed (spool s) \<or> pool_live (spool s) = 0 then notifying_all s \<noteq> {}
         else length (free_slots (spool s)) \<le> card (awake s) + card (notifying_one s)))"

lemma pool_shape_perm: "pool_shape (xs @ l # ys) p \<longleftrightarrow> pool_shape (l # xs @ ys) p"
  by (auto simp: pool_shape_def)

lemma pool_shape_cong: "map lease_index Ls = map lease_index Ls' \<Longrightarrow> pool_shape Ls p \<longleftrightarrow> pool_shape Ls' p"
  unfolding pool_shape_def by (metis length_map)

lemma takeFree_error_same: "takeFree p = (Inl err, p') \<Longrightarrow> p' = p"
  by (auto simp: takeFree_def split: if_splits)

lemma acquire_cases:
  "acquire h p = Return (Inr l, p', h') \<Longrightarrow> takeFree p = (Inr l, p')"
  "acquire h p = Return (Inl err, p', h') \<Longrightarrow> p' = p"
  "acquire h p = Block \<Longrightarrow> h = 0 \<and> waitCondition p"
  by (auto simp: acquire_def takeFree_def split: if_splits)

lemma leases_of_0: "leases_of s t = 0 \<Longrightarrow> (t, l) \<notin> set (leases s)"
  by (auto simp: leases_of_def filter_empty_conv)

lemma exclusive_release:
  assumes "exclusive s" "leases s = xs @ (t, l) # ys" "i = lease_index l"
  shows "pool_shape (map snd (xs @ ys)) (releaseLocked i (r \<noteq> None) (spool s\<lparr>slots := (slots (spool s))[i := r]\<rparr>))"
    and "slots (spool s) ! i \<noteq> None"
proof -
  have shape: "pool_shape (l # map snd (xs @ ys)) (spool s)"
    using assms(1,2) by (simp add: exclusive_def pool_shape_perm)
  show "pool_shape (map snd (xs @ ys)) (releaseLocked i (r \<noteq> None) (spool s\<lparr>slots := (slots (spool s))[i := r]\<rparr>))"
    using release_shape [OF shape assms(3)] .
  show "slots (spool s) ! i \<noteq> None"
    using shape assms(3) by (auto simp: pool_shape_def)
qed

lemma exclusive_step:
  assumes "exclusive s" "pool_step s s'"
  shows "exclusive s'"
  using assms(2,1)
proof cases
  case (acquire_lease t l p h)
  then show ?thesis
    using assms(1) takeFree_shape acquire_cases(1) by (fastforce simp: exclusive_def)
next
  case (recheck_lease t l p)
  then show ?thesis
    using assms(1) takeFree_shape by (fastforce simp: exclusive_def)
next
  case (connect t xs l ys)
  then show ?thesis
    using assms(1) pool_shape_cong [of "map snd (leases s')" "map snd (leases s)"] by (simp add: exclusive_def)
next
  case (release_usable t xs l ys r)
  note rel = exclusive_release [OF assms(1) release_usable(3) refl]
  have "r \<noteq> None"
    using release_usable(4) rel(2) by (auto split: if_splits)
  then show ?thesis
    using rel(1) [of r] release_usable(1) by (simp add: exclusive_def)
next
  case (release_dropped t xs l ys p)
  then show ?thesis
    using exclusive_release(1) [OF assms(1) release_dropped(3) refl, of None] by (simp add: exclusive_def)
next
  case (recheck_fail t err p)
  then show ?thesis
    using assms(1) takeFree_error_same [OF recheck_fail(4)] by (simp add: exclusive_def)
next
  case (acquire_fail t err p h)
  then show ?thesis
    using assms(1) acquire_cases(2) [OF acquire_fail(3)] by (simp add: exclusive_def)
qed (use assms(1) in \<open>auto simp: exclusive_def close_pool_def pool_shape_def\<close>)

lemma exclusive_start: "pool_start s \<Longrightarrow> exclusive s"
  by (simp add: pool_start_def exclusive_def)

interpretation exclusive: inductive_invariant pool_start pool_step exclusive
  by unfold_locales (auto intro: exclusive_start exclusive_step)

text \<open>The arithmetic of wake-ups.\<close>

lemma takeFree_facts:
  assumes "takeFree p = (Inr l, p')"
  shows "closed p' = closed p \<and> \<not> closed p \<and> pool_live p' = pool_live p \<and>
         Suc (length (free_slots p')) = length (free_slots p)"
  using assms by (auto simp: takeFree_def split: if_splits)

lemma no_lost_step:
  assumes "no_lost s" "pool_step s s'"
  shows "no_lost s'"
  using assms(2,1)
proof cases
  case (acquire_wait t)
  then show ?thesis
    using assms(1) acquire_cases(3) [OF acquire_wait(3)] leases_of_0 [of s t]
    by (auto simp: no_lost_def waitCondition_def idle_def)
next
  case (acquire_lease t l p h)
  note take = takeFree_facts [OF acquire_cases(1) [OF acquire_lease(3)]]
  show ?thesis
    using assms(1) acquire_lease(1,2) take by (auto simp: no_lost_def idle_def)
next
  case (recheck_lease t l p)
  note take = takeFree_facts [OF recheck_lease(4)]
  show ?thesis
    using assms(1) recheck_lease(1,2) take by (auto simp: no_lost_def card_Diff_singleton)
next
  case (recheck_wait t)
  then show ?thesis
    using assms(1) by (auto simp: no_lost_def waitCondition_def)
next
  case (recheck_fail t err p)
  then have "p = spool s" "closed p \<or> pool_live p = 0"
    by (auto dest!: takeFree_error_same simp: waitCondition_def takeFree_def split: if_splits)
  then show ?thesis
    using assms(1) recheck_fail(1) by (auto simp: no_lost_def)
next
  case (release_usable t xs l ys r)
  then show ?thesis
    using assms(1) by (auto simp: no_lost_def idle_def releaseLocked_def)
next
  case (release_dropped t xs l ys p)
  then show ?thesis
    using assms(1) by (auto simp: no_lost_def idle_def releaseLocked_def)
next
  case (spurious t)
  then show ?thesis
    using assms(1) by (auto simp: no_lost_def card_insert_if)
next
  case (notify_one t u)
  then show ?thesis
    using assms(1) by (auto simp: no_lost_def card_insert_if card_Diff_singleton)
next
  case (acquire_fail t err p h)
  then show ?thesis
    using assms(1) acquire_cases(2) [OF acquire_fail(3)] by (simp add: no_lost_def)
qed (use assms(1) in \<open>auto simp: no_lost_def close_pool_def idle_def\<close>)

lemma no_lost_start: "pool_start s \<Longrightarrow> no_lost s"
  by (simp add: pool_start_def no_lost_def)

interpretation no_lost: inductive_invariant pool_start pool_step no_lost
  by unfold_locales (auto intro: no_lost_start no_lost_step)

subsection \<open>The pool as a semaphore\<close>

text \<open>
  What the pool promises to the threads, without slots, waiting and notifications: a semaphore whose permits are
  connections. A permit is taken while there is one and the semaphore is open, and given back or lost by the
  thread that has it.
\<close>

record semaphore =
  permits :: nat
  holders :: "thread multiset"
  shut :: bool

inductive sem_step :: "semaphore \<Rightarrow> semaphore \<Rightarrow> bool" where
  sem_take: "\<not> shut a \<Longrightarrow> permits a = Suc n \<Longrightarrow> sem_step a (a\<lparr>permits := n, holders := add_mset t (holders a)\<rparr>)"
| sem_give: "holders a = add_mset t M \<Longrightarrow> sem_step a (a\<lparr>permits := Suc (permits a), holders := M\<rparr>)"
| sem_lose: "holders a = add_mset t M \<Longrightarrow> sem_step a (a\<lparr>holders := M\<rparr>)"
| sem_close: "sem_step a (a\<lparr>shut := True\<rparr>)"

definition sem_start :: "semaphore \<Rightarrow> bool" where
  "sem_start a \<longleftrightarrow> holders a = {#}"

definition pool_abs :: "pool_sys \<Rightarrow> semaphore" where
  "pool_abs s = \<lparr>permits = length (free_slots (spool s)), holders = mset (map fst (leases s)), shut = closed (spool s)\<rparr>"

text \<open>The contract of a refinement in which a step may be invisible; reachable states then abstract to reachable states.\<close>

locale simulation =
  fixes init :: "'c \<Rightarrow> bool" and step :: "'c \<Rightarrow> 'c \<Rightarrow> bool"
    and abs_init :: "'a \<Rightarrow> bool" and abs_step :: "'a \<Rightarrow> 'a \<Rightarrow> bool" and abs :: "'c \<Rightarrow> 'a"
  assumes sim_init: "init s \<Longrightarrow> abs_init (abs s)"
    and sim_step: "step s s' \<Longrightarrow> abs s' = abs s \<or> abs_step (abs s) (abs s')"
begin

lemma reachable_abs: "reach init step s \<Longrightarrow> reach abs_init abs_step (abs s)"
proof (induction rule: reach.induct)
  case (reach_step s s')
  then show ?case
    using sim_step [of s s'] reach.reach_step [of abs_init abs_step "abs s" "abs s'"] by metis
qed (blast intro: reach.reach_init sim_init)

end

lemma take_simulates:
  assumes "takeFree (spool s) = (Inr l, p)"
  shows "sem_step (pool_abs s) (pool_abs (s\<lparr>spool := p, leases := (t, l) # leases s, awake := w\<rparr>))"
  using takeFree_facts [OF assms] sem_take [of "pool_abs s" "length (free_slots p)" t]
  by (simp add: pool_abs_def)

lemma pool_step_simulates:
  assumes "pool_step s s'"
  shows "pool_abs s' = pool_abs s \<or> sem_step (pool_abs s) (pool_abs s')"
  using assms
proof cases
  case (acquire_lease t l p h)
  then show ?thesis
    using take_simulates [OF acquire_cases(1) [OF acquire_lease(3)], where t = t and w = "awake s"] by simp
next
  case (recheck_lease t l p)
  then show ?thesis
    using take_simulates [of s l p, where t = t and w = "awake s - {t}"] by simp
next
  case (release_usable t xs l ys r)
  then show ?thesis
    using sem_give [of "pool_abs s" t "mset (map fst (xs @ ys))"] by (simp add: pool_abs_def releaseLocked_def)
next
  case (release_dropped t xs l ys p)
  then show ?thesis
    using sem_lose [of "pool_abs s" t "mset (map fst (xs @ ys))"] by (simp add: pool_abs_def releaseLocked_def)
next
  case (close t)
  then show ?thesis
    using sem_close [of "pool_abs s"] by (simp add: pool_abs_def close_pool_def)
next
  case (acquire_fail t err p h)
  then show ?thesis
    using acquire_cases(2) [OF acquire_fail(3)] by (simp add: pool_abs_def)
next
  case (recheck_fail t err p)
  then show ?thesis
    using takeFree_error_same [OF recheck_fail(4)] by (simp add: pool_abs_def)
qed (simp_all add: pool_abs_def)

interpretation sem: simulation pool_start pool_step sem_start sem_step pool_abs
  by unfold_locales (simp add: pool_start_def sem_start_def pool_abs_def, rule pool_step_simulates)

subsection \<open>A run\<close>

text \<open>
  On a pool of one connection: thread 0 leases it, thread 1 goes to sleep, and thread 0 returns it.
\<close>

definition run0 :: pool_sys where
  "run0 = \<lparr>spool = sample_pool, leases = [], asleep = {}, awake = {}, notifying_one = {}, notifying_all = {}\<rparr>"

definition run1 :: pool_sys where
  "run1 = run0\<lparr>spool := sample_pool\<lparr>free_slots := []\<rparr>, leases := [(0, sample_lease)]\<rparr>"

definition run2 :: pool_sys where
  "run2 = run1\<lparr>asleep := {1}\<rparr>"

definition run3 :: pool_sys where
  "run3 = run2\<lparr>spool := releaseLocked 0 True (sample_pool\<lparr>free_slots := []\<rparr>), leases := [], notifying_one := {0}\<rparr>"

lemma sample_blocks: "acquire 0 (sample_pool\<lparr>free_slots := []\<rparr>) = Block"
  by code_simp

lemma reach_run1: "reach pool_start pool_step run1"
proof (rule reach_step [OF reach_init])
  show "pool_start run0"
    using sample_pool_inv by (simp add: pool_start_def run0_def pool_inv_def)
  show "pool_step run0 run1"
    using acquire_lease [of run0 0 sample_lease "sample_pool\<lparr>free_slots := []\<rparr>" 1] sample_acquire
    by (simp add: run0_def run1_def idle_def leases_of_def)
qed

lemma reach_run2: "reach pool_start pool_step run2"
proof (rule reach_step [OF reach_run1])
  show "pool_step run1 run2"
    using acquire_wait [of run1 1] sample_blocks
    by (simp add: run0_def run1_def run2_def idle_def leases_of_def)
qed

lemma reach_run3: "reach pool_start pool_step run3"
proof (rule reach_step [OF reach_run2])
  show "pool_step run2 run3"
    using release_usable [of run2 0 "[]" sample_lease "[]" "slots sample_pool ! 0"]
    by (simp add: run0_def run1_def run2_def run3_def idle_def sample_lease_def)
qed

subsection \<open>Properties\<close>

text \<open>C30. In every interleaving, two leases never hold the same connection, a leased connection is never
  also free, every lease's slot holds a connection, and the number of connections is the number of
  free ones plus the number of leases.\<close>

theorem pool_threads_exclusive:
  assumes "reach pool_start pool_step s"
  shows "distinct (map (\<lambda>x. lease_index (snd x)) (leases s)) \<and>
         (\<forall>(t, l) \<in> set (leases s). lease_index l \<notin> set (free_slots (spool s)) \<and>
            lease_index l < length (slots (spool s)) \<and> slots (spool s) ! lease_index l \<noteq> None) \<and>
         pool_live (spool s) = length (free_slots (spool s)) + length (leases s)"
proof -
  have shape: "pool_shape (map snd (leases s)) (spool s)"
    using exclusive.reachable_invar [OF assms] by (simp add: exclusive_def)
  have held: "lease_index l \<in> set (map lease_index (map snd (leases s)))" if "(t, l) \<in> set (leases s)" for t l
    using that by force
  then have "lease_index l \<notin> set (free_slots (spool s)) \<and> lease_index l < length (slots (spool s)) \<and>
      slots (spool s) ! lease_index l \<noteq> None" if "(t, l) \<in> set (leases s)" for t l
    using shape that unfolding pool_shape_def distinct_append set_append by blast
  then show ?thesis
    using shape by (auto simp: pool_shape_def comp_def)
qed

theorem pool_threads_exclusive_witness:
  "leases run2 = [(0, sample_lease)] \<and> lease_index sample_lease \<notin> set (free_slots (spool run2)) \<and>
   slots (spool run2) ! lease_index sample_lease \<noteq> None \<and>
   pool_live (spool run2) = length (free_slots (spool run2)) + 1"
proof -
  have "leases run2 = [(0, sample_lease)]"
    by (simp add: run2_def run1_def)
  then show ?thesis
    using pool_threads_exclusive [OF reach_run2] by simp
qed

text \<open>C31. No wake-up is lost: in every interleaving, when a thread sleeps in \<^verbatim>\<open>acquire\<close> although there is a
  connection for it, the pool is closed, or nothing is left to wait for, some thread has been woken
  and has yet to look, or is about to notify.\<close>

theorem pool_no_lost_wakeup:
  assumes "reach pool_start pool_step s" "t \<in> asleep s" "\<not> waitCondition (spool s)"
  shows "awake s \<union> notifying_one s \<union> notifying_all s \<noteq> {}"
proof (rule ccontr)
  assume "\<not> awake s \<union> notifying_one s \<union> notifying_all s \<noteq> {}"
  then have "awake s = {}" "notifying_one s = {}" "notifying_all s = {}"
    by auto
  then show False
    using no_lost.reachable_invar [OF assms(1)] assms(2,3)
    by (auto simp: no_lost_def waitCondition_def split: if_splits)
qed

theorem pool_no_lost_wakeup_witness:
  "1 \<in> asleep run3 \<and> \<not> waitCondition (spool run3) \<and> awake run3 \<union> notifying_one run3 \<union> notifying_all run3 \<noteq> {}"
proof -
  have hyps: "1 \<in> asleep run3" "\<not> waitCondition (spool run3)"
    by (simp_all add: run2_def run3_def waitCondition_def releaseLocked_def)
  then show ?thesis
    using pool_no_lost_wakeup [OF reach_run3 hyps] by simp
qed

text \<open>C32. The pool does not deadlock: when a thread waits and nobody has been woken or is about to notify,
  there is a lease, and the thread that holds it is not waiting.\<close>

theorem pool_no_deadlock:
  assumes "reach pool_start pool_step s" "t \<in> asleep s"
    and "awake s = {}" "notifying_one s = {}" "notifying_all s = {}"
  shows "\<exists>u l. (u, l) \<in> set (leases s) \<and> idle s u"
proof -
  have wait: "waitCondition (spool s)"
    using no_lost.reachable_invar [OF assms(1)] assms(2-5)
    by (auto simp: no_lost_def waitCondition_def split: if_splits)
  then have "leases s \<noteq> []"
    using exclusive.reachable_invar [OF assms(1)] by (auto simp: exclusive_def pool_shape_def waitCondition_def)
  then obtain u l where "(u, l) \<in> set (leases s)"
    by (cases "leases s") auto
  moreover from this have "u \<notin> asleep s"
    using no_lost.reachable_invar [OF assms(1)] by (auto simp: no_lost_def)
  ultimately show ?thesis
    using assms(3-5) by (auto simp: idle_def)
qed

theorem pool_no_deadlock_witness: "\<exists>u l. (u, l) \<in> set (leases run2) \<and> idle run2 u"
  by (rule pool_no_deadlock [OF reach_run2, of 1]) (simp_all add: run0_def run1_def run2_def)

text \<open>C13. The pool refines a semaphore: in every interleaving of threads, with their waiting and waking up, every step either changes nothing that the
  semaphore has or is one of its steps, and every state that threads can reach abstracts to one that
  the semaphore can reach.\<close>

theorem pool_refines_semaphore:
  assumes "reach pool_start pool_step s" "pool_step s s'"
  shows "(pool_abs s' = pool_abs s \<or> sem_step (pool_abs s) (pool_abs s')) \<and> reach sem_start sem_step (pool_abs s')"
  using pool_step_simulates [OF assms(2)] sem.reachable_abs [OF reach_step [OF assms]] by blast

theorem pool_refines_semaphore_witness:
  "pool_abs run3 = \<lparr>permits = 1, holders = {#}, shut = False\<rparr> \<and> reach sem_start sem_step (pool_abs run3)"
proof
  have step: "pool_step run2 run3"
    using release_usable [of run2 0 "[]" sample_lease "[]" "slots sample_pool ! 0"]
    by (simp add: run0_def run1_def run2_def run3_def idle_def sample_lease_def)
  show "reach sem_start sem_step (pool_abs run3)"
    using pool_refines_semaphore [OF reach_run2 step] by blast
  show "pool_abs run3 = \<lparr>permits = 1, holders = {#}, shut = False\<rparr>"
    using acquire_cases(3) [OF sample_blocks]
    by (simp add: pool_abs_def run3_def run2_def run1_def run0_def releaseLocked_def waitCondition_def)
qed

end
