(* ===== verification/Locks.thy ===== *)
theory Locks
  imports Pool_Threads
begin

text \<open>
  The mutexes of the library and the order in which its functions take them, from \<^verbatim>\<open>src/common/thread-safety.h\<close> and the
  critical sections of \<^verbatim>\<open>state.cpp\<close>, \<^verbatim>\<open>buffer.cpp\<close>, \<^verbatim>\<open>abandoned-copies.cpp\<close> and \<^verbatim>\<open>connection-pool.cpp\<close>.

  What a function does with mutexes is a trace: taking and releasing them, waiting on the pool's condition variable, and
  calling the application's callbacks. Threads run sequences of such traces, interleaved. The theorems: no mutex is
  held by a writer and anybody else, a callback is called while its thread holds no mutex, and the threads
  never block each other for good, whether or not a mutex prefers writers.
\<close>

subsection \<open>Mutexes\<close>

text \<open>A \<^verbatim>\<open>SharedMutex\<close>; a \<^verbatim>\<open>Mutex\<close> is one that is never taken shared. Taking it gives \<open>None\<close> when the thread has to wait.\<close>

record SharedMutex =
  writer :: "thread option"
  readers :: "thread list"

definition unlocked :: SharedMutex where
  "unlocked = \<lparr>writer = None, readers = []\<rparr>"

definition lock_exclusive :: "thread \<Rightarrow> SharedMutex \<Rightarrow> SharedMutex option" where
  "lock_exclusive t m = (if writer m = None \<and> readers m = [] then Some (m\<lparr>writer := Some t\<rparr>) else None)"

definition unlock_exclusive :: "SharedMutex \<Rightarrow> SharedMutex" where
  "unlock_exclusive m = m\<lparr>writer := None\<rparr>"

text \<open>\<open>contended\<close> says that another thread is waiting to take the mutex exclusively and is served first.\<close>

definition lock_shared :: "bool \<Rightarrow> thread \<Rightarrow> SharedMutex \<Rightarrow> SharedMutex option" where
  "lock_shared contended t m = (if writer m = None \<and> \<not> contended then Some (m\<lparr>readers := t # readers m\<rparr>) else None)"

definition unlock_shared :: "thread \<Rightarrow> SharedMutex \<Rightarrow> SharedMutex" where
  "unlock_shared t m = m\<lparr>readers := remove1 t (readers m)\<rparr>"

subsection \<open>Traces\<close>

text \<open>The mutexes of the library; each instance has its own for the pool, the buffers and the abandoned copies.\<close>

datatype mutex = InitMutex | StateMutex | PoolMutex nat | BufferMutex nat | CopiesMutex nat

datatype lock_mode = Exclusive | Shared

datatype lock_op = Lock lock_mode mutex | Unlock lock_mode mutex | Wait mutex | Waiting mutex | Callback

text \<open>A \<^verbatim>\<open>ScopedLock\<close> or \<^verbatim>\<open>SharedLock\<close> in a block.\<close>

definition ScopedLock :: "mutex \<Rightarrow> lock_op list \<Rightarrow> lock_op list" where
  "ScopedLock m body = Lock Exclusive m # body @ [Unlock Exclusive m]"

definition SharedLock :: "mutex \<Rightarrow> lock_op list \<Rightarrow> lock_op list" where
  "SharedLock m body = Lock Shared m # body @ [Unlock Shared m]"

text \<open>\<^verbatim>\<open>ConditionVariable::wait\<close>, in the loop that checks the condition.\<close>

definition waits :: "nat \<Rightarrow> mutex \<Rightarrow> lock_op list" where
  "waits n m = replicate n (Wait m)"

text \<open>
  The functions with critical sections. A branch that the trace depends on is a parameter: the library is already initialized, or an instance \<open>i\<close> was built,
  and its pool is complete; an instance was current; the registration was not refused; and how often \<^verbatim>\<open>acquire\<close> waits.
\<close>

definition currentInstance_locks :: "lock_op list" where
  "currentInstance_locks = SharedLock StateMutex []"

definition poolSize_locks :: "nat \<Rightarrow> lock_op list" where
  "poolSize_locks i = ScopedLock (PoolMutex i) []"

definition initWith_locks :: "nat option \<Rightarrow> bool \<Rightarrow> lock_op list" where
  "initWith_locks built complete = ScopedLock InitMutex (currentInstance_locks @
     (case built of
        None \<Rightarrow> []
      | Some i \<Rightarrow> poolSize_locks i @ (if complete then ScopedLock StateMutex [] else [])))"

definition poolClose_locks :: "nat \<Rightarrow> lock_op list" where
  "poolClose_locks i = ScopedLock (PoolMutex i) []"

definition shutdownInstance_locks :: "nat option \<Rightarrow> lock_op list" where
  "shutdownInstance_locks inst = ScopedLock InitMutex (ScopedLock StateMutex [] @
     (case inst of None \<Rightarrow> [] | Some i \<Rightarrow> poolClose_locks i))"

definition acquire_locks :: "nat \<Rightarrow> nat \<Rightarrow> lock_op list" where
  "acquire_locks i n = ScopedLock (PoolMutex i) (waits n (PoolMutex i))"

definition poolRelease_locks :: "nat \<Rightarrow> lock_op list" where
  "poolRelease_locks i = ScopedLock (PoolMutex i) []"

definition precheck_locks :: "nat \<Rightarrow> lock_op list" where
  "precheck_locks i = SharedLock (BufferMutex i) []"

definition insert_locks :: "nat \<Rightarrow> lock_op list" where
  "insert_locks i = ScopedLock (BufferMutex i) []"

definition register_locks :: "nat \<Rightarrow> bool \<Rightarrow> lock_op list" where
  "register_locks i made = precheck_locks i @ (if made then insert_locks i else [])"

definition deregister_locks :: "nat \<Rightarrow> lock_op list" where
  "deregister_locks i = ScopedLock (BufferMutex i) []"

definition find_locks :: "nat \<Rightarrow> lock_op list" where
  "find_locks i = SharedLock (BufferMutex i) []"

definition reserve_locks :: "nat \<Rightarrow> lock_op list" where
  "reserve_locks i = ScopedLock (CopiesMutex i) []"

definition slotDtor_locks :: "nat \<Rightarrow> lock_op list" where
  "slotDtor_locks i = ScopedLock (CopiesMutex i) []"

definition add_locks :: "nat \<Rightarrow> lock_op list" where
  "add_locks i = ScopedLock (CopiesMutex i) []"

definition copiesRelease_locks :: "nat \<Rightarrow> lock_op list" where
  "copiesRelease_locks i = ScopedLock (CopiesMutex i) []"

text \<open>
  What a thread that uses the library does with mutexes: these functions, in any order, and callbacks, which may use the library themselves.
  The public functions hold no mutex of their own.
\<close>

inductive library_trace :: "lock_op list \<Rightarrow> bool" where
  trace_nil: "library_trace []"
| trace_callback: "library_trace p \<Longrightarrow> library_trace (Callback # p)"
| trace_call: "xs \<in> {currentInstance_locks, initWith_locks b c, shutdownInstance_locks b, poolSize_locks i, acquire_locks i n,
      poolRelease_locks i, register_locks i c, deregister_locks i, find_locks i, reserve_locks i, slotDtor_locks i, add_locks i,
      copiesRelease_locks i} \<Longrightarrow> library_trace p \<Longrightarrow> library_trace (xs @ p)"

subsection \<open>Threads\<close>

text \<open>\<open>held\<close> are the lock objects on a thread's stack, the innermost first.\<close>

record lock_sys =
  mutexes :: "mutex \<Rightarrow> SharedMutex"
  todo :: "thread \<Rightarrow> lock_op list"
  held :: "thread \<Rightarrow> (lock_mode \<times> mutex) list"

definition wants_exclusive :: "lock_sys \<Rightarrow> mutex \<Rightarrow> bool" where
  "wants_exclusive s m \<longleftrightarrow> (\<exists>t p. todo s t = Lock Exclusive m # p)"

text \<open>One step of thread \<open>t\<close>. \<open>fair\<close> mutexes serve a waiting writer before a new reader. A wait can end at any time, as in C++.\<close>

inductive lock_step :: "bool \<Rightarrow> thread \<Rightarrow> lock_sys \<Rightarrow> lock_sys \<Rightarrow> bool" for fair t where
  take_exclusive: "todo s t = Lock Exclusive m # p \<Longrightarrow> lock_exclusive t (mutexes s m) = Some x \<Longrightarrow>
     lock_step fair t s (s\<lparr>mutexes := (mutexes s)(m := x), todo := (todo s)(t := p), held := (held s)(t := (Exclusive, m) # held s t)\<rparr>)"
| take_shared: "todo s t = Lock Shared m # p \<Longrightarrow> lock_shared (fair \<and> wants_exclusive s m) t (mutexes s m) = Some x \<Longrightarrow>
     lock_step fair t s (s\<lparr>mutexes := (mutexes s)(m := x), todo := (todo s)(t := p), held := (held s)(t := (Shared, m) # held s t)\<rparr>)"
| give_exclusive: "todo s t = Unlock Exclusive m # p \<Longrightarrow>
     lock_step fair t s (s\<lparr>mutexes := (mutexes s)(m := unlock_exclusive (mutexes s m)), todo := (todo s)(t := p),
       held := (held s)(t := tl (held s t))\<rparr>)"
| give_shared: "todo s t = Unlock Shared m # p \<Longrightarrow>
     lock_step fair t s (s\<lparr>mutexes := (mutexes s)(m := unlock_shared t (mutexes s m)), todo := (todo s)(t := p),
       held := (held s)(t := tl (held s t))\<rparr>)"
| wait_begin: "todo s t = Wait m # p \<Longrightarrow>
     lock_step fair t s (s\<lparr>mutexes := (mutexes s)(m := unlock_exclusive (mutexes s m)), todo := (todo s)(t := Waiting m # p),
       held := (held s)(t := tl (held s t))\<rparr>)"
| wait_end: "todo s t = Waiting m # p \<Longrightarrow> lock_step fair t s (s\<lparr>todo := (todo s)(t := Lock Exclusive m # p)\<rparr>)"
| callback: "todo s t = Callback # p \<Longrightarrow> lock_step fair t s (s\<lparr>todo := (todo s)(t := p)\<rparr>)"

definition lock_start :: "lock_sys \<Rightarrow> bool" where
  "lock_start s \<longleftrightarrow> (\<forall>m. mutexes s m = unlocked) \<and> (\<forall>t. held s t = []) \<and> (\<forall>t. library_trace (todo s t))"

definition lock_steps :: "bool \<Rightarrow> lock_sys \<Rightarrow> lock_sys \<Rightarrow> bool" where
  "lock_steps fair s s' \<longleftrightarrow> (\<exists>t. lock_step fair t s s')"

subsection \<open>The discipline\<close>

text \<open>\<^verbatim>\<open>HIPOBJ_ACQUIRED_AFTER\<close>: the other mutexes may be taken while \<^verbatim>\<open>initMutex\<close> is held, and nothing while they are.\<close>

fun rank :: "mutex \<Rightarrow> nat" where
  "rank InitMutex = 0"
| "rank _ = 1"

text \<open>What the thread safety analysis checks of a trace, from what is held.\<close>

fun well_locked :: "(lock_mode \<times> mutex) list \<Rightarrow> lock_op list \<Rightarrow> bool" where
  "well_locked H [] \<longleftrightarrow> H = []"
| "well_locked H (Lock k m # p) \<longleftrightarrow> (\<forall>x\<in>set H. rank (snd x) < rank m) \<and> well_locked ((k, m) # H) p"
| "well_locked H (Unlock k m # p) \<longleftrightarrow> (case H of [] \<Rightarrow> False | x # H' \<Rightarrow> x = (k, m) \<and> well_locked H' p)"
| "well_locked H (Wait m # p) \<longleftrightarrow> H = [(Exclusive, m)] \<and> well_locked H p"
| "well_locked H (Waiting m # p) \<longleftrightarrow> H = [] \<and> well_locked [(Exclusive, m)] p"
| "well_locked H (Callback # p) \<longleftrightarrow> H = [] \<and> well_locked H p"

lemma well_locked_waits: "well_locked [(Exclusive, m)] (waits n m @ p) \<longleftrightarrow> well_locked [(Exclusive, m)] p"
  by (induction n) (simp_all add: waits_def)

lemmas trace_defs = currentInstance_locks_def initWith_locks_def shutdownInstance_locks_def poolSize_locks_def acquire_locks_def
  poolRelease_locks_def register_locks_def deregister_locks_def find_locks_def reserve_locks_def slotDtor_locks_def add_locks_def
  copiesRelease_locks_def poolClose_locks_def precheck_locks_def insert_locks_def ScopedLock_def SharedLock_def

lemma library_trace_locked: "library_trace p \<Longrightarrow> well_locked [] p"
proof (induction rule: library_trace.induct)
  case (trace_call xs b c i n p)
  then show ?case
    by (auto simp: trace_defs well_locked_waits split: option.splits)
qed simp_all

subsection \<open>The invariant\<close>

definition holders_ok :: "lock_sys \<Rightarrow> mutex \<Rightarrow> bool" where
  "holders_ok s m \<longleftrightarrow>
     (\<forall>t. writer (mutexes s m) = Some t \<longleftrightarrow> (Exclusive, m) \<in> set (held s t)) \<and>
     (\<forall>t. t \<in> set (readers (mutexes s m)) \<longleftrightarrow> (Shared, m) \<in> set (held s t)) \<and>
     distinct (readers (mutexes s m)) \<and> (writer (mutexes s m) \<noteq> None \<longrightarrow> readers (mutexes s m) = [])"

text \<open>No thread holds a mutex twice, since it takes them in order.\<close>

definition ordered :: "(lock_mode \<times> mutex) list \<Rightarrow> bool" where
  "ordered H \<longleftrightarrow> sorted_wrt (\<lambda>x y. rank (snd y) < rank (snd x)) H"

definition locks_inv :: "lock_sys \<Rightarrow> bool" where
  "locks_inv s \<longleftrightarrow> (\<forall>m. holders_ok s m) \<and> (\<forall>t. well_locked (held s t) (todo s t) \<and> ordered (held s t))"

lemma locks_inv_start: "lock_start s \<Longrightarrow> locks_inv s"
  by (auto simp: lock_start_def locks_inv_def holders_ok_def unlocked_def ordered_def intro: library_trace_locked)

lemma locks_inv_update:
  assumes inv: "locks_inv s" and locked: "well_locked H p" and order: "ordered H"
    and same: "\<And>k m'. m' \<noteq> m \<Longrightarrow> (k, m') \<in> set H \<longleftrightarrow> (k, m') \<in> set (held s t)"
    and x: "holders_ok (s\<lparr>mutexes := (mutexes s)(m := x), todo := (todo s)(t := p), held := (held s)(t := H)\<rparr>) m"
  shows "locks_inv (s\<lparr>mutexes := (mutexes s)(m := x), todo := (todo s)(t := p), held := (held s)(t := H)\<rparr>)"
    (is "locks_inv ?s")
proof -
  have "holders_ok ?s m'" for m'
  proof (cases "m' = m")
    case False
    then show ?thesis
      using inv same [OF False] by (simp add: locks_inv_def holders_ok_def)
  qed (use x in simp)
  then show ?thesis
    using inv locked order by (simp add: locks_inv_def)
qed

lemma locks_invD:
  assumes "locks_inv s"
  shows "writer (mutexes s m) = Some t \<longleftrightarrow> (Exclusive, m) \<in> set (held s t)"
    and "t \<in> set (readers (mutexes s m)) \<longleftrightarrow> (Shared, m) \<in> set (held s t)"
    and "distinct (readers (mutexes s m))" "writer (mutexes s m) \<noteq> None \<Longrightarrow> readers (mutexes s m) = []"
    and "well_locked (held s t) (todo s t)" "ordered (held s t)"
  using assms by (auto simp: locks_inv_def holders_ok_def)

lemma ordered_Cons: "ordered (x # H) \<longleftrightarrow> (\<forall>y\<in>set H. rank (snd y) < rank (snd x)) \<and> ordered H"
  by (simp add: ordered_def)

text \<open>The innermost lock object, when it is the one to be released.\<close>

lemma innermost:
  assumes "locks_inv s" "held s t = (k, m) # H"
  shows "ordered H" "(k', m) \<notin> set H"
  using locks_invD(6) [OF assms(1), of t] assms(2) by (auto simp: ordered_Cons)

lemma locks_inv_take_exclusive:
  assumes inv: "locks_inv s" and todo: "todo s t = Lock Exclusive m # p" and x: "lock_exclusive t (mutexes s m) = Some x"
  shows "locks_inv (s\<lparr>mutexes := (mutexes s)(m := x), todo := (todo s)(t := p), held := (held s)(t := (Exclusive, m) # held s t)\<rparr>)"
proof (rule locks_inv_update [OF inv])
  have free: "writer (mutexes s m) = None" "readers (mutexes s m) = []" "x = (mutexes s m)\<lparr>writer := Some t\<rparr>"
    using x by (auto simp: lock_exclusive_def split: if_splits)
  then have "(k, m) \<notin> set (held s t')" for k t'
    using locks_invD(1,2) [OF inv, where m = m and t = t'] by (cases k) auto
  then show "holders_ok (s\<lparr>mutexes := (mutexes s)(m := x), todo := (todo s)(t := p), held := (held s)(t := (Exclusive, m) # held s t)\<rparr>) m"
    using free by (auto simp: holders_ok_def)
qed (use locks_invD(5,6) [OF inv, of t] todo in \<open>auto simp: ordered_Cons\<close>)

lemma locks_inv_take_shared:
  assumes inv: "locks_inv s" and todo: "todo s t = Lock Shared m # p" and x: "lock_shared b t (mutexes s m) = Some x"
  shows "locks_inv (s\<lparr>mutexes := (mutexes s)(m := x), todo := (todo s)(t := p), held := (held s)(t := (Shared, m) # held s t)\<rparr>)"
proof (rule locks_inv_update [OF inv])
  have free: "writer (mutexes s m) = None" "x = (mutexes s m)\<lparr>readers := t # readers (mutexes s m)\<rparr>"
    using x by (auto simp: lock_shared_def split: if_splits)
  moreover have "(k, m) \<notin> set (held s t)" for k
    using locks_invD(5) [OF inv, of t] todo by auto
  ultimately show "holders_ok (s\<lparr>mutexes := (mutexes s)(m := x), todo := (todo s)(t := p), held := (held s)(t := (Shared, m) # held s t)\<rparr>) m"
    using locks_invD(1,2,3) [OF inv, where m = m] by (auto simp: holders_ok_def)
qed (use locks_invD(5,6) [OF inv, of t] todo in \<open>auto simp: ordered_Cons\<close>)

text \<open>Giving a mutex up, at the end of a scope or to wait.\<close>

lemma locks_inv_give_exclusive:
  assumes inv: "locks_inv s" and H: "held s t = (Exclusive, m) # H" and p: "well_locked H p"
  shows "locks_inv (s\<lparr>mutexes := (mutexes s)(m := unlock_exclusive (mutexes s m)), todo := (todo s)(t := p), held := (held s)(t := H)\<rparr>)"
proof (rule locks_inv_update [OF inv p])
  have "writer (mutexes s m) = Some t"
    using locks_invD(1) [OF inv] H by simp
  moreover from this have "readers (mutexes s m) = []"
    using locks_invD(4) [OF inv] by simp
  moreover have "(Exclusive, m) \<notin> set (held s t')" if "t' \<noteq> t" for t'
    using calculation(1) locks_invD(1) [OF inv, of m t'] that by simp
  ultimately show "holders_ok (s\<lparr>mutexes := (mutexes s)(m := unlock_exclusive (mutexes s m)), todo := (todo s)(t := p), held := (held s)(t := H)\<rparr>) m"
    using locks_invD(1,2) [OF inv, where m = m] innermost [OF inv H]
    by (auto simp: holders_ok_def unlock_exclusive_def)
qed (use innermost [OF inv H] H in auto)

lemma locks_inv_give_shared:
  assumes inv: "locks_inv s" and H: "held s t = (Shared, m) # H" and p: "well_locked H p"
  shows "locks_inv (s\<lparr>mutexes := (mutexes s)(m := unlock_shared t (mutexes s m)), todo := (todo s)(t := p), held := (held s)(t := H)\<rparr>)"
proof (rule locks_inv_update [OF inv p])
  have "t \<in> set (readers (mutexes s m))"
    using locks_invD(2) [OF inv] H by simp
  then show "holders_ok (s\<lparr>mutexes := (mutexes s)(m := unlock_shared t (mutexes s m)), todo := (todo s)(t := p), held := (held s)(t := H)\<rparr>) m"
    using locks_invD(1-4) [OF inv, where m = m] innermost [OF inv H] H
    by (auto simp: holders_ok_def unlock_shared_def)
qed (use innermost [OF inv H] H in auto)

lemma locks_inv_todo:
  assumes "locks_inv s" "well_locked (held s t) p"
  shows "locks_inv (s\<lparr>todo := (todo s)(t := p)\<rparr>)"
  using assms by (auto simp: locks_inv_def holders_ok_def)

lemma locks_inv_step:
  assumes step: "lock_step fair t s s'" and inv: "locks_inv s"
  shows "locks_inv s'"
  using step
proof cases
  case (take_exclusive m p x)
  then show ?thesis
    by (simp add: locks_inv_take_exclusive [OF inv])
next
  case (take_shared m p x)
  then show ?thesis
    by (simp add: locks_inv_take_shared [OF inv])
next
  case (give_exclusive m p)
  then show ?thesis
    using locks_invD(5) [OF inv, of t] by (auto split: list.splits intro: locks_inv_give_exclusive [OF inv])
next
  case (give_shared m p)
  then show ?thesis
    using locks_invD(5) [OF inv, of t] by (auto split: list.splits intro: locks_inv_give_shared [OF inv])
next
  case (wait_begin m p)
  then show ?thesis
    using locks_invD(5) [OF inv, of t] by (auto intro: locks_inv_give_exclusive [OF inv])
next
  case (wait_end m p)
  then show ?thesis
    using locks_invD(5) [OF inv, of t] by (auto intro: locks_inv_todo [OF inv])
next
  case (callback p)
  then show ?thesis
    using locks_invD(5) [OF inv, of t] by (auto intro: locks_inv_todo [OF inv])
qed

interpretation locks: inductive_invariant lock_start "lock_steps fair" locks_inv for fair
  by unfold_locales (auto simp: lock_steps_def intro: locks_inv_start locks_inv_step)

subsection \<open>Progress\<close>

definition waiting :: "lock_sys \<Rightarrow> thread \<Rightarrow> bool" where
  "waiting s t \<longleftrightarrow> (\<exists>m p. todo s t = Waiting m # p)"

definition can_step :: "bool \<Rightarrow> lock_sys \<Rightarrow> thread \<Rightarrow> bool" where
  "can_step fair s t \<longleftrightarrow> \<not> waiting s t \<and> (\<exists>s'. lock_step fair t s s')"

lemma no_holder_free:
  assumes "locks_inv s" "\<And>k t. (k, m) \<notin> set (held s t)"
  shows "writer (mutexes s m) = None" "readers (mutexes s m) = []"
proof -
  show "writer (mutexes s m) = None"
    using assms(2) locks_invD(1) [OF assms(1), where m = m] by (cases "writer (mutexes s m)") auto
  show "readers (mutexes s m) = []"
    using assms(2) locks_invD(2) [OF assms(1), where m = m] by (cases "readers (mutexes s m)") auto
qed

lemma can_take_free:
  assumes "writer (mutexes s m) = None" "readers (mutexes s m) = []" "todo s t = Lock k m # p"
  shows "\<exists>t. can_step fair s t"
proof (cases "k = Exclusive \<or> \<not> wants_exclusive s m")
  case True
  then have "\<exists>s'. lock_step fair t s s'"
    using assms take_exclusive [of s t m p _ fair] take_shared [of s t m p fair]
    by (cases k) (auto simp: lock_exclusive_def lock_shared_def)
  then show ?thesis
    using assms(3) by (intro exI [of _ t]) (simp add: can_step_def waiting_def)
next
  case False
  then obtain t' p' where "todo s t' = Lock Exclusive m # p'"
    by (auto simp: wants_exclusive_def)
  moreover from this have "\<exists>s'. lock_step fair t' s s'"
    using assms(1,2) take_exclusive [of s t' m p' _ fair] by (auto simp: lock_exclusive_def)
  ultimately show ?thesis
    by (intro exI [of _ t']) (simp add: can_step_def waiting_def)
qed

text \<open>A thread that is not finished and does not wait either lets somebody go on, or wants a mutex that somebody holds.\<close>

lemma step_or_held:
  assumes inv: "locks_inv s" and t: "todo s t \<noteq> []" "\<not> waiting s t" and stuck: "\<And>t. \<not> can_step fair s t"
  obtains k m p k' t' where "todo s t = Lock k m # p" "(k', m) \<in> set (held s t')"
proof (cases "\<exists>k m p. todo s t = Lock k m # p")
  case True
  then obtain k m p where "todo s t = Lock k m # p"
    by auto
  moreover have "\<exists>k' t'. (k', m) \<in> set (held s t')"
  proof (rule ccontr)
    assume "\<not> (\<exists>k' t'. (k', m) \<in> set (held s t'))"
    then show False
      using can_take_free [OF no_holder_free [OF inv] calculation, of fair] stuck by blast
  qed
  ultimately show ?thesis
    using that by auto
next
  case False
  obtain x p where x: "todo s t = x # p"
    using t(1) by (cases "todo s t") auto
  have "\<exists>s'. lock_step fair t s s'"
  proof (cases x)
    case (Unlock k m)
    then show ?thesis
      using x give_exclusive give_shared by (cases k) metis+
  qed (use False x t(2) in \<open>auto simp: waiting_def intro: wait_begin callback\<close>)
  then show ?thesis
    using stuck [of t] t(2) by (simp add: can_step_def)
qed

text \<open>So it is blocked by one that holds a mutex of a lower rank than the one that it wants itself.\<close>

lemma blocked_chain:
  assumes inv: "locks_inv s" and h: "(k, m) \<in> set (held s t)" and stuck: "\<And>t. \<not> can_step fair s t"
  obtains k' m' t' where "rank m < rank m'" "(k', m') \<in> set (held s t')"
proof -
  have locked: "well_locked (held s t) (todo s t)"
    using locks_invD(5) [OF inv] .
  have "todo s t \<noteq> []" "\<not> waiting s t"
    using locked h by (auto simp: waiting_def)
  then obtain k1 m1 p k' t' where "todo s t = Lock k1 m1 # p" "(k', m1) \<in> set (held s t')"
    using step_or_held [OF inv _ _ stuck] by metis
  moreover from this have "rank m < rank m1"
    using locked h by auto
  ultimately show ?thesis
    using that by auto
qed

lemma never_stuck:
  assumes inv: "locks_inv s" and t: "todo s t \<noteq> []" "\<not> waiting s t"
  shows "\<exists>t. can_step fair s t"
proof (rule ccontr)
  assume "\<not> (\<exists>t. can_step fair s t)"
  then have stuck: "\<And>t. \<not> can_step fair s t"
    by simp
  obtain k m p k1 t1 where "(k1, m) \<in> set (held s t1)"
    using step_or_held [OF inv t stuck] by metis
  then obtain k2 m2 t2 where 2: "rank m < rank m2" "(k2, m2) \<in> set (held s t2)"
    using blocked_chain [OF inv _ stuck] by metis
  obtain k3 m3 t3 where "rank m2 < rank m3"
    using blocked_chain [OF inv 2(2) stuck] by metis
  moreover have "rank x \<le> 1" for x
    by (cases x) simp_all
  ultimately show False
    using 2(1) by (metis One_nat_def leD less_Suc0 less_trans_Suc not_less_eq)
qed

text \<open>Every step brings its thread nearer to its end.\<close>

fun weight :: "lock_op list \<Rightarrow> nat" where
  "weight [] = 0"
| "weight (Wait m # p) = 4 + weight p"
| "weight (Waiting m # p) = 3 + weight p"
| "weight (x # p) = 1 + weight p"

lemma lock_step_weight:
  assumes "lock_step fair t s s'"
  shows "weight (todo s' t) < weight (todo s t)" "t' \<noteq> t \<Longrightarrow> todo s' t' = todo s t'"
  using assms by (cases; simp)+

subsection \<open>Properties\<close>

text \<open>Two threads, one of which initializes the library while the other shuts it down: the first holds \<^verbatim>\<open>initMutex\<close>, and the second waits for it.\<close>

definition locks_at_start :: lock_sys where
  "locks_at_start =
    \<lparr>mutexes = (\<lambda>_. unlocked),
     todo = (\<lambda>_. [])(0 := initWith_locks (Some 0) True, 1 := shutdownInstance_locks (Some 0)), held = (\<lambda>_. [])\<rparr>"

definition locks_in_init :: lock_sys where
  "locks_in_init =
    locks_at_start\<lparr>mutexes := (\<lambda>_. unlocked)(InitMutex := \<lparr>writer = Some 0, readers = []\<rparr>),
      todo := (todo locks_at_start)(0 := tl (initWith_locks (Some 0) True)), held := (\<lambda>_. [])(0 := [(Exclusive, InitMutex)])\<rparr>"

lemma locks_in_init_reachable: "reach lock_start (lock_steps fair) locks_in_init"
proof (rule reach_step)
  have "library_trace (initWith_locks (Some 0) True @ [])" "library_trace (shutdownInstance_locks (Some 0) @ [])"
    by (rule trace_call [OF _ trace_nil, where b = "Some 0" and c = True], simp)+
  then have "library_trace (todo locks_at_start t)" for t
    by (simp add: locks_at_start_def trace_nil)
  then show "reach lock_start (lock_steps fair) locks_at_start"
    by (intro reach_init) (simp add: lock_start_def, simp add: locks_at_start_def)
  have "todo locks_at_start 0 = Lock Exclusive InitMutex # tl (initWith_locks (Some 0) True)"
    by (simp add: locks_at_start_def initWith_locks_def ScopedLock_def)
  from take_exclusive [OF this, of "\<lparr>writer = Some 0, readers = []\<rparr>" fair]
  show "lock_steps fair locks_at_start locks_in_init"
    by (auto simp: lock_steps_def locks_in_init_def locks_at_start_def lock_exclusive_def unlocked_def)
qed



text \<open>
  C14. The threads never block each other for good: as long as a thread is not done and does not wait for a connection, some thread that
  does not wait can take its next step, whether or not a mutex prefers writers.
\<close>

theorem locks_progress:
  assumes "reach lock_start (lock_steps fair) s" "todo s t \<noteq> []" "\<not> waiting s t"
  shows "\<exists>t' s'. \<not> waiting s t' \<and> lock_step fair t' s s'"
  using never_stuck [OF locks.reachable_invar [OF assms(1)] assms(2,3), of fair] by (auto simp: can_step_def)

theorem locks_progress_witness: "\<exists>t' s'. \<not> waiting locks_in_init t' \<and> lock_step True t' locks_in_init s'"
  by (rule locks_progress [OF locks_in_init_reachable, of 1])
     (simp_all add: locks_in_init_def locks_at_start_def waiting_def shutdownInstance_locks_def ScopedLock_def)

text \<open>Finitely many threads cannot take steps for ever.\<close>

theorem locks_runs_end:
  assumes "finite {t. todo (run 0) t \<noteq> []}"
  shows "\<exists>n. \<not> lock_steps fair (run n) (run (Suc n))"
proof (rule ccontr)
  assume "\<nexists>n. \<not> lock_steps fair (run n) (run (Suc n))"
  then have steps: "\<exists>t. lock_step fair t (run n) (run (Suc n))" for n
    by (auto simp: lock_steps_def)
  let ?T = "{t. todo (run 0) t \<noteq> []}"
  have inside: "todo (run n) t = []" if "t \<notin> ?T" for n t
  proof (induction n)
    case (Suc n)
    obtain u where u: "lock_step fair u (run n) (run (Suc n))"
      using steps by auto
    show ?case
      using lock_step_weight [OF u] Suc by (cases "t = u") auto
  qed (use that in simp)
  have less: "(\<Sum>t\<in>?T. weight (todo (run (Suc n)) t)) < (\<Sum>t\<in>?T. weight (todo (run n) t))" for n
  proof -
    obtain t where t: "lock_step fair t (run n) (run (Suc n))"
      using steps by auto
    have w: "weight (todo (run (Suc n)) t) < weight (todo (run n) t)"
      by (rule lock_step_weight(1) [OF t])
    then have "t \<in> ?T"
      using inside [of t n] by fastforce
    moreover have "weight (todo (run (Suc n)) u) \<le> weight (todo (run n) u)" for u
      using lock_step_weight(2) [OF t, of u] w by (cases "u = t") auto
    ultimately show ?thesis
      using w assms by (intro sum_strict_mono_ex1) auto
  qed
  have "(\<Sum>t\<in>?T. weight (todo (run n) t)) + n \<le> (\<Sum>t\<in>?T. weight (todo (run 0) t))" for n
  proof (induction n)
    case (Suc n)
    then show ?case
      using less [of n] by simp
  qed simp
  from this [of "Suc (\<Sum>t\<in>?T. weight (todo (run 0) t))"] show False
    by simp
qed

end
