(* ===== verification/Api_Types.thy ===== *)
theory Api_Types
  imports Token
begin

text \<open>
  The public types of \<^verbatim>\<open>include/hipobj.h\<close> that the components share, and \<^verbatim>\<open>src/hipobj-private.h\<close>:
  error codes, the result type of the public functions, and the limits and version numbers.
\<close>

datatype hipObjOpError_t =
  hipObjSuccess | hipObjInvalidValue | hipObjNotInitialized | hipObjAlreadyInitialized
| hipObjRdmaError | hipObjS3Error | hipObjBufNotRegistered | hipObjBufAlreadyRegistered
| hipObjNicNotFound | hipObjDmabufNotSupported | hipObjSizeTooLarge | hipObjInternalError | hipObjBusy

fun op_error_value :: "hipObjOpError_t \<Rightarrow> nat" where
  "op_error_value hipObjSuccess = 0"
| "op_error_value hipObjInvalidValue = 1"
| "op_error_value hipObjNotInitialized = 2"
| "op_error_value hipObjAlreadyInitialized = 3"
| "op_error_value hipObjRdmaError = 4"
| "op_error_value hipObjS3Error = 5"
| "op_error_value hipObjBufNotRegistered = 6"
| "op_error_value hipObjBufAlreadyRegistered = 7"
| "op_error_value hipObjNicNotFound = 8"
| "op_error_value hipObjDmabufNotSupported = 9"
| "op_error_value hipObjSizeTooLarge = 10"
| "op_error_value hipObjInternalError = 11"
| "op_error_value hipObjBusy = 12"

record hipObjError_t =
  opError :: hipObjOpError_t
  hipError :: int

definition makeError :: "hipObjOpError_t \<Rightarrow> int \<Rightarrow> hipObjError_t" where
  "makeError op hipErr = \<lparr>opError = op, hipError = hipErr\<rparr>"

text \<open>\<^verbatim>\<open>makeError\<close> with its default argument.\<close>

abbreviation mkError :: "hipObjOpError_t \<Rightarrow> hipObjError_t" where
  "mkError op \<equiv> makeError op 0"

lemma makeError_sel [simp]: "opError (makeError op h) = op" "hipError (makeError op h) = h"
  by (simp_all add: makeError_def)

definition MAX_MR_SIZE :: u64 where
  "MAX_MR_SIZE = 4 * 1024 * 1024 * 1024"

definition HIPOBJ_VERSION_MAJOR :: nat where "HIPOBJ_VERSION_MAJOR = 0"
definition HIPOBJ_VERSION_MINOR :: nat where "HIPOBJ_VERSION_MINOR = 1"
definition HIPOBJ_VERSION_PATCH :: nat where "HIPOBJ_VERSION_PATCH = 0"
definition HIPOBJ_RDMA_OP_PUT :: int where "HIPOBJ_RDMA_OP_PUT = 0"
definition HIPOBJ_RDMA_OP_GET :: int where "HIPOBJ_RDMA_OP_GET = 1"

lemma unat_MAX_MR_SIZE: "unat MAX_MR_SIZE = 2 ^ 32"
  by (simp add: MAX_MR_SIZE_def)

end
