(* ===== verification/Buffer.thy ===== *)
theory Buffer
  imports Sample_Platform Api_Types
begin

text \<open>
  Buffer registration, from \<^verbatim>\<open>src/buffer.h\<close> and \<^verbatim>\<open>src/buffer.cpp\<close>: the dma-buf and host paths of
  \<^verbatim>\<open>registerDeviceMemory\<close>, the device range check, and \<^verbatim>\<open>BufferMap\<close>.

  The map holds each registration in a \<^verbatim>\<open>shared_ptr\<close> whose use count decides whether it can be
  removed, so the registrations live in a heap of cells, each with its count, and the map holds
  their addresses. Making, copying and dropping a reference are operations on the heap; dropping
  the last one runs the destructor, which deregisters the MR and then frees the staging buffer.
\<close>

subsection \<open>Registrations\<close>

record DmabufPolicy =
  dmabuf_enabled :: bool
  dmabuf_debug :: bool

record BufEntry =
  hostBuf :: "handle option"
  mr :: ibv_mr
  entry_size :: size_t
  isDmabuf :: bool
  entry_remoteAddr :: u64
  leakHostBuf :: bool

definition newBufEntry :: "handle option \<Rightarrow> ibv_mr \<Rightarrow> size_t \<Rightarrow> bool \<Rightarrow> u64 \<Rightarrow> BufEntry" where
  "newBufEntry hb m sz dmabuf remote =
     \<lparr>hostBuf = hb, mr = m, entry_size = sz, isDmabuf = dmabuf, entry_remoteAddr = remote, leakHostBuf = False\<rparr>"

text \<open>
  The destructor drops a staging buffer that a running copy may use; the members are then destroyed
  in reverse order, the MR before the buffer it covers.
\<close>

definition destroyBufEntry :: "'e Verbs \<Rightarrow> 'e HipRuntime \<Rightarrow> BufEntry \<Rightarrow> ('e world, unit) state" where
  "destroyBufEntry V H b = do {
     let hb = (if leakHostBuf b then None else hostBuf b);
     _ \<leftarrow> IbvMrDeleter V (mr b);
     case hb of None \<Rightarrow> State_Monad.return () | Some p \<Rightarrow> HostBufDeleter H p
   }"

subsection \<open>The heap of registrations\<close>

text \<open>
  A cell is an object and its use count; an address is never used twice. The library's instance is
  held in the same way.
\<close>

type_synonym 'a shared_heap = "('a \<times> nat) option list"
type_synonym entry_heap = "BufEntry shared_heap"

definition make_shared :: "'a \<Rightarrow> 'a shared_heap \<Rightarrow> nat \<times> 'a shared_heap" where
  "make_shared b h = (length h, h @ [Some (b, 1)])"

definition entry_at :: "'a shared_heap \<Rightarrow> nat \<Rightarrow> ('a \<times> nat) option" where
  "entry_at h i = (if i < length h then h ! i else None)"

definition use_count :: "'a shared_heap \<Rightarrow> nat \<Rightarrow> nat" where
  "use_count h i = (case entry_at h i of None \<Rightarrow> 0 | Some (_, n) \<Rightarrow> n)"

definition copy_ref :: "nat \<Rightarrow> 'a shared_heap \<Rightarrow> 'a shared_heap" where
  "copy_ref i h = (case entry_at h i of None \<Rightarrow> h | Some (b, n) \<Rightarrow> h[i := Some (b, n + 1)])"

definition drop_ref :: "'e Verbs \<Rightarrow> 'e HipRuntime \<Rightarrow> nat \<Rightarrow> entry_heap \<Rightarrow> ('e world, entry_heap) state" where
  "drop_ref V H i h =
     (case entry_at h i of
        None \<Rightarrow> State_Monad.return h
      | Some (b, n) \<Rightarrow>
          if n > 1 then State_Monad.return (h[i := Some (b, n - 1)])
          else do { _ \<leftarrow> destroyBufEntry V H b; State_Monad.return (h[i := None]) })"

subsection \<open>Registering memory\<close>

definition isDevicePointer :: "'e HipRuntime \<Rightarrow> addr \<Rightarrow> ('e world, bool) state" where
  "isDevicePointer H p = do {
     r \<leftarrow> liftE (hip_pointerGetAttributes H p);
     State_Monad.return (fst r = hipSuccess \<and> snd r = hipMemoryTypeDevice)
   }"

definition registerDeviceMemory ::
  "'e Verbs \<Rightarrow> 'e HipRuntime \<Rightarrow> ibv_pd \<Rightarrow> addr \<Rightarrow> size_t \<Rightarrow> u32 \<Rightarrow> DmabufPolicy \<Rightarrow> ('e world, ibv_mr option) state" where
  "registerDeviceMemory V H pd a len access policy =
     (if dmabuf_enabled policy \<and> v_supportsDmabuf V
      then do {
        (status, fd, off) \<leftarrow> exportDmabuf H a len;
        if status \<noteq> 0 then reg_mr V pd a len access
        else do {
          m \<leftarrow> reg_dmabuf_mr V pd off len a (fst fd) access;
          _ \<leftarrow> DmabufFdDeleter H fd;
          case m of
            Some x \<Rightarrow> State_Monad.return (Some x)
          | None \<Rightarrow> reg_mr V pd a len access
        }
      }
      else reg_mr V pd a len access)"

text \<open>The check that \<^verbatim>\<open>[ptr, ptr + size)\<close> lies in the allocation \<open>[start, start + alloc)\<close>, which adds nothing up.\<close>

definition rangeInAllocation :: "addr \<Rightarrow> size_t \<Rightarrow> addr \<Rightarrow> size_t \<Rightarrow> bool" where
  "rangeInAllocation start alloc p sz \<longleftrightarrow>
     \<not> (p < start \<or> p - start \<ge> alloc) \<and> sz \<le> alloc - (p - start)"

definition isValidDeviceRange :: "'e HipRuntime \<Rightarrow> addr \<Rightarrow> size_t \<Rightarrow> ('e world, bool) state" where
  "isValidDeviceRange H p sz = do {
     dev \<leftarrow> isDevicePointer H p;
     if \<not> dev then State_Monad.return True
     else do {
       (err, start, alloc) \<leftarrow> liftE (hip_memGetAddressRange H p);
       if err \<noteq> hipSuccess then State_Monad.return False
       else State_Monad.return (rangeInAllocation start alloc p sz)
     }
   }"

subsection \<open>\<^verbatim>\<open>BufferMap\<close>\<close>

text \<open>\<^verbatim>\<open>std::map\<close> as a list of keys and cell addresses in ascending order of keys.\<close>

record BufferMap =
  entries :: "(addr \<times> nat) list"
  policy :: DmabufPolicy
  requireGpuDirect :: bool

definition kMaxEntries :: nat where
  "kMaxEntries = 256"

datatype RegisterResult = Registered | AlreadyRegistered | RegisterFailed
datatype DeregisterResult = Deregistered | NotRegistered | DeregisterBusy

fun map_insert :: "addr \<Rightarrow> nat \<Rightarrow> (addr \<times> nat) list \<Rightarrow> (addr \<times> nat) list" where
  "map_insert k v [] = [(k, v)]"
| "map_insert k v ((k', v') # xs) =
     (if k < k' then (k, v) # (k', v') # xs
      else if k = k' then (k, v) # xs
      else (k', v') # map_insert k v xs)"

definition map_erase :: "addr \<Rightarrow> (addr \<times> nat) list \<Rightarrow> (addr \<times> nat) list" where
  "map_erase k xs = filter (\<lambda>p. fst p \<noteq> k) xs"

definition refusal :: "BufferMap \<Rightarrow> addr \<Rightarrow> RegisterResult option" where
  "refusal m key =
     (if map_of (entries m) key \<noteq> None then Some AlreadyRegistered
      else if length (entries m) \<ge> kMaxEntries then Some RegisterFailed
      else None)"

definition precheck :: "BufferMap \<Rightarrow> addr \<Rightarrow> RegisterResult option" where
  "precheck m key = refusal m key"

text \<open>A new entry that is not inserted is released when the reference to it goes.\<close>

definition insertEntry ::
  "'e Verbs \<Rightarrow> 'e HipRuntime \<Rightarrow> addr \<Rightarrow> nat \<Rightarrow> BufferMap \<Rightarrow> entry_heap \<Rightarrow>
   ('e world, RegisterResult \<times> BufferMap \<times> entry_heap) state" where
  "insertEntry V H key i m h =
     (case refusal m key of
        Some refused \<Rightarrow> do { h' \<leftarrow> drop_ref V H i h; State_Monad.return (refused, m, h') }
      | None \<Rightarrow> State_Monad.return (Registered, m\<lparr>entries := map_insert key i (entries m)\<rparr>, h))"

definition mr_access :: u32 where
  "mr_access = IBV_ACCESS_REMOTE_READ OR IBV_ACCESS_REMOTE_WRITE OR IBV_ACCESS_LOCAL_WRITE"

text \<open>The staging path of \<^verbatim>\<open>registerBuffer\<close>, once the NIC cannot reach the caller's memory.\<close>

definition registerStaged ::
  "'e Verbs \<Rightarrow> 'e HipRuntime \<Rightarrow> addr \<Rightarrow> size_t \<Rightarrow> ibv_pd \<Rightarrow> BufferMap \<Rightarrow> entry_heap \<Rightarrow>
   ('e world, RegisterResult \<times> BufferMap \<times> entry_heap) state" where
  "registerStaged V H devPtr sz pd m h = do {
     (err, hb) \<leftarrow> hostMalloc H sz;
     case hb of
       None \<Rightarrow> State_Monad.return (RegisterFailed, m, h)
     | Some b \<Rightarrow> do {
         om \<leftarrow> reg_mr V pd (fst b) sz mr_access;
         case om of
           None \<Rightarrow> do { _ \<leftarrow> HostBufDeleter H b; State_Monad.return (RegisterFailed, m, h) }
         | Some x \<Rightarrow>
             (case make_shared (newBufEntry (Some b) x sz False (fst b)) h of
                (i, h') \<Rightarrow> insertEntry V H devPtr i m h')
       }
   }"

definition registerBuffer ::
  "'e Verbs \<Rightarrow> 'e HipRuntime \<Rightarrow> addr \<Rightarrow> size_t \<Rightarrow> ibv_pd \<Rightarrow> BufferMap \<Rightarrow> entry_heap \<Rightarrow>
   ('e world, RegisterResult \<times> BufferMap \<times> entry_heap) state" where
  "registerBuffer V H devPtr sz pd m h =
     (if sz > MAX_MR_SIZE then State_Monad.return (RegisterFailed, m, h)
      else case precheck m devPtr of
        Some refused \<Rightarrow> State_Monad.return (refused, m, h)
      | None \<Rightarrow> do {
          om \<leftarrow> registerDeviceMemory V H pd devPtr sz mr_access (policy m);
          case om of
            Some x \<Rightarrow>
              (case make_shared (newBufEntry None x sz True devPtr) h of
                 (i, h') \<Rightarrow> insertEntry V H devPtr i m h')
          | None \<Rightarrow> do {
              dev \<leftarrow> isDevicePointer H devPtr;
              if dev \<and> requireGpuDirect m then State_Monad.return (RegisterFailed, m, h)
              else registerStaged V H devPtr sz pd m h
            }
        })"

definition registerHostBuffer ::
  "'e Verbs \<Rightarrow> 'e HipRuntime \<Rightarrow> addr \<Rightarrow> size_t \<Rightarrow> ibv_pd \<Rightarrow> BufferMap \<Rightarrow> entry_heap \<Rightarrow>
   ('e world, RegisterResult \<times> BufferMap \<times> entry_heap) state" where
  "registerHostBuffer V H hostPtr sz pd m h =
     (if sz > MAX_MR_SIZE then State_Monad.return (RegisterFailed, m, h)
      else case precheck m hostPtr of
        Some refused \<Rightarrow> State_Monad.return (refused, m, h)
      | None \<Rightarrow> do {
          om \<leftarrow> reg_mr V pd hostPtr sz mr_access;
          case om of
            None \<Rightarrow> State_Monad.return (RegisterFailed, m, h)
          | Some x \<Rightarrow>
              (case make_shared (newBufEntry None x sz False hostPtr) h of
                 (i, h') \<Rightarrow> insertEntry V H hostPtr i m h')
        })"

definition deregisterBuffer ::
  "'e Verbs \<Rightarrow> 'e HipRuntime \<Rightarrow> addr \<Rightarrow> BufferMap \<Rightarrow> entry_heap \<Rightarrow>
   ('e world, DeregisterResult \<times> BufferMap \<times> entry_heap) state" where
  "deregisterBuffer V H devPtr m h =
     (case map_of (entries m) devPtr of
        None \<Rightarrow> State_Monad.return (NotRegistered, m, h)
      | Some i \<Rightarrow>
          if use_count h i > 1 then State_Monad.return (DeregisterBusy, m, h)
          else do {
            h' \<leftarrow> drop_ref V H i h;
            State_Monad.return (Deregistered, m\<lparr>entries := map_erase devPtr (entries m)\<rparr>, h')
          })"

text \<open>\<^verbatim>\<open>find\<close> returns a copy of the reference, which counts.\<close>

definition findBuffer :: "addr \<Rightarrow> BufferMap \<Rightarrow> entry_heap \<Rightarrow> nat option \<times> entry_heap" where
  "findBuffer devPtr m h =
     (case map_of (entries m) devPtr of None \<Rightarrow> (None, h) | Some i \<Rightarrow> (Some i, copy_ref i h))"

definition buffer_count :: "BufferMap \<Rightarrow> nat" where
  "buffer_count m = length (entries m)"

text \<open>The destructor drops the map's references, in the order of the keys.\<close>

fun dropEntries :: "'e Verbs \<Rightarrow> 'e HipRuntime \<Rightarrow> nat list \<Rightarrow> entry_heap \<Rightarrow> ('e world, entry_heap) state" where
  "dropEntries V H [] h = State_Monad.return h"
| "dropEntries V H (i # is) h = do { h' \<leftarrow> drop_ref V H i h; dropEntries V H is h' }"

definition destroyBufferMap ::
  "'e Verbs \<Rightarrow> 'e HipRuntime \<Rightarrow> BufferMap \<Rightarrow> entry_heap \<Rightarrow> ('e world, entry_heap) state" where
  "destroyBufferMap V H m h = dropEntries V H (map snd (entries m)) h"

subsection \<open>The map\<close>

text \<open>
  The contract of a finite map that counts its keys, and what its clients use of it; the sorted list
  of \<^verbatim>\<open>entries_\<close> provides it.
\<close>

locale counted_map =
  fixes lookup :: "'m \<Rightarrow> 'k \<Rightarrow> 'v option"
    and insert_key :: "'k \<Rightarrow> 'v \<Rightarrow> 'm \<Rightarrow> 'm"
    and erase_key :: "'k \<Rightarrow> 'm \<Rightarrow> 'm"
    and count_keys :: "'m \<Rightarrow> nat"
    and invar :: "'m \<Rightarrow> bool"
  assumes lookup_insert: "invar m \<Longrightarrow> lookup (insert_key k v m) = (lookup m)(k \<mapsto> v)"
    and lookup_erase: "invar m \<Longrightarrow> lookup (erase_key k m) = (lookup m)(k := None)"
    and invar_insert: "invar m \<Longrightarrow> invar (insert_key k v m)"
    and invar_erase: "invar m \<Longrightarrow> invar (erase_key k m)"
    and finite_keys: "invar m \<Longrightarrow> finite (dom (lookup m))"
    and count_card: "invar m \<Longrightarrow> count_keys m = card (dom (lookup m))"
begin

lemma count_insert_new:
  "invar m \<Longrightarrow> lookup m k = None \<Longrightarrow> count_keys (insert_key k v m) = Suc (count_keys m)"
  by (simp add: count_card invar_insert lookup_insert finite_keys domIff)

lemma count_erase:
  "invar m \<Longrightarrow> lookup m k \<noteq> None \<Longrightarrow> Suc (count_keys (erase_key k m)) = count_keys m"
  using card.remove [OF finite_keys [of m], of k]
  by (simp add: count_card invar_erase lookup_erase domIff)

lemma erase_insert_new:
  "invar m \<Longrightarrow> lookup m k = None \<Longrightarrow> lookup (erase_key k (insert_key k v m)) = lookup m"
  by (auto simp: lookup_erase lookup_insert invar_insert fun_eq_iff)

end

definition sorted_keys :: "(addr \<times> nat) list \<Rightarrow> bool" where
  "sorted_keys xs \<longleftrightarrow> sorted_wrt (<) (map fst xs)"

lemma sorted_keys_Cons [simp]: "sorted_keys (p # xs) \<longleftrightarrow> (\<forall>q\<in>set xs. fst p < fst q) \<and> sorted_keys xs"
  by (simp add: sorted_keys_def)

lemma sorted_keys_Nil [simp]: "sorted_keys []"
  by (simp add: sorted_keys_def)

lemma map_of_above: "\<forall>q\<in>set xs. k < fst q \<Longrightarrow> map_of xs (k :: addr) = None"
  by (auto simp: map_of_eq_None_iff)

lemma set_map_insert: "fst ` set (map_insert k v xs) = insert k (fst ` set xs)"
  by (induction k v xs rule: map_insert.induct) auto

lemma sorted_map_insert: "sorted_keys xs \<Longrightarrow> sorted_keys (map_insert k v xs)"
proof (induction k v xs rule: map_insert.induct)
  case (2 k v k' v' xs)
  have "k' < fst q" if "k' < k" "q \<in> set (map_insert k v xs)" for q
  proof -
    have "fst q \<in> insert k (fst ` set xs)"
      using that(2) set_map_insert [of k v xs] by blast
    then show ?thesis
      using that(1) 2(2) by auto
  qed
  moreover have "k' < k" if "\<not> k < k'" "k \<noteq> k'"
    using that by simp
  ultimately show ?case
    using 2 by (auto intro: less_trans)
qed simp

lemma map_of_map_insert: "sorted_keys xs \<Longrightarrow> map_of (map_insert k v xs) = (map_of xs)(k \<mapsto> v)"
  by (induction k v xs rule: map_insert.induct) (auto simp: fun_eq_iff)

lemma map_of_map_erase: "map_of (map_erase k xs) = (map_of xs)(k := None)"
  by (induction xs) (auto simp: map_erase_def fun_eq_iff)

lemma sorted_map_erase: "sorted_keys xs \<Longrightarrow> sorted_keys (map_erase k xs)"
  by (induction xs) (auto simp: map_erase_def)

lemma sorted_keys_distinct: "sorted_keys xs \<Longrightarrow> distinct (map fst xs)"
  by (induction xs) (auto simp: image_iff)

lemma length_card_dom: "sorted_keys xs \<Longrightarrow> length xs = card (dom (map_of xs))"
  using sorted_keys_distinct [of xs] distinct_card [of "map fst xs"] by (simp add: dom_map_of_conv_image_fst)

interpretation registry: counted_map map_of map_insert map_erase length sorted_keys
  by unfold_locales
    (auto simp: map_of_map_insert map_of_map_erase sorted_map_insert sorted_map_erase finite_dom_map_of length_card_dom)

subsection \<open>The heap\<close>

definition entry_resources :: "BufEntry \<Rightarrow> resource multiset" where
  "entry_resources b = {#Mr (mr_serial (mr b))#} +
     (if leakHostBuf b then {#} else (case hostBuf b of None \<Rightarrow> {#} | Some p \<Rightarrow> {#HostBuf (snd p)#}))"

abbreviation heap_resources :: "entry_heap \<Rightarrow> resource multiset" where
  "heap_resources h \<equiv> total (\<lambda>c. entry_resources (fst c)) h"

definition cells_ok :: "entry_heap \<Rightarrow> bool" where
  "cells_ok h \<longleftrightarrow> (\<forall>i b n. entry_at h i = Some (b, n) \<longrightarrow> 0 < n)"

lemma entry_at_update: "i < length h \<Longrightarrow> entry_at (h[i := c]) j = (if j = i then c else entry_at h j)"
  by (simp add: entry_at_def)

lemma entry_at_append [simp]:
  "entry_at (h @ [c]) j = (if j = length h then c else entry_at h j)"
  by (auto simp: entry_at_def nth_append)

lemma entry_at_bound: "entry_at h i = Some c \<Longrightarrow> i < length h \<and> h ! i = Some c"
  by (auto simp: entry_at_def split: if_splits)

lemma use_count_0: "cells_ok h \<Longrightarrow> use_count h i = 0 \<longleftrightarrow> entry_at h i = None"
  by (auto simp: cells_ok_def use_count_def split: option.splits)

lemma wp_destroyBufEntry:
  assumes "live (log w) = adds (entry_resources b + R) L"
  shows "wp (destroyBufEntry V H b) (\<lambda>_ w'. live (log w') = adds R L \<and> serial w' = serial w \<and>
           (\<forall>n. qp_state_of n (log w') = qp_state_of n (log w)) \<and> (legal_log (log w) \<longrightarrow> legal_log (log w'))) w"
  unfolding destroyBufEntry_def Let_def
  using assms by (auto intro!: wp_deleters simp: entry_resources_def split: option.splits)

lemma wp_drop_ref:
  assumes "entry_at h i = Some (b, n)" "0 < n" "live (log w) = adds (heap_resources h) L"
  shows "wp (drop_ref V H i h) (\<lambda>h' w'. live (log w') = adds (heap_resources h') L \<and> length h' = length h \<and>
           qps_same w w' \<and>
           (\<forall>j. entry_at h' j = (if j = i then (if n = 1 then None else Some (b, n - 1)) else entry_at h j))) w"
proof -
  have i: "i < length h" "h ! i = Some (b, n)"
    using entry_at_bound [OF assms(1)] by auto
  have res: "heap_resources h = entry_resources b + total_but (\<lambda>c. entry_resources (fst c)) i h"
    using total_split [OF i(1), of "\<lambda>c. entry_resources (fst c)"] i(2) by simp
  have none: "heap_resources (h[i := None]) = total_but (\<lambda>c. entry_resources (fst c)) i h"
    and less: "heap_resources (h[i := Some (b, n - 1)]) = heap_resources h"
    using total_update [OF i(1), of "\<lambda>c. entry_resources (fst c)"] res by simp_all
  show ?thesis
  proof (cases "n > 1")
    case True
    then show ?thesis
      using assms less i by (simp add: drop_ref_def entry_at_update del: One_nat_def)
  next
    case False
    then show ?thesis
      using assms res none i
      by (auto simp: drop_ref_def entry_at_update qps_same_def intro!: wp_conseq [OF wp_destroyBufEntry])
  qed
qed

subsection \<open>The invariant\<close>

text \<open>
  The map holds one reference to each of its registrations, \<open>R\<close> counts the references held elsewhere,
  and no cell is without a reference.
\<close>

definition buf_inv :: "(nat \<Rightarrow> nat) \<Rightarrow> BufferMap \<Rightarrow> entry_heap \<Rightarrow> bool" where
  "buf_inv R m h \<longleftrightarrow> sorted_keys (entries m) \<and> length (entries m) \<le> kMaxEntries \<and>
     distinct (map snd (entries m)) \<and> cells_ok h \<and>
     (\<forall>i. use_count h i = (if i \<in> snd ` set (entries m) then 1 else 0) + R i)"

lemma snd_map_insert:
  "map_of xs k = None \<Longrightarrow> mset (map snd (map_insert k v xs)) = add_mset v (mset (map snd xs))"
  by (induction k v xs rule: map_insert.induct) (auto split: if_splits)

lemma buf_inv_insert:
  assumes inv: "buf_inv R m h" and new: "refusal m key = None"
  shows "buf_inv R (m\<lparr>entries := map_insert key (length h) (entries m)\<rparr>) (h @ [Some (b, 1)])"
proof -
  have none: "map_of (entries m) key = None" and room: "length (entries m) < kMaxEntries"
    using new by (auto simp: refusal_def split: if_splits)
  have count: "use_count (h @ [Some (b, 1)]) i = (if i = length h then 1 else use_count h i)" for i
    by (simp add: use_count_def)
  have beyond: "entry_at h (length h) = None"
    by (simp add: entry_at_def)
  then have "use_count h (length h) = 0"
    by (simp add: use_count_def)
  moreover have "use_count h (length h) = (if length h \<in> snd ` set (entries m) then 1 else 0) + R (length h)"
    using inv by (simp add: buf_inv_def)
  ultimately have fresh: "length h \<notin> snd ` set (entries m)" "R (length h) = 0"
    by (auto split: if_splits)
  have ms: "mset (map snd (map_insert key (length h) (entries m))) = add_mset (length h) (mset (map snd (entries m)))"
    using none by (rule snd_map_insert)
  then have sets: "snd ` set (map_insert key (length h) (entries m)) = insert (length h) (snd ` set (entries m))"
    by (metis set_mset_add_mset_insert set_mset_mset set_map)
  have "distinct (map snd (map_insert key (length h) (entries m)))"
  proof -
    have "mset (map snd (map_insert key (length h) (entries m))) = mset (length h # map snd (entries m))"
      using ms by simp
    then show ?thesis
      using mset_eq_imp_distinct_iff inv fresh(1) by (fastforce simp: buf_inv_def)
  qed
  moreover have "cells_ok (h @ [Some (b, 1)])"
    using inv by (auto simp: buf_inv_def cells_ok_def)
  ultimately show ?thesis
    using inv none room fresh count sets registry.count_insert_new [of "entries m" key "length h"]
    by (auto simp: buf_inv_def sorted_map_insert)
qed

definition registered_at :: "addr \<Rightarrow> size_t \<Rightarrow> BufferMap \<Rightarrow> entry_heap \<Rightarrow> BufferMap \<Rightarrow> entry_heap \<Rightarrow> bool" where
  "registered_at key sz m h m' h' \<longleftrightarrow>
     map_of (entries m) key = None \<and> map_of (entries m') = (map_of (entries m))(key \<mapsto> length h) \<and>
     policy m' = policy m \<and> requireGpuDirect m' = requireGpuDirect m \<and>
     (\<exists>b. h' = h @ [Some (b, 1)] \<and> entry_size b = sz \<and> \<not> leakHostBuf b)"

text \<open>What the two registration functions guarantee.\<close>

definition register_post ::
  "(nat \<Rightarrow> nat) \<Rightarrow> addr \<Rightarrow> size_t \<Rightarrow> BufferMap \<Rightarrow> entry_heap \<Rightarrow> resource multiset option \<Rightarrow> 'e world \<Rightarrow>
   RegisterResult \<times> BufferMap \<times> entry_heap \<Rightarrow> 'e world \<Rightarrow> bool" where
  "register_post R key sz m h L w res w' \<longleftrightarrow>
     (case res of (r, m', h') \<Rightarrow>
        buf_inv R m' h' \<and> live (log w') = adds (heap_resources h') L \<and> qps_same w w' \<and>
        (if r = Registered then registered_at key sz m h m' h' else m' = m \<and> h' = h))"

lemma wp_insert_new:
  assumes "buf_inv R m h" "refusal m key = None" "entry_size b = sz" "\<not> leakHostBuf b"
    and "live (log w') = adds (entry_resources b + heap_resources h) L" "qps_same w w'"
  shows "wp (case make_shared b h of (i, h') \<Rightarrow> insertEntry V H key i m h') (register_post R key sz m h L w) w'"
  using assms buf_inv_insert [OF assms(1,2), of b]
  by (auto simp: make_shared_def insertEntry_def register_post_def registered_at_def refusal_def buf_inv_def
      map_of_map_insert add.commute split: if_splits)

lemma wp_isDevicePointer [wp_intro]:
  "(\<And>dev e. Q dev (w\<lparr>env := e\<rparr>)) \<Longrightarrow> wp (isDevicePointer H p) Q w"
  by (auto simp: isDevicePointer_def intro!: wp_liftE)

text \<open>Registering memory owns exactly the MR it returns; the dma-buf descriptor is always closed.\<close>

lemma wp_registerDeviceMemory:
  "wp (registerDeviceMemory V H pd a len access pol)
     (\<lambda>r w'. live (log w') = adds (case r of None \<Rightarrow> {#} | Some m \<Rightarrow> {#Mr (mr_serial m)#}) (live (log w)) \<and>
             qps_same w w') w"
  unfolding registerDeviceMemory_def
  by (auto intro!: wp_exportDmabuf wp_reg_dmabuf_mr wp_reg_mr wp_deleters simp: qps_same_def split: option.splits)

lemma newBufEntry_simps [simp]:
  "entry_size (newBufEntry hb x sz d r) = sz" "leakHostBuf (newBufEntry hb x sz d r) = False"
  "entry_resources (newBufEntry None x sz d r) = {#Mr (mr_serial x)#}"
  "entry_resources (newBufEntry (Some p) x sz d r) = {#HostBuf (snd p), Mr (mr_serial x)#}"
  by (simp_all add: newBufEntry_def entry_resources_def add_mset_commute)

lemma register_refused:
  assumes "buf_inv R m h" "live (log w') = adds (heap_resources h) L" "qps_same w w'" "r \<noteq> Registered"
  shows "register_post R key sz m h L w (r, m, h) w'"
  using assms by (simp add: register_post_def)

lemma refusal_not_Registered: "refusal m key = Some r \<Longrightarrow> r \<noteq> Registered"
  by (auto simp: refusal_def split: if_splits)

lemma wp_registerStaged:
  assumes "buf_inv R m h" "refusal m key = None" "live (log w') = adds (heap_resources h) L" "qps_same w w'"
  shows "wp (registerStaged V H key sz pd m h) (register_post R key sz m h L w) w'"
  unfolding registerStaged_def using assms
  by (auto intro!: wp_hostMalloc wp_reg_mr wp_deleters wp_insert_new register_refused
      simp: qps_same_def add_mset_commute split: option.splits)

lemma wp_registerBuffer:
  assumes "buf_inv R m h" "live (log w) = adds (heap_resources h) L"
  shows "wp (registerBuffer V H key sz pd m h) (register_post R key sz m h L w) w"
proof (cases "sz > MAX_MR_SIZE \<or> precheck m key \<noteq> None")
  case True
  then show ?thesis
    using assms refusal_not_Registered [of m key]
    by (auto simp: registerBuffer_def precheck_def intro!: register_refused)
next
  case False
  have staged: "wp (registerStaged V H key sz pd m h) (register_post R key sz m h L w) w'"
    if "live (log w') = adds (heap_resources h) L" "qps_same w w'" for w'
    using wp_registerStaged [OF assms(1) _ that] False by (simp add: precheck_def)
  show ?thesis
    using False assms unfolding registerBuffer_def precheck_def
    by (auto intro!: wp_conseq [OF wp_registerDeviceMemory] wp_isDevicePointer wp_insert_new staged register_refused
        simp: qps_same_def add_mset_commute split: option.splits)
qed

lemma wp_registerHostBuffer:
  assumes "buf_inv R m h" "live (log w) = adds (heap_resources h) L"
  shows "wp (registerHostBuffer V H key sz pd m h) (register_post R key sz m h L w) w"
proof (cases "sz > MAX_MR_SIZE \<or> precheck m key \<noteq> None")
  case True
  then show ?thesis
    using assms refusal_not_Registered [of m key]
    by (auto simp: registerHostBuffer_def precheck_def intro!: register_refused)
next
  case False
  then show ?thesis
    using assms unfolding registerHostBuffer_def precheck_def
    by (auto intro!: wp_reg_mr wp_insert_new register_refused
        simp: qps_same_def add_mset_commute split: option.splits)
qed

subsection \<open>Finding and removing\<close>

lemma entry_of_key:
  assumes "buf_inv R m h" "map_of (entries m) key = Some i"
  shows "\<exists>b. entry_at h i = Some (b, Suc (R i))" "i \<in> snd ` set (entries m)"
proof -
  show i: "i \<in> snd ` set (entries m)"
    using assms(2) by (force dest: map_of_SomeD)
  then have "use_count h i = Suc (R i)"
    using assms(1) by (simp add: buf_inv_def)
  then show "\<exists>b. entry_at h i = Some (b, Suc (R i))"
    by (auto simp: use_count_def split: option.splits)
qed

lemma copy_ref_inv:
  assumes "buf_inv R m h" "entry_at h i = Some (b, n)"
  shows "buf_inv (R(i := Suc (R i))) m (copy_ref i h) \<and> heap_resources (copy_ref i h) = heap_resources h \<and>
         length (copy_ref i h) = length h \<and>
         (\<forall>j. entry_at (copy_ref i h) j = (if j = i then Some (b, Suc n) else entry_at h j))"
proof -
  have i: "i < length h" "h ! i = Some (b, n)"
    using entry_at_bound [OF assms(2)] by auto
  have "heap_resources (h[i := Some (b, Suc n)]) = heap_resources h"
    using total_update [OF i(1), of "\<lambda>c. entry_resources (fst c)" "Some (b, Suc n)"]
      total_split [OF i(1), of "\<lambda>c. entry_resources (fst c)"] i(2) by simp
  moreover have at: "entry_at (copy_ref i h) j = (if j = i then Some (b, Suc n) else entry_at h j)" for j
    using assms(2) i by (simp add: copy_ref_def entry_at_update)
  moreover have "use_count h i = n"
    using assms(2) by (simp add: use_count_def)
  then have "use_count (copy_ref i h) j = (if j = i then Suc (use_count h i) else use_count h j)" for j
    using at [of j] by (simp add: use_count_def)
  moreover have "cells_ok (copy_ref i h)"
    using assms(1) at by (simp add: buf_inv_def cells_ok_def)
  ultimately show ?thesis
    using assms i by (simp add: buf_inv_def copy_ref_def)
qed

lemma wp_drop_extra_ref:
  assumes "buf_inv R m h" "0 < R i" "live (log w) = adds (heap_resources h) L"
  shows "wp (drop_ref V H i h) (\<lambda>h' w'. buf_inv (R(i := R i - 1)) m h' \<and> live (log w') = adds (heap_resources h') L \<and>
           length h' = length h \<and> qps_same w w' \<and>
           (\<forall>j. j \<noteq> i \<longrightarrow> entry_at h' j = entry_at h j) \<and>
           (use_count h i > 1 \<longrightarrow> map_option fst (entry_at h' i) = map_option fst (entry_at h i))) w"
proof -
  have "use_count h i > 0"
    using assms(1,2) by (simp add: buf_inv_def)
  then obtain b n where e: "entry_at h i = Some (b, n)" "0 < n"
    by (auto simp: use_count_def split: option.splits)
  then have n: "n = (if i \<in> snd ` set (entries m) then 1 else 0) + R i"
    using assms(1) unfolding buf_inv_def use_count_def by (metis (no_types, lifting) case_prod_conv option.case(2))
  show ?thesis
    by (rule wp_conseq [OF wp_drop_ref [OF e assms(3)]])
       (use assms e n in \<open>auto simp: buf_inv_def use_count_def cells_ok_def split: if_splits\<close>)
qed

lemma snd_map_erase:
  assumes "sorted_keys xs" "distinct (map snd xs)" "map_of xs k = Some i"
  shows "snd ` set (map_erase k xs) = snd ` set xs - {i}" "distinct (map snd (map_erase k xs))"
proof -
  have mem: "(k, i) \<in> set xs"
    using assms(3) by (rule map_of_SomeD)
  have key: "fst p = k \<longleftrightarrow> snd p = i" if "p \<in> set xs" for p
    using that mem assms(2) sorted_keys_distinct [OF assms(1)]
    by (metis distinct_map inj_onD fst_conv snd_conv)
  then show "snd ` set (map_erase k xs) = snd ` set xs - {i}"
    by (auto simp: map_erase_def)
  show "distinct (map snd (map_erase k xs))"
    using assms(2) by (simp add: map_erase_def distinct_map_filter)
qed

text \<open>What \<^verbatim>\<open>deregisterBuffer\<close> guarantees.\<close>

definition deregister_post ::
  "(nat \<Rightarrow> nat) \<Rightarrow> addr \<Rightarrow> BufferMap \<Rightarrow> entry_heap \<Rightarrow> resource multiset option \<Rightarrow> 'e world \<Rightarrow>
   DeregisterResult \<times> BufferMap \<times> entry_heap \<Rightarrow> 'e world \<Rightarrow> bool" where
  "deregister_post R key m h L w res w' \<longleftrightarrow>
     (case res of (r, m', h') \<Rightarrow>
        buf_inv R m' h' \<and> live (log w') = adds (heap_resources h') L \<and> qps_same w w' \<and>
        policy m' = policy m \<and> requireGpuDirect m' = requireGpuDirect m \<and>
        (case map_of (entries m) key of
           None \<Rightarrow> r = NotRegistered \<and> m' = m \<and> h' = h
         | Some i \<Rightarrow> if R i > 0 then r = DeregisterBusy \<and> m' = m \<and> h' = h
                     else r = Deregistered \<and> map_of (entries m') = (map_of (entries m))(key := None) \<and>
                          length h' = length h \<and> entry_at h' i = None \<and> (\<forall>j. j \<noteq> i \<longrightarrow> entry_at h' j = entry_at h j)))"

lemma wp_deregisterBuffer:
  assumes "buf_inv R m h" "live (log w) = adds (heap_resources h) L"
  shows "wp (deregisterBuffer V H key m h) (deregister_post R key m h L w) w"
proof (cases "map_of (entries m) key")
  case None
  then show ?thesis
    using assms by (simp add: deregisterBuffer_def deregister_post_def)
next
  case (Some i)
  obtain b where e: "entry_at h i = Some (b, Suc (R i))"
    using entry_of_key [OF assms(1) Some] by blast
  show ?thesis
  proof (cases "R i > 0")
    case True
    then show ?thesis
      using assms Some e by (simp add: deregisterBuffer_def deregister_post_def use_count_def)
  next
    case False
    note er = snd_map_erase [OF _ _ Some]
    have inv: "buf_inv R (m\<lparr>entries := map_erase key (entries m)\<rparr>) h'"
      if "\<forall>j. entry_at h' j = (if j = i then None else entry_at h j)" for h'
    proof -
      have "use_count h' j = (if j = i then 0 else use_count h j)" for j
        using that by (simp add: use_count_def)
      then have "use_count h' j = (if j \<in> snd ` set (map_erase key (entries m)) then 1 else 0) + R j" for j
        using assms(1) False er by (simp add: buf_inv_def)
      moreover have "length (map_erase key (entries m)) \<le> kMaxEntries"
        using assms(1) by (auto simp: buf_inv_def map_erase_def intro: le_trans [OF length_filter_le])
      ultimately show ?thesis
        using assms(1) er that by (simp add: buf_inv_def sorted_map_erase cells_ok_def)
    qed
    show ?thesis
      using Some e False
      by (auto simp: deregisterBuffer_def use_count_def deregister_post_def map_of_map_erase inv
          intro!: wp_conseq [OF wp_drop_ref [OF e _ assms(2)]])
  qed
qed

subsection \<open>The destructor\<close>

lemma total_empty: "(\<And>i. entry_at h i = None) \<Longrightarrow> total f h = {#}"
proof (induction h)
  case (Cons c h)
  have "entry_at h i = None" for i
    using Cons.prems [of "Suc i"] by (simp add: entry_at_def split: if_splits)
  moreover have "c = None"
    using Cons.prems [of 0] by (simp add: entry_at_def)
  ultimately show ?case
    using Cons.IH by simp
qed simp

lemma wp_dropEntries:
  assumes "\<And>i. use_count h i = (if i \<in> set is then 1 else 0)" "distinct is" "cells_ok h"
    and "live (log w) = adds (heap_resources h) L"
  shows "wp (dropEntries V H is h) (\<lambda>_ w'. live (log w') = L \<and> qps_same w w') w"
  using assms
proof (induction "is" arbitrary: h w)
  case Nil
  then have "entry_at h i = None" for i
    using use_count_0 [of h i] by simp
  then show ?case
    using Nil.prems(4) by (simp add: total_empty)
next
  case (Cons i js)
  have "use_count h i = 1"
    using Cons.prems(1) [of i] by simp
  then obtain b where e: "entry_at h i = Some (b, 1)"
    by (auto simp: use_count_def split: option.splits)
  have rest: "wp (dropEntries V H js h') (\<lambda>_ w''. live (log w'') = L \<and> qps_same w' w'') w'"
    if at: "\<forall>j. entry_at h' j = (if j = i then None else entry_at h j)" and "live (log w') = adds (heap_resources h') L" for h' w'
  proof (rule Cons.IH)
    fix j
    show "use_count h' j = (if j \<in> set js then 1 else 0)"
      using at Cons.prems(1) [of j] Cons.prems(2) by (auto simp: use_count_def)
  next
    show "cells_ok h'"
      using at Cons.prems(3) by (simp add: cells_ok_def)
  qed (use Cons.prems that in simp_all)
  show ?case
    unfolding dropEntries.simps wp_bind_iff
  proof (rule wp_conseq [OF wp_drop_ref [OF e _ Cons.prems(4)]])
    fix h' w'
    assume *: "live (log w') = adds (heap_resources h') L \<and> length h' = length h \<and> qps_same w w' \<and>
       (\<forall>j. entry_at h' j = (if j = i then if (1::nat) = 1 then None else Some (b, 1 - 1) else entry_at h j))"
    then have "wp (dropEntries V H js h') (\<lambda>_ w''. live (log w'') = L \<and> qps_same w' w'') w'"
      by (intro rest) simp_all
    then show "wp (dropEntries V H js h') (\<lambda>_ w''. live (log w'') = L \<and> qps_same w w'') w'"
      using * by (auto elim!: wp_conseq dest: qps_same_trans)
  qed simp
qed

lemma wp_destroyBufferMap:
  assumes "buf_inv (\<lambda>_. 0) m h" "live (log w) = adds (heap_resources h) L"
  shows "wp (destroyBufferMap V H m h) (\<lambda>_ w'. live (log w') = L \<and> qps_same w w') w"
  unfolding destroyBufferMap_def
  by (rule wp_dropEntries) (use assms in \<open>auto simp: buf_inv_def\<close>)

subsection \<open>Properties\<close>

text \<open>The device range check accepts a range exactly when it lies inside the allocation, on the
  mathematical integers, so that no address or size makes it wrap.\<close>

theorem range_in_allocation_exact:
  "rangeInAllocation start alloc p sz \<longleftrightarrow>
     unat start \<le> unat p \<and> unat p < unat start + unat alloc \<and> unat p + unat sz \<le> unat start + unat alloc"
proof (cases "p < start")
  case True
  then show ?thesis
    by (simp add: rangeInAllocation_def word_less_nat_alt)
next
  case False
  then have le: "unat start \<le> unat p"
    by (simp add: word_less_nat_alt)
  then have sub: "unat (p - start) = unat p - unat start"
    by (simp add: unat_sub word_le_nat_alt)
  show ?thesis
  proof (cases "p - start \<ge> alloc")
    case True
    then show ?thesis
      using le sub by (auto simp: rangeInAllocation_def word_le_nat_alt)
  next
    case False
    then have "unat (alloc - (p - start)) = unat alloc - unat (p - start)"
      by (simp add: unat_sub word_le_nat_alt word_less_nat_alt)
    then show ?thesis
      using le sub False \<open>\<not> p < start\<close> by (auto simp: rangeInAllocation_def word_le_nat_alt)
  qed
qed


definition sample_buffers :: BufferMap where
  "sample_buffers = \<lparr>entries = [], policy = \<lparr>dmabuf_enabled = True, dmabuf_debug = False\<rparr>, requireGpuDirect = False\<rparr>"

definition sample_pd :: ibv_pd where
  "sample_pd = \<lparr>pd_ptr = 64, pd_serial = 0\<rparr>"

lemma buf_inv_empty: "entries m = [] \<Longrightarrow> buf_inv (\<lambda>_. 0) m []"
  by (simp add: buf_inv_def kMaxEntries_def cells_ok_def entry_at_def use_count_def)

lemma sample_buffers_ok: "buf_inv (\<lambda>_. 0) sample_buffers []"
  by (rule buf_inv_empty) (simp add: sample_buffers_def)

lemma sample_world_live: "live (log sample_world) = adds (heap_resources []) (Some {#})"
  by (simp add: sample_world_def)


text \<open>C34. Deregistering a buffer refuses a key that is not registered, refuses with busy, changing nothing,
  while anything but the map holds the registration, and otherwise removes it and releases its MR
  and staging buffer, exactly once.\<close>

theorem deregister_buffer_contract:
  assumes "buf_inv R m h" "live (log w) = adds (heap_resources h) L"
  shows "wp (deregisterBuffer V H key m h)
     (\<lambda>(r, m', h') w'. buf_inv R m' h' \<and> live (log w') = adds (heap_resources h') L \<and>
        (case map_of (entries m) key of
           None \<Rightarrow> r = NotRegistered \<and> m' = m \<and> h' = h
         | Some i \<Rightarrow>
             if R i > 0 then r = DeregisterBusy \<and> m' = m \<and> h' = h
             else r = Deregistered \<and> map_of (entries m') = (map_of (entries m))(key := None) \<and>
                  entry_at h' i = None)) w"
  by (rule wp_conseq [OF wp_deregisterBuffer [OF assms]], cases "map_of (entries m) key")
     (auto simp: deregister_post_def split_beta simp del: not_None_eq not_Some_eq split: if_splits)

theorem deregister_buffer_contract_witness:
  "wp (deregisterBuffer sample_verbs sample_hip 0x1000 sample_buffers [])
     (\<lambda>(r, m', h') w'. buf_inv (\<lambda>_. 0) m' h' \<and> live (log w') = adds (heap_resources h') (Some {#}) \<and>
        (case map_of (entries sample_buffers) 0x1000 of
           None \<Rightarrow> r = NotRegistered \<and> m' = sample_buffers \<and> h' = []
         | Some i \<Rightarrow>
             if (0::nat) > 0 then r = DeregisterBusy \<and> m' = sample_buffers \<and> h' = []
             else r = Deregistered \<and> map_of (entries m') = (map_of (entries sample_buffers))(0x1000 := None) \<and>
                  entry_at h' i = None)) sample_world"
  using deregister_buffer_contract [OF sample_buffers_ok sample_world_live, of sample_verbs sample_hip "0x1000"]
  by simp

text \<open>Registering a buffer and deregistering it again gives back the map's contents and releases exactly
  what the registration acquired.\<close>

theorem register_deregister_roundtrip:
  assumes "buf_inv (\<lambda>_. 0) m h" "live (log w) = adds (heap_resources h) L"
  shows "wp (do {
       (r, m1, h1) \<leftarrow> registerBuffer V H key sz pd m h;
       (d, m2, h2) \<leftarrow> deregisterBuffer V H key m1 h1;
       State_Monad.return (r, d, m2)
     })
     (\<lambda>(r, d, m2) w'. r = Registered \<longrightarrow>
        d = Deregistered \<and> map_of (entries m2) = map_of (entries m) \<and> live (log w') = live (log w)) w"
proof -
  have "wp (deregisterBuffer V H key m1 h1)
      (\<lambda>(d, m2, h2) w'. d = Deregistered \<and> map_of (entries m2) = map_of (entries m) \<and> live (log w') = live (log w)) w1"
    if "register_post (\<lambda>_. 0) key sz m h L w (Registered, m1, h1) w1" for m1 h1 w1
  proof -
    have pre: "buf_inv (\<lambda>_. 0) m1 h1" "live (log w1) = adds (heap_resources h1) L"
      and reg: "registered_at key sz m h m1 h1"
      using that by (auto simp: register_post_def)
    obtain b where h1: "h1 = h @ [Some (b, 1)]"
      using reg by (auto simp: registered_at_def)
    have "heap_resources h2 = heap_resources h"
      if "length h2 = length h1" "entry_at h2 (length h) = None" "\<forall>j. j \<noteq> length h \<longrightarrow> entry_at h2 j = entry_at h1 j" for h2
    proof -
      have "h2 = h @ [None]"
        using that h1 by (intro nth_equalityI) (auto simp: entry_at_def nth_append less_Suc_eq split: if_splits)
      then show ?thesis
        by simp
    qed
    then show ?thesis
      using assms(2) reg
      by (intro wp_conseq [OF wp_deregisterBuffer [OF pre]])
         (auto simp: deregister_post_def registered_at_def fun_eq_iff)
  qed
  then have step: "wp (deregisterBuffer V H key m1 h1) (\<lambda>(d, m2, h2) w'. r = Registered \<longrightarrow>
      d = Deregistered \<and> map_of (entries m2) = map_of (entries m) \<and> live (log w') = live (log w)) w1"
    if "register_post (\<lambda>_. 0) key sz m h L w (r, m1, h1) w1" for r m1 h1 w1
    using that by (cases "r = Registered") (auto intro: wpI)
  show ?thesis
    unfolding wp_bind_iff
    by (rule wp_conseq [OF wp_registerBuffer [OF assms]]) (auto intro!: wp_conseq [OF step])
qed

theorem register_deregister_roundtrip_witness:
  "wp (do {
       (r, m1, h1) \<leftarrow> registerBuffer sample_verbs sample_hip 0x1000 0x100 sample_pd sample_buffers [];
       (d, m2, h2) \<leftarrow> deregisterBuffer sample_verbs sample_hip 0x1000 m1 h1;
       State_Monad.return (r, d, m2)
     })
     (\<lambda>(r, d, m2) w'. r = Registered \<longrightarrow>
        d = Deregistered \<and> map_of (entries m2) = map_of (entries sample_buffers) \<and>
        live (log w') = live (log sample_world)) sample_world"
  by (rule register_deregister_roundtrip [OF sample_buffers_ok sample_world_live])

end
