(* ===== verification/Abandoned.thy ===== *)
theory Abandoned
  imports Buffer
begin

text \<open>
  Staging copies that timed out, from \<^verbatim>\<open>src/abandoned-copies.h\<close> and \<^verbatim>\<open>src/abandoned-copies.cpp\<close>: room
  for a copy is reserved before it starts, a copy that times out keeps a reference to its
  registration until its event says that it is over, and a copy that is still running when the list
  is destroyed has its staging buffer leaked. The lemmas show that the room always suffices, that
  the references are counted, and that nothing but those staging buffers and events leaks.

  A reservation that runs out of memory throws before anything has changed; the model's allocations
  succeed.
\<close>

subsection \<open>Data\<close>

record Copy =
  copy_entry :: nat
  copy_done :: handle

record AbandonedCopies =
  copies :: "Copy list"
  capacity :: nat
  reserved :: nat

definition newAbandonedCopies :: AbandonedCopies where
  "newAbandonedCopies = \<lparr>copies = [], capacity = 0, reserved = 0\<rparr>"

subsection \<open>Operations\<close>

text \<open>\<^verbatim>\<open>std::vector::reserve\<close> makes the capacity what it is asked for.\<close>

definition reserve_slot :: "AbandonedCopies \<Rightarrow> AbandonedCopies" where
  "reserve_slot a =
     (let needed = length (copies a) + reserved a + 1;
          cap = (if needed > capacity a then max needed (capacity a + capacity a div 2) else capacity a)
      in a\<lparr>capacity := cap, reserved := reserved a + 1\<rparr>)"

text \<open>The destructor of a slot that was not used.\<close>

definition destroySlot :: "AbandonedCopies \<Rightarrow> AbandonedCopies" where
  "destroySlot a = a\<lparr>reserved := reserved a - 1\<rparr>"

definition add_copy :: "handle \<Rightarrow> nat \<Rightarrow> AbandonedCopies \<Rightarrow> AbandonedCopies" where
  "add_copy done_ev i a =
     a\<lparr>copies := copies a @ [\<lparr>copy_entry = i, copy_done = done_ev\<rparr>], reserved := reserved a - 1\<rparr>"

text \<open>\<^verbatim>\<open>size\<close> and \<^verbatim>\<open>capacity\<close>: how many copies there are, and how many fit without allocating.\<close>

definition copiesSize :: "AbandonedCopies \<Rightarrow> nat" where
  "copiesSize a = length (copies a)"

definition copiesCapacity :: "AbandonedCopies \<Rightarrow> nat" where
  "copiesCapacity a = capacity a"

definition isOver :: "'e HipRuntime \<Rightarrow> Copy \<Rightarrow> ('e world, bool) state" where
  "isOver H c = do {
     r \<leftarrow> liftE (hip_eventQuery H (fst (copy_done c)));
     State_Monad.return (r \<noteq> hipErrorNotReady)
   }"

definition copy_matches :: "nat option \<Rightarrow> Copy \<Rightarrow> bool" where
  "copy_matches filt c \<longleftrightarrow> (case filt of None \<Rightarrow> True | Some i \<Rightarrow> copy_entry c = i)"

text \<open>The loop of \<^verbatim>\<open>release\<close>: the copies that are over, those that stay, and whether one it asked about runs.\<close>

fun releaseScan :: "'e HipRuntime \<Rightarrow> nat option \<Rightarrow> Copy list \<Rightarrow> ('e world, Copy list \<times> Copy list \<times> bool) state" where
  "releaseScan H filt [] = State_Monad.return ([], [], False)"
| "releaseScan H filt (c # cs) =
     (if \<not> copy_matches filt c
      then do {
        (over, rest, run) \<leftarrow> releaseScan H filt cs;
        State_Monad.return (over, c # rest, run)
      }
      else do {
        fin \<leftarrow> isOver H c;
        (over, rest, run) \<leftarrow> releaseScan H filt cs;
        State_Monad.return (if fin then (c # over, rest, run) else (over, c # rest, True))
      })"

text \<open>Destroying copies: each one's event, and then its reference to the registration.\<close>

fun destroyCopies :: "'e Verbs \<Rightarrow> 'e HipRuntime \<Rightarrow> Copy list \<Rightarrow> entry_heap \<Rightarrow> ('e world, entry_heap) state" where
  "destroyCopies V H [] h = State_Monad.return h"
| "destroyCopies V H (c # cs) h = do {
     _ \<leftarrow> HipEventDeleter H (copy_done c);
     h' \<leftarrow> drop_ref V H (copy_entry c) h;
     destroyCopies V H cs h'
   }"

definition release_copies ::
  "'e Verbs \<Rightarrow> 'e HipRuntime \<Rightarrow> nat option \<Rightarrow> AbandonedCopies \<Rightarrow> entry_heap \<Rightarrow>
   ('e world, bool \<times> AbandonedCopies \<times> entry_heap) state" where
  "release_copies V H filt a h = do {
     (over, rest, run) \<leftarrow> releaseScan H filt (copies a);
     h' \<leftarrow> destroyCopies V H over h;
     State_Monad.return (run, a\<lparr>copies := rest\<rparr>, h')
   }"

definition reclaim ::
  "'e Verbs \<Rightarrow> 'e HipRuntime \<Rightarrow> AbandonedCopies \<Rightarrow> entry_heap \<Rightarrow> ('e world, AbandonedCopies \<times> entry_heap) state" where
  "reclaim V H a h = do {
     (_, a', h') \<leftarrow> release_copies V H None a h;
     State_Monad.return (a', h')
   }"

definition running ::
  "'e Verbs \<Rightarrow> 'e HipRuntime \<Rightarrow> nat \<Rightarrow> AbandonedCopies \<Rightarrow> entry_heap \<Rightarrow>
   ('e world, bool \<times> AbandonedCopies \<times> entry_heap) state" where
  "running V H i a h = release_copies V H (Some i) a h"

definition set_leak :: "nat \<Rightarrow> entry_heap \<Rightarrow> entry_heap" where
  "set_leak i h = (case entry_at h i of None \<Rightarrow> h | Some (b, n) \<Rightarrow> h[i := Some (b\<lparr>leakHostBuf := True\<rparr>, n)])"

text \<open>
  The destructor: a copy that is still running has its staging buffer marked as leaked and its
  event given up, and then every copy is destroyed.
\<close>

fun markRunning ::
  "'e HipRuntime \<Rightarrow> Copy list \<Rightarrow> entry_heap \<Rightarrow> ('e world, (Copy \<times> bool) list \<times> entry_heap) state" where
  "markRunning H [] h = State_Monad.return ([], h)"
| "markRunning H (c # cs) h = do {
     fin \<leftarrow> isOver H c;
     let h' = (if fin then h else set_leak (copy_entry c) h);
     (rest, h'') \<leftarrow> markRunning H cs h';
     State_Monad.return ((c, fin) # rest, h'')
   }"

fun destroyMarked ::
  "'e Verbs \<Rightarrow> 'e HipRuntime \<Rightarrow> (Copy \<times> bool) list \<Rightarrow> entry_heap \<Rightarrow> ('e world, entry_heap) state" where
  "destroyMarked V H [] h = State_Monad.return h"
| "destroyMarked V H ((c, fin) # cs) h = do {
     _ \<leftarrow> (if fin then HipEventDeleter H (copy_done c) else State_Monad.return ());
     h' \<leftarrow> drop_ref V H (copy_entry c) h;
     destroyMarked V H cs h'
   }"

definition destroyAbandonedCopies ::
  "'e Verbs \<Rightarrow> 'e HipRuntime \<Rightarrow> AbandonedCopies \<Rightarrow> entry_heap \<Rightarrow> ('e world, entry_heap) state" where
  "destroyAbandonedCopies V H a h = do {
     (marked, h') \<leftarrow> markRunning H (copies a) h;
     destroyMarked V H marked h'
   }"

subsection \<open>Invariant\<close>

definition room_ok :: "AbandonedCopies \<Rightarrow> bool" where
  "room_ok a \<longleftrightarrow> length (copies a) + reserved a \<le> capacity a"

text \<open>A copy that has its slot is added without allocating, which is why adding it cannot fail.\<close>

lemma add_copy_fits:
  "room_ok a \<Longrightarrow> 0 < reserved a \<Longrightarrow>
   copiesSize (add_copy ev i a) = Suc (copiesSize a) \<and> copiesSize (add_copy ev i a) \<le> copiesCapacity a \<and>
   copiesCapacity (add_copy ev i a) = copiesCapacity a"
  by (simp add: room_ok_def copiesSize_def copiesCapacity_def add_copy_def)

definition copy_events :: "Copy list \<Rightarrow> resource multiset" where
  "copy_events cs = mset (map (\<lambda>c. Event (snd (copy_done c))) cs)"

definition copy_refs :: "Copy list \<Rightarrow> nat \<Rightarrow> nat" where
  "copy_refs cs i = length (filter (\<lambda>c. copy_entry c = i) cs)"

lemma copy_simps [simp]:
  "copy_events [] = {#}" "copy_events (c # cs) = add_mset (Event (snd (copy_done c))) (copy_events cs)"
  "copy_events (cs @ ds) = copy_events cs + copy_events ds"
  "copy_refs [] i = 0" "copy_refs (c # cs) i = (if copy_entry c = i then 1 else 0) + copy_refs cs i"
  "copy_refs (cs @ ds) i = copy_refs cs i + copy_refs ds i"
  by (simp_all add: copy_events_def copy_refs_def)

text \<open>The references that \<open>R\<close> counts, and those of the copies.\<close>

definition with_copies :: "(nat \<Rightarrow> nat) \<Rightarrow> Copy list \<Rightarrow> nat \<Rightarrow> nat" where
  "with_copies R cs i = R i + copy_refs cs i"

lemma with_copies_Nil [simp]: "with_copies R [] = R"
  by (simp add: with_copies_def fun_eq_iff)

definition ab_inv ::
  "(nat \<Rightarrow> nat) \<Rightarrow> AbandonedCopies \<Rightarrow> BufferMap \<Rightarrow> entry_heap \<Rightarrow> resource multiset option \<Rightarrow> 'e world \<Rightarrow> bool" where
  "ab_inv R a m h L w \<longleftrightarrow> room_ok a \<and> buf_inv (with_copies R (copies a)) m h \<and>
     live (log w) = adds (copy_events (copies a) + heap_resources h) L"

lemma wp_isOver: "(\<And>fin e. Q fin (w\<lparr>env := e\<rparr>)) \<Longrightarrow> wp (isOver H c) Q w"
  by (auto simp: isOver_def intro!: wp_liftE)

lemma wp_releaseScan:
  "wp (releaseScan H filt cs) (\<lambda>(over, rest, run) w'. log w' = log w \<and> serial w' = serial w \<and>
     mset cs = mset over + mset rest \<and> (run \<longleftrightarrow> list_ex (copy_matches filt) rest) \<and>
     list_all (copy_matches filt) over) w"
proof (induction cs arbitrary: w)
  case (Cons c cs)
  show ?case
    by (auto intro!: wp_isOver wp_conseq [OF Cons.IH])
qed simp

lemma copies_by_mset:
  assumes "mset cs = mset ds + mset es"
  shows "copy_events cs = copy_events ds + copy_events es" "copy_refs cs i = copy_refs ds i + copy_refs es i"
proof -
  show "copy_events cs = copy_events ds + copy_events es"
    unfolding copy_events_def using assms by (metis image_mset_union mset_map)
  have "mset (filter (\<lambda>c. copy_entry c = i) cs) = mset (filter (\<lambda>c. copy_entry c = i) ds) + mset (filter (\<lambda>c. copy_entry c = i) es)"
    using assms by (metis filter_union_mset mset_filter)
  then show "copy_refs cs i = copy_refs ds i + copy_refs es i"
    unfolding copy_refs_def by (metis size_mset size_union)
qed

text \<open>Dropping one reference that \<open>R\<close> counts, next to other resources.\<close>

lemma wp_drop_counted:
  assumes "buf_inv R m h" "0 < R i" "live (log w) = adds (X + heap_resources h) L"
  shows "wp (drop_ref V H i h) (\<lambda>h' w'. buf_inv (R(i := R i - 1)) m h' \<and>
           live (log w') = adds (X + heap_resources h') L \<and> length h' = length h \<and> qps_same w w') w"
  by (rule wp_conseq [OF wp_drop_extra_ref [OF assms(1,2), where L = "adds X L"]])
     (use assms(3) in \<open>auto simp: add.commute\<close>)

lemma wp_destroyCopies:
  assumes "buf_inv (with_copies R cs) m h" "live (log w) = adds (copy_events cs + X + heap_resources h) L"
  shows "wp (destroyCopies V H cs h) (\<lambda>h' w'. buf_inv R m h' \<and> live (log w') = adds (X + heap_resources h') L \<and>
           length h' = length h \<and> qps_same w w') w"
  using assms
proof (induction cs arbitrary: h w)
  case Nil
  then show ?case
    by (simp add: with_copies_def)
next
  case (Cons c cs)
  let ?i = "copy_entry c"
  have upd: "(with_copies R (c # cs))(?i := with_copies R (c # cs) ?i - 1) = with_copies R cs"
    by (auto simp: with_copies_def fun_eq_iff)
  have drop: "wp (drop_ref V H ?i h) (\<lambda>h' w'. buf_inv (with_copies R cs) m h' \<and>
      live (log w') = adds (copy_events cs + X + heap_resources h') L \<and> length h' = length h \<and> qps_same w1 w') w1"
    if "live (log w1) = adds (copy_events cs + X + heap_resources h) L" for w1
    using wp_drop_counted [OF Cons.prems(1) _ that, of ?i, unfolded upd] by (simp add: with_copies_def)
  have rest: "wp (destroyCopies V H cs h') (\<lambda>h'' w''. buf_inv R m h'' \<and> live (log w'') = adds (X + heap_resources h'') L \<and>
      length h'' = length h \<and> qps_same w w'') w'"
    if "buf_inv (with_copies R cs) m h'" "live (log w') = adds (copy_events cs + X + heap_resources h') L"
      "length h' = length h" "qps_same w w'" for h' w'
    by (rule wp_conseq [OF Cons.IH [OF that(1,2)]]) (use that in \<open>auto intro: qps_same_trans\<close>)
  have ev: "live (log w @ [Release (Event (snd (copy_done c)))]) = adds (copy_events cs + X + heap_resources h) L"
    using Cons.prems(2) by simp
  have same: "qps_same w (w\<lparr>env := e, log := log w @ [Release (Event (snd (copy_done c)))]\<rparr>)" for e
    by (simp add: qps_same_def)
  show ?case
    unfolding destroyCopies.simps wp_bind_iff
    using ev by (intro wp_deleters) (auto intro!: wp_conseq [OF drop] rest intro: qps_same_trans [OF same])
qed

lemma wp_release_copies:
  assumes "ab_inv R a m h L w"
  shows "wp (release_copies V H filt a h) (\<lambda>(run, a', h') w'. ab_inv R a' m h' L w' \<and> qps_same w w' \<and>
           length h' = length h \<and> capacity a' = capacity a \<and> reserved a' = reserved a \<and>
           (run \<longleftrightarrow> list_ex (copy_matches filt) (copies a'))) w"
proof -
  have destroyed: "wp (destroyCopies V H over h) (\<lambda>h' w''. ab_inv R (a\<lparr>copies := rest\<rparr>) m h' L w'' \<and> qps_same w w'' \<and>
      length h' = length h) w'"
    if "log w' = log w" "serial w' = serial w" "mset (copies a) = mset over + mset rest" for w' over rest
  proof -
    note split = copies_by_mset [OF that(3)]
    have "with_copies R (copies a) = with_copies (with_copies R rest) over"
      using split(2) by (auto simp: with_copies_def fun_eq_iff)
    then have "buf_inv (with_copies (with_copies R rest) over) m h"
      using assms by (simp add: ab_inv_def)
    moreover have "live (log w') = adds (copy_events over + copy_events rest + heap_resources h) L"
      using assms that split(1) by (simp add: ab_inv_def)
    moreover have "length rest \<le> length (copies a)"
      using that(3) by (metis le_add2 size_mset size_union)
    ultimately show ?thesis
      using assms that
      by (auto intro!: wp_conseq [OF wp_destroyCopies] simp: ab_inv_def room_ok_def qps_same_def)
  qed
  show ?thesis
    unfolding release_copies_def wp_bind_iff
    by (rule wp_conseq [OF wp_releaseScan]) (auto intro!: wp_conseq [OF destroyed])
qed

subsection \<open>Reserving and adding\<close>

lemma reserve_slot_room: "room_ok a \<Longrightarrow> room_ok (reserve_slot a) \<and> copies (reserve_slot a) = copies a \<and>
  reserved (reserve_slot a) = Suc (reserved a)"
  by (auto simp: reserve_slot_def room_ok_def Let_def)

lemma reserve_slot_inv: "ab_inv R a m h L w \<Longrightarrow> ab_inv R (reserve_slot a) m h L w"
  using reserve_slot_room [of a] by (simp add: ab_inv_def)

lemma destroySlot_inv: "ab_inv R a m h L w \<Longrightarrow> ab_inv R (destroySlot a) m h L w"
  by (auto simp: ab_inv_def destroySlot_def room_ok_def)

lemma add_copy_inv:
  assumes "ab_inv R a m h (adds {#Event n#} L) w" "0 < reserved a" "entry_at h i = Some (b, k)"
  shows "ab_inv R (add_copy (p, n) i a) m (copy_ref i h) L w \<and> capacity (add_copy (p, n) i a) = capacity a"
proof -
  have "(with_copies R (copies a))(i := Suc (with_copies R (copies a) i)) = with_copies R (copies (add_copy (p, n) i a))"
    by (auto simp: with_copies_def add_copy_def fun_eq_iff)
  then show ?thesis
    using copy_ref_inv [OF _ assms(3), of "with_copies R (copies a)" m] assms
    by (auto simp: ab_inv_def add_copy_def room_ok_def ac_simps)
qed

subsection \<open>The destructor\<close>

definition leakable :: "resource \<Rightarrow> bool" where
  "leakable r \<longleftrightarrow> (\<exists>n. r = HostBuf n \<or> r = Event n)"

text \<open>\<open>L'\<close> is \<open>L\<close> and staging buffers and events that have been given up.\<close>

definition leaked_from :: "resource multiset option \<Rightarrow> resource multiset option \<Rightarrow> bool" where
  "leaked_from L L' \<longleftrightarrow> (\<exists>K. L' = adds K L \<and> (\<forall>r\<in>#K. leakable r))"

lemma leaked_from_refl [simp]: "leaked_from L L"
  by (auto simp: leaked_from_def intro!: exI [of _ "{#}"])

lemma leaked_from_adds: "\<forall>r\<in>#K. leakable r \<Longrightarrow> leaked_from L (adds K L)"
  by (auto simp: leaked_from_def)

lemma leaked_from_trans: "leaked_from L L' \<Longrightarrow> leaked_from L' L'' \<Longrightarrow> leaked_from L L''"
  by (auto simp: leaked_from_def) (metis Un_iff set_mset_union)

lemma set_leak_effect:
  "\<exists>K. heap_resources h = K + heap_resources (set_leak i h) \<and> (\<forall>r\<in>#K. leakable r)"
proof (cases "entry_at h i")
  case None
  then show ?thesis
    by (simp add: set_leak_def)
next
  case (Some c)
  then obtain b n where e: "entry_at h i = Some (b, n)"
    by (cases c) auto
  have i: "i < length h" "h ! i = Some (b, n)"
    using entry_at_bound [OF e] by auto
  let ?K = "if leakHostBuf b then {#} else (case hostBuf b of None \<Rightarrow> {#} | Some p \<Rightarrow> {#HostBuf (snd p)#})"
  have "entry_resources b = ?K + entry_resources (b\<lparr>leakHostBuf := True\<rparr>)"
    by (simp add: entry_resources_def)
  then have "heap_resources h = ?K + heap_resources (set_leak i h)"
    using e i total_split [OF i(1), of "\<lambda>c. entry_resources (fst c)"]
      total_update [OF i(1), of "\<lambda>c. entry_resources (fst c)" "Some (b\<lparr>leakHostBuf := True\<rparr>, n)"]
    by (simp add: set_leak_def add.assoc)
  moreover have "\<forall>r\<in>#?K. leakable r"
    by (auto simp: leakable_def split: option.splits)
  ultimately show ?thesis
    by blast
qed

lemma set_leak_inv: "buf_inv R m h \<Longrightarrow> buf_inv R m (set_leak i h) \<and> length (set_leak i h) = length h"
proof -
  assume inv: "buf_inv R m h"
  have "entry_at (set_leak i h) j = map_option (\<lambda>(b, n). (if j = i then b\<lparr>leakHostBuf := True\<rparr> else b, n)) (entry_at h j)" for j
  proof (cases "entry_at h i")
    case None
    then show ?thesis
      by (cases "entry_at h j") (auto simp: set_leak_def)
  next
    case (Some c)
    then show ?thesis
      using entry_at_bound [OF Some] by (cases c; cases "entry_at h j") (auto simp: set_leak_def entry_at_update)
  qed
  note at = this
  have "use_count (set_leak i h) j = use_count h j" for j
    using at [of j] by (cases "entry_at h j") (auto simp: use_count_def)
  moreover have "cells_ok (set_leak i h)"
    using inv at unfolding cells_ok_def buf_inv_def by fastforce
  moreover have "length (set_leak i h) = length h"
    by (auto simp: set_leak_def split: option.splits)
  ultimately show ?thesis
    using inv by (simp add: buf_inv_def)
qed

definition marked_events :: "(Copy \<times> bool) list \<Rightarrow> resource multiset" where
  "marked_events ms = copy_events (map fst (filter snd ms))"

lemma marked_events_simps [simp]:
  "marked_events [] = {#}"
  "marked_events ((c, fin) # ms) = (if fin then {#Event (snd (copy_done c))#} else {#}) + marked_events ms"
  by (simp_all add: marked_events_def)

lemma wp_markRunning:
  assumes "buf_inv R m h" "live (log w) = adds (X + copy_events cs + heap_resources h) L"
  shows "wp (markRunning H cs h) (\<lambda>(ms, h') w'. log w' = log w \<and> serial w' = serial w \<and> map fst ms = cs \<and>
           buf_inv R m h' \<and> length h' = length h \<and>
           (\<exists>L'. live (log w') = adds (X + marked_events ms + heap_resources h') L' \<and> leaked_from L L' \<and>
                 (list_all snd ms \<longrightarrow> L' = L))) w"
  using assms
proof (induction cs arbitrary: h w L X)
  case Nil
  then show ?case
    by simp
next
  case (Cons c cs)
  let ?ev = "Event (snd (copy_done c))"
  have over: "wp (markRunning H cs h) (\<lambda>(ms, h') w'. log w' = log w \<and> serial w' = serial w \<and> map fst ms = cs \<and>
        buf_inv R m h' \<and> length h' = length h \<and>
        (\<exists>L'. live (log w') = adds (X + marked_events ((c, True) # ms) + heap_resources h') L' \<and> leaked_from L L' \<and>
              (list_all snd ms \<longrightarrow> L' = L))) (w\<lparr>env := e\<rparr>)" for e
    by (rule wp_conseq [OF Cons.IH [OF Cons.prems(1), where X = "add_mset ?ev X" and L = L]])
       (use Cons.prems in auto)
  obtain K where K: "heap_resources h = K + heap_resources (set_leak (copy_entry c) h)" "\<forall>r\<in>#K. leakable r"
    using set_leak_effect by blast
  have leak: "leaked_from L (adds (add_mset ?ev K) L)"
    using K(2) by (intro leaked_from_adds) (auto simp: leakable_def)
  have lv: "live (log w) = adds (X + copy_events cs + heap_resources (set_leak (copy_entry c) h)) (adds (add_mset ?ev K) L)"
    using Cons.prems(2) K(1) by (simp add: ac_simps)
  have runs: "wp (markRunning H cs (set_leak (copy_entry c) h)) (\<lambda>(ms, h') w'. log w' = log w \<and> serial w' = serial w \<and>
        map fst ms = cs \<and> buf_inv R m h' \<and> length h' = length h \<and>
        (\<exists>L'. live (log w') = adds (X + marked_events ((c, False) # ms) + heap_resources h') L' \<and> leaked_from L L')) (w\<lparr>env := e\<rparr>)" for e
    by (rule wp_conseq [OF Cons.IH [where X = X and L = "adds (add_mset ?ev K) L"]])
       (use lv leak set_leak_inv [OF Cons.prems(1), of "copy_entry c"] in \<open>auto intro: leaked_from_trans\<close>)
  have both: "wp (markRunning H cs (if fin then h else set_leak (copy_entry c) h))
      (\<lambda>(ms, h') w'. log w' = log w \<and> serial w' = serial w \<and> map fst ms = cs \<and>
        buf_inv R m h' \<and> length h' = length h \<and>
        (\<exists>L'. live (log w') = adds (X + marked_events ((c, fin) # ms) + heap_resources h') L' \<and> leaked_from L L' \<and>
              (list_all snd ((c, fin) # ms) \<longrightarrow> L' = L))) (w\<lparr>env := e\<rparr>)" for fin e
    using over [of e] runs [of e] by (cases fin) simp_all
  show ?case
    unfolding markRunning.simps wp_bind_iff Let_def
  proof (rule wp_isOver, rule wp_conseq [OF both], goal_cases)
    case (1 fin e a w')
    then show ?case
      by (cases a; cases fin; clarsimp; blast)
  qed
qed

lemma wp_destroyMarked:
  assumes "buf_inv (with_copies R (map fst ms)) m h" "live (log w) = adds (marked_events ms + heap_resources h) L"
  shows "wp (destroyMarked V H ms h) (\<lambda>h' w'. buf_inv R m h' \<and> live (log w') = adds (heap_resources h') L \<and>
           length h' = length h \<and> qps_same w w') w"
  using assms
proof (induction ms arbitrary: h w)
  case Nil
  then show ?case
    by (simp add: with_copies_def)
next
  case (Cons mc ms)
  obtain c fin where mc: "mc = (c, fin)"
    by (cases mc) auto
  let ?i = "copy_entry c"
  have upd: "(with_copies R (map fst (mc # ms)))(?i := with_copies R (map fst (mc # ms)) ?i - 1) = with_copies R (map fst ms)"
    by (auto simp: with_copies_def fun_eq_iff mc)
  have drop: "wp (drop_ref V H ?i h) (\<lambda>h' w'. buf_inv (with_copies R (map fst ms)) m h' \<and>
      live (log w') = adds (marked_events ms + heap_resources h') L \<and> length h' = length h \<and> qps_same w1 w') w1"
    if "live (log w1) = adds (marked_events ms + heap_resources h) L" for w1
    using wp_drop_counted [OF Cons.prems(1) _ that, of ?i, unfolded upd] by (simp add: with_copies_def mc)
  have rest: "wp (drop_ref V H ?i h) (\<lambda>h'. wp (destroyMarked V H ms h') (\<lambda>h'' w''. buf_inv R m h'' \<and>
      live (log w'') = adds (heap_resources h'') L \<and> length h'' = length h \<and> qps_same w w'')) w1"
    if "live (log w1) = adds (marked_events ms + heap_resources h) L" "qps_same w w1" for w1
    by (rule wp_conseq [OF drop [OF that(1)]])
       (auto intro!: wp_conseq [OF Cons.IH] dest: qps_same_trans [OF that(2)] intro: qps_same_trans)
  have same: "qps_same w (w\<lparr>env := e, log := log w @ [Release (Event (snd (copy_done c)))]\<rparr>)" for e
    by (simp add: qps_same_def)
  show ?case
  proof (cases fin)
    case True
    then show ?thesis
      using Cons.prems(2) same by (auto simp: mc intro!: wp_deleters rest)
  next
    case False
    then show ?thesis
      using Cons.prems(2) rest [of w] by (simp add: mc)
  qed
qed

lemma wp_destroyAbandonedCopies:
  assumes "ab_inv R a m h L w"
  shows "wp (destroyAbandonedCopies V H a h) (\<lambda>h' w'. buf_inv R m h' \<and> length h' = length h \<and> qps_same w w' \<and>
           (\<exists>L'. live (log w') = adds (heap_resources h') L' \<and> leaked_from L L' \<and> (copies a = [] \<longrightarrow> L' = L))) w"
proof -
  have pre: "buf_inv (with_copies R (copies a)) m h" "live (log w) = adds ({#} + copy_events (copies a) + heap_resources h) L"
    using assms by (simp_all add: ab_inv_def)
  have marked: "wp (destroyMarked V H ms h1) (\<lambda>h' w'. buf_inv R m h' \<and> length h' = length h \<and> qps_same w w' \<and>
           (\<exists>L'. live (log w') = adds (heap_resources h') L' \<and> leaked_from L L' \<and> (copies a = [] \<longrightarrow> L' = L))) w1"
    if "log w1 = log w" "serial w1 = serial w" "map fst ms = copies a" "buf_inv (with_copies R (copies a)) m h1"
      "length h1 = length h" "live (log w1) = adds (marked_events ms + heap_resources h1) L'" "leaked_from L L'"
      "list_all snd ms \<longrightarrow> L' = L" for ms h1 w1 L'
  proof -
    have "buf_inv (with_copies R (map fst ms)) m h1"
      using that by simp
    then show ?thesis
      by (rule wp_conseq [OF wp_destroyMarked [OF _ that(6)]]) (use that in \<open>auto simp: qps_same_def\<close>)
  qed
  show ?thesis
    unfolding destroyAbandonedCopies_def wp_bind_iff
    by (rule wp_conseq [OF wp_markRunning [OF pre]]) (auto intro: marked)
qed

subsection \<open>Properties\<close>

text \<open>Room for a copy is set aside before the copy starts: after a reservation the capacity is at least
  the number of copies plus the slots set aside, handing a copy over in its slot never needs more
  room than that, and a slot that is not used is given back.\<close>

lemma abandoned_room:
  assumes "room_ok a"
  shows "room_ok (reserve_slot a) \<and>
         length (copies (add_copy ev i (reserve_slot a))) \<le> capacity (reserve_slot a) \<and>
         capacity (add_copy ev i (reserve_slot a)) = capacity (reserve_slot a) \<and>
         room_ok (add_copy ev i (reserve_slot a)) \<and>
         copies (destroySlot (reserve_slot a)) = copies a \<and> reserved (destroySlot (reserve_slot a)) = reserved a"
  using assms by (auto simp: room_ok_def reserve_slot_def add_copy_def destroySlot_def Let_def)

text \<open>Asking whether a registration's copy still runs releases exactly its copies that are over, with
  their events and references, keeps the others, and says yes exactly when one of its copies is
  left; so after a no, no copy that timed out uses the staging buffer.\<close>

theorem running_contract:
  assumes "ab_inv R a m h L w"
  shows "wp (running V H i a h)
     (\<lambda>(run, a', h') w'. ab_inv R a' m h' L w' \<and> (run \<longleftrightarrow> i \<in> copy_entry ` set (copies a'))) w"
  unfolding running_def
  by (rule wp_conseq [OF wp_release_copies [OF assms]]) (auto simp: list_ex_iff copy_matches_def)

lemma ab_inv_start: "entries m = [] \<Longrightarrow> live (log w) = L \<Longrightarrow> ab_inv (\<lambda>_. 0) newAbandonedCopies m [] L w"
  using buf_inv_empty [of m] by (simp add: ab_inv_def room_ok_def newAbandonedCopies_def)

lemma sample_ab_inv: "ab_inv (\<lambda>_. 0) newAbandonedCopies sample_buffers [] (Some {#}) sample_world"
  by (rule ab_inv_start) (simp_all add: sample_buffers_def sample_world_def)

theorem running_contract_witness:
  "wp (running sample_verbs sample_hip 0 newAbandonedCopies [])
     (\<lambda>(run, a', h') w'. ab_inv (\<lambda>_. 0) a' sample_buffers h' (Some {#}) w' \<and>
        (run \<longleftrightarrow> 0 \<in> copy_entry ` set (copies a'))) sample_world"
  by (rule running_contract [OF sample_ab_inv])

text \<open>Destroying the list drops the reference of every copy. The only resources it gives up are
  staging buffers and events, those of copies that are still running; with no copies it gives up
  nothing.\<close>

lemma destroy_abandoned_contract:
  assumes "ab_inv R a m h L w"
  shows "wp (destroyAbandonedCopies V H a h)
     (\<lambda>h' w'. buf_inv R m h' \<and>
        (\<exists>L'. live (log w') = adds (heap_resources h') L' \<and> leaked_from L L' \<and> (copies a = [] \<longrightarrow> L' = L))) w"
  by (rule wp_conseq [OF wp_destroyAbandonedCopies [OF assms]]) auto

end
