(* ===== verification/Ibv_Wrapper.thy ===== *)
theory Ibv_Wrapper
  imports Seams
begin

text \<open>
  The production implementation of the verbs seam, \<^verbatim>\<open>src/common/ibv-wrapper.cpp\<close>: loading the
  functions of libibverbs (\<^verbatim>\<open>load_functions\<close>, \<^verbatim>\<open>loadLibibverbs\<close>) and the methods of \<^verbatim>\<open>LoadedVerbs\<close>
  that do more than forward.

  The shared library is a parameter: \<open>'e Libibverbs\<close> holds what \<^verbatim>\<open>dlsym\<close> finds for each symbol,
  \<open>None\<close> for a null pointer. The provider's entries in \<^verbatim>\<open>ibv_context::ops\<close> belong to the driver, so
  \<open>ops_poll_cq\<close> is a parameter as well, and so is \<open>ops_post_send\<close>. The library itself never posts a send, so
  \<^verbatim>\<open>post_send\<close> is a method of its own and not a call of the seam's record; it gives back its result and the position of
  the work request that \<^verbatim>\<open>bad_wr\<close> is set to, if it is set.
\<close>

subsection \<open>Symbols\<close>

record 'e Libibverbs =
  sym_get_device_list :: "('e, (addr \<times> ibv_device option list) option) state option"
  sym_free_device_list :: "(addr \<Rightarrow> ('e, unit) state) option"
  sym_open_device :: "(ibv_device \<Rightarrow> ('e, ibv_context option) state) option"
  sym_close_device :: "(ibv_context \<Rightarrow> ('e, int) state) option"
  sym_get_device_name :: "(ibv_device option \<Rightarrow> ('e, string option) state) option"
  sym_query_device :: "(ibv_context \<Rightarrow> ('e, int \<times> ibv_device_attr) state) option"
  sym_query_port :: "(ibv_context \<Rightarrow> u8 \<Rightarrow> ('e, int \<times> ibv_port_attr) state) option"
  sym_query_gid :: "(ibv_context \<Rightarrow> u8 \<Rightarrow> int \<Rightarrow> ('e, int \<times> ibv_gid) state) option"
  sym_alloc_pd :: "(ibv_context \<Rightarrow> ('e, ibv_pd option) state) option"
  sym_dealloc_pd :: "(ibv_pd \<Rightarrow> ('e, int) state) option"
  sym_reg_dmabuf_mr :: "(ibv_pd \<Rightarrow> u64 \<Rightarrow> size_t \<Rightarrow> u64 \<Rightarrow> int \<Rightarrow> u32 \<Rightarrow> ('e, ibv_mr option) state) option"
  sym_reg_mr_iova2 :: "(ibv_pd \<Rightarrow> addr \<Rightarrow> size_t \<Rightarrow> u64 \<Rightarrow> u32 \<Rightarrow> ('e, ibv_mr option) state) option"
  sym_dereg_mr :: "(ibv_mr \<Rightarrow> ('e, int) state) option"
  sym_create_cq :: "(ibv_context \<Rightarrow> int \<Rightarrow> ('e, ibv_cq option) state) option"
  sym_destroy_cq :: "(ibv_cq \<Rightarrow> ('e, int) state) option"
  sym_create_qp :: "(ibv_pd \<Rightarrow> ibv_qp_init_attr \<Rightarrow> ('e, ibv_qp option) state) option"
  sym_modify_qp :: "(ibv_qp \<Rightarrow> ibv_qp_attr \<Rightarrow> u32 \<Rightarrow> ('e, int) state) option"
  sym_destroy_qp :: "(ibv_qp \<Rightarrow> ('e, int) state) option"
  sym_poll_cq :: "(ibv_cq \<Rightarrow> ('e, int \<times> ibv_wc) state) option"
  sym_post_send :: "(ibv_qp \<Rightarrow> ibv_send_wr list \<Rightarrow> ('e, int \<times> nat option) state) option"

text \<open>
  \<^verbatim>\<open>LoadedVerbs::Funcs\<close>: every entry is a function but \<^verbatim>\<open>reg_dmabuf_mr\<close>, \<^verbatim>\<open>poll_cq\<close> and
  \<^verbatim>\<open>post_send\<close>, which may be null.
\<close>

record 'e Funcs =
  fn_get_device_list :: "('e, (addr \<times> ibv_device option list) option) state"
  fn_free_device_list :: "addr \<Rightarrow> ('e, unit) state"
  fn_open_device :: "ibv_device \<Rightarrow> ('e, ibv_context option) state"
  fn_close_device :: "ibv_context \<Rightarrow> ('e, int) state"
  fn_get_device_name :: "ibv_device option \<Rightarrow> ('e, string option) state"
  fn_query_device :: "ibv_context \<Rightarrow> ('e, int \<times> ibv_device_attr) state"
  fn_query_port :: "ibv_context \<Rightarrow> u8 \<Rightarrow> ('e, int \<times> ibv_port_attr) state"
  fn_query_gid :: "ibv_context \<Rightarrow> u8 \<Rightarrow> int \<Rightarrow> ('e, int \<times> ibv_gid) state"
  fn_alloc_pd :: "ibv_context \<Rightarrow> ('e, ibv_pd option) state"
  fn_dealloc_pd :: "ibv_pd \<Rightarrow> ('e, int) state"
  fn_reg_dmabuf_mr :: "(ibv_pd \<Rightarrow> u64 \<Rightarrow> size_t \<Rightarrow> u64 \<Rightarrow> int \<Rightarrow> u32 \<Rightarrow> ('e, ibv_mr option) state) option"
  fn_reg_mr_iova2 :: "ibv_pd \<Rightarrow> addr \<Rightarrow> size_t \<Rightarrow> u64 \<Rightarrow> u32 \<Rightarrow> ('e, ibv_mr option) state"
  fn_dereg_mr :: "ibv_mr \<Rightarrow> ('e, int) state"
  fn_create_cq :: "ibv_context \<Rightarrow> int \<Rightarrow> ('e, ibv_cq option) state"
  fn_destroy_cq :: "ibv_cq \<Rightarrow> ('e, int) state"
  fn_create_qp :: "ibv_pd \<Rightarrow> ibv_qp_init_attr \<Rightarrow> ('e, ibv_qp option) state"
  fn_modify_qp :: "ibv_qp \<Rightarrow> ibv_qp_attr \<Rightarrow> u32 \<Rightarrow> ('e, int) state"
  fn_destroy_qp :: "ibv_qp \<Rightarrow> ('e, int) state"
  fn_poll_cq :: "(ibv_cq \<Rightarrow> ('e, int \<times> ibv_wc) state) option"
  fn_post_send :: "(ibv_qp \<Rightarrow> ibv_send_wr list \<Rightarrow> ('e, int \<times> nat option) state) option"

text \<open>
  \<^verbatim>\<open>dlsym_load_optional\<close> takes what \<^verbatim>\<open>dlsym\<close> finds; with \<^verbatim>\<open>dlsym_load\<close> a missing symbol stops the load and is
  named in the message.
\<close>

definition dlsym_load_optional :: "('l \<Rightarrow> 'f option) \<Rightarrow> 'l \<Rightarrow> 'f option" where
  "dlsym_load_optional symbol L = symbol L"

definition dlsym_load :: "'f option \<Rightarrow> string \<Rightarrow> ('f \<Rightarrow> string + 'r) \<Rightarrow> string + 'r" where
  "dlsym_load f nm k = (case f of None \<Rightarrow> Inl nm | Some g \<Rightarrow> k g)"

definition load_functions :: "'e Libibverbs \<Rightarrow> string + 'e Funcs" where
  "load_functions L =
     dlsym_load (sym_get_device_list L) ''ibv_get_device_list'' (\<lambda>get_device_list.
     dlsym_load (sym_free_device_list L) ''ibv_free_device_list'' (\<lambda>free_device_list.
     dlsym_load (sym_open_device L) ''ibv_open_device'' (\<lambda>open_device.
     dlsym_load (sym_close_device L) ''ibv_close_device'' (\<lambda>close_device.
     dlsym_load (sym_get_device_name L) ''ibv_get_device_name'' (\<lambda>get_device_name.
     dlsym_load (sym_query_device L) ''ibv_query_device'' (\<lambda>query_device.
     dlsym_load (sym_query_port L) ''ibv_query_port'' (\<lambda>query_port.
     dlsym_load (sym_query_gid L) ''ibv_query_gid'' (\<lambda>query_gid.
     dlsym_load (sym_alloc_pd L) ''ibv_alloc_pd'' (\<lambda>alloc_pd.
     dlsym_load (sym_dealloc_pd L) ''ibv_dealloc_pd'' (\<lambda>dealloc_pd.
     dlsym_load (sym_reg_mr_iova2 L) ''ibv_reg_mr_iova2'' (\<lambda>reg_mr_iova2.
     dlsym_load (sym_dereg_mr L) ''ibv_dereg_mr'' (\<lambda>dereg_mr.
     dlsym_load (sym_create_cq L) ''ibv_create_cq'' (\<lambda>create_cq.
     dlsym_load (sym_destroy_cq L) ''ibv_destroy_cq'' (\<lambda>destroy_cq.
     dlsym_load (sym_create_qp L) ''ibv_create_qp'' (\<lambda>create_qp.
     dlsym_load (sym_modify_qp L) ''ibv_modify_qp'' (\<lambda>modify_qp.
     dlsym_load (sym_destroy_qp L) ''ibv_destroy_qp'' (\<lambda>destroy_qp.
       Inr \<lparr>fn_get_device_list = get_device_list, fn_free_device_list = free_device_list,
            fn_open_device = open_device, fn_close_device = close_device,
            fn_get_device_name = get_device_name, fn_query_device = query_device,
            fn_query_port = query_port, fn_query_gid = query_gid, fn_alloc_pd = alloc_pd,
            fn_dealloc_pd = dealloc_pd, fn_reg_dmabuf_mr = dlsym_load_optional sym_reg_dmabuf_mr L,
            fn_reg_mr_iova2 = reg_mr_iova2, fn_dereg_mr = dereg_mr, fn_create_cq = create_cq,
            fn_destroy_cq = destroy_cq, fn_create_qp = create_qp, fn_modify_qp = modify_qp,
            fn_destroy_qp = destroy_qp, fn_poll_cq = dlsym_load_optional sym_poll_cq L,
            fn_post_send = dlsym_load_optional sym_post_send L\<rparr>)))))))))))))))))"

subsection \<open>\<^verbatim>\<open>LoadedVerbs\<close>\<close>

text \<open>\<^verbatim>\<open>pointerToAddress\<close> of \<^verbatim>\<open>shared/hipobj-address.h\<close>. An address is a pointer's 64 bits in the model.\<close>

definition pointerToAddress :: "addr \<Rightarrow> u64" where
  "pointerToAddress p = p"

definition LoadedVerbs_reg_mr ::
  "'e Funcs \<Rightarrow> ibv_pd \<Rightarrow> addr \<Rightarrow> size_t \<Rightarrow> u32 \<Rightarrow> ('e, ibv_mr option) state" where
  "LoadedVerbs_reg_mr F pd a len access = fn_reg_mr_iova2 F pd a len (pointerToAddress a) access"

definition LoadedVerbs_supportsDmabuf :: "'e Funcs \<Rightarrow> bool" where
  "LoadedVerbs_supportsDmabuf F \<longleftrightarrow> fn_reg_dmabuf_mr F \<noteq> None"

definition LoadedVerbs_reg_dmabuf_mr ::
  "'e Funcs \<Rightarrow> ibv_pd \<Rightarrow> u64 \<Rightarrow> size_t \<Rightarrow> u64 \<Rightarrow> int \<Rightarrow> u32 \<Rightarrow> ('e, ibv_mr option) state" where
  "LoadedVerbs_reg_dmabuf_mr F pd off len iova fd access =
     (case fn_reg_dmabuf_mr F of
        None \<Rightarrow> State_Monad.return None \<comment> \<open>errno is set to EOPNOTSUPP, which the library never reads\<close>
      | Some f \<Rightarrow> f pd off len iova fd access)"

definition LoadedVerbs_poll_cq ::
  "(ibv_cq \<Rightarrow> ('e, int \<times> ibv_wc) state) \<Rightarrow> 'e Funcs \<Rightarrow> ibv_cq \<Rightarrow> ('e, int \<times> ibv_wc) state" where
  "LoadedVerbs_poll_cq ops_poll_cq F cq = (case fn_poll_cq F of Some f \<Rightarrow> f cq | None \<Rightarrow> ops_poll_cq cq)"

definition LoadedVerbs_post_send ::
  "(ibv_qp \<Rightarrow> ibv_send_wr list \<Rightarrow> ('e, int \<times> nat option) state) \<Rightarrow> 'e Funcs \<Rightarrow>
   ibv_qp \<Rightarrow> ibv_send_wr list \<Rightarrow> ('e, int \<times> nat option) state" where
  "LoadedVerbs_post_send ops_post_send F qp wr =
     (case fn_post_send F of Some f \<Rightarrow> f qp wr | None \<Rightarrow> ops_post_send qp wr)"

definition LoadedVerbs :: "(ibv_cq \<Rightarrow> ('e, int \<times> ibv_wc) state) \<Rightarrow> 'e Funcs \<Rightarrow> 'e Verbs" where
  "LoadedVerbs ops_poll_cq F =
     \<lparr>v_get_device_list = fn_get_device_list F, v_free_device_list = fn_free_device_list F,
      v_open_device = fn_open_device F, v_close_device = fn_close_device F,
      v_get_device_name = fn_get_device_name F, v_query_device = fn_query_device F,
      v_query_port = fn_query_port F, v_query_gid = fn_query_gid F, v_alloc_pd = fn_alloc_pd F,
      v_dealloc_pd = fn_dealloc_pd F, v_reg_mr = LoadedVerbs_reg_mr F,
      v_supportsDmabuf = LoadedVerbs_supportsDmabuf F, v_reg_dmabuf_mr = LoadedVerbs_reg_dmabuf_mr F,
      v_dereg_mr = fn_dereg_mr F, v_create_cq = fn_create_cq F, v_destroy_cq = fn_destroy_cq F,
      v_create_qp = fn_create_qp F, v_modify_qp = fn_modify_qp F, v_destroy_qp = fn_destroy_qp F,
      v_poll_cq = LoadedVerbs_poll_cq ops_poll_cq F\<rparr>"

text \<open>\<^verbatim>\<open>loadLibibverbs\<close>: null when \<^verbatim>\<open>dlopen\<close> finds no library, or when a required symbol is missing.\<close>

definition loadLibibverbs ::
  "(ibv_cq \<Rightarrow> ('e, int \<times> ibv_wc) state) \<Rightarrow> 'e Libibverbs option \<Rightarrow> 'e Verbs option" where
  "loadLibibverbs ops_poll_cq lib =
     (case lib of
        None \<Rightarrow> None
      | Some L \<Rightarrow> (case load_functions L of Inl _ \<Rightarrow> None | Inr F \<Rightarrow> Some (LoadedVerbs ops_poll_cq F)))"

subsection \<open>What loading guarantees\<close>

text \<open>The symbols that have to be there, in the order they are looked up, and whether each was found.\<close>

definition required_symbols :: "'e Libibverbs \<Rightarrow> (string \<times> bool) list" where
  "required_symbols L =
    [(''ibv_get_device_list'', sym_get_device_list L \<noteq> None),
     (''ibv_free_device_list'', sym_free_device_list L \<noteq> None),
     (''ibv_open_device'', sym_open_device L \<noteq> None),
     (''ibv_close_device'', sym_close_device L \<noteq> None),
     (''ibv_get_device_name'', sym_get_device_name L \<noteq> None),
     (''ibv_query_device'', sym_query_device L \<noteq> None),
     (''ibv_query_port'', sym_query_port L \<noteq> None),
     (''ibv_query_gid'', sym_query_gid L \<noteq> None),
     (''ibv_alloc_pd'', sym_alloc_pd L \<noteq> None),
     (''ibv_dealloc_pd'', sym_dealloc_pd L \<noteq> None),
     (''ibv_reg_mr_iova2'', sym_reg_mr_iova2 L \<noteq> None),
     (''ibv_dereg_mr'', sym_dereg_mr L \<noteq> None),
     (''ibv_create_cq'', sym_create_cq L \<noteq> None),
     (''ibv_destroy_cq'', sym_destroy_cq L \<noteq> None),
     (''ibv_create_qp'', sym_create_qp L \<noteq> None),
     (''ibv_modify_qp'', sym_modify_qp L \<noteq> None),
     (''ibv_destroy_qp'', sym_destroy_qp L \<noteq> None)]"

abbreviation missing :: "string + 'r \<Rightarrow> string option" where
  "missing r \<equiv> (case r of Inl n \<Rightarrow> Some n | Inr _ \<Rightarrow> None)"

abbreviation first_missing :: "(string \<times> bool) list \<Rightarrow> string option" where
  "first_missing ss \<equiv> map_option fst (find (\<lambda>p. \<not> snd p) ss)"

lemma first_missing_None: "first_missing ss = None \<longleftrightarrow> list_all snd ss"
  by (induction ss) auto

lemma dlsym_load_missing:
  "(\<And>g. missing (k g) = first_missing ss) \<Longrightarrow>
   missing (dlsym_load f nm k) = first_missing ((nm, f \<noteq> None) # ss)"
  by (simp add: dlsym_load_def split: option.splits)

lemma dlsym_load_post: "(\<And>g. pred_sum top P (k g)) \<Longrightarrow> pred_sum top P (dlsym_load f nm k)"
  by (simp add: dlsym_load_def split: option.splits)

lemma load_functions_missing: "missing (load_functions L) = first_missing (required_symbols L)"
  unfolding load_functions_def required_symbols_def by (rule dlsym_load_missing)+ simp

lemma load_functions_post:
  "pred_sum top (\<lambda>F. fn_reg_dmabuf_mr F = sym_reg_dmabuf_mr L \<and> fn_poll_cq F = sym_poll_cq L \<and>
       fn_post_send F = sym_post_send L) (load_functions L)"
  unfolding load_functions_def by (rule dlsym_load_post)+ (simp add: dlsym_load_optional_def)

lemma load_functions_optional:
  "load_functions L = Inr F \<Longrightarrow>
   fn_reg_dmabuf_mr F = sym_reg_dmabuf_mr L \<and> fn_poll_cq F = sym_poll_cq L \<and> fn_post_send F = sym_post_send L"
  using load_functions_post [of L] by simp

text \<open>Loading libibverbs stops at the first required symbol that is missing and reports that
  one; it succeeds exactly when every required symbol is there, and then the dmabuf support that
  the seam reports is whether the library has \<^verbatim>\<open>ibv_reg_dmabuf_mr\<close>, polling and posting fall back to the
  provider's entries when \<^verbatim>\<open>ibv_poll_cq\<close> and \<^verbatim>\<open>ibv_post_send\<close> are absent, and without dmabuf support a dmabuf registration
  fails without changing anything.\<close>

theorem load_functions_contract:
  "case load_functions L of
     Inl n \<Rightarrow> first_missing (required_symbols L) = Some n \<and>
              loadLibibverbs ops (Some L) = None
   | Inr F \<Rightarrow> list_all snd (required_symbols L) \<and>
              loadLibibverbs ops (Some L) = Some (LoadedVerbs ops F) \<and>
              v_supportsDmabuf (LoadedVerbs ops F) = (sym_reg_dmabuf_mr L \<noteq> None) \<and>
              v_poll_cq (LoadedVerbs ops F) = (case sym_poll_cq L of Some f \<Rightarrow> f | None \<Rightarrow> ops) \<and>
              LoadedVerbs_post_send ops_send F = (case sym_post_send L of Some f \<Rightarrow> f | None \<Rightarrow> ops_send) \<and>
              (v_supportsDmabuf (LoadedVerbs ops F) \<or>
               (\<forall>pd off len iova fd acc e.
                  run_state (v_reg_dmabuf_mr (LoadedVerbs ops F) pd off len iova fd acc) e = (None, e)))"
proof (cases "load_functions L")
  case (Inl n)
  then show ?thesis
    using load_functions_missing [of L] by (simp add: loadLibibverbs_def)
next
  case (Inr F)
  have "list_all snd (required_symbols L)"
    using load_functions_missing [of L] Inr first_missing_None [of "required_symbols L"] by simp
  moreover have "v_poll_cq (LoadedVerbs ops F) = (case sym_poll_cq L of Some f \<Rightarrow> f | None \<Rightarrow> ops)"
    using load_functions_optional [OF Inr]
    by (auto simp: LoadedVerbs_def LoadedVerbs_poll_cq_def fun_eq_iff split: option.splits)
  moreover have "LoadedVerbs_post_send ops_send F = (case sym_post_send L of Some f \<Rightarrow> f | None \<Rightarrow> ops_send)"
    using load_functions_optional [OF Inr]
    by (auto simp: LoadedVerbs_post_send_def fun_eq_iff split: option.splits)
  ultimately show ?thesis
    using load_functions_optional [OF Inr] Inr
    by (auto simp: loadLibibverbs_def LoadedVerbs_def LoadedVerbs_supportsDmabuf_def
        LoadedVerbs_reg_dmabuf_mr_def split: option.splits)
qed

end
