(* ===== verification/Library_State.thy ===== *)
theory Library_State
  imports Pool Abandoned Ibv_Wrapper
begin

text \<open>
  The library's state, from \<^verbatim>\<open>src/state.h\<close> and \<^verbatim>\<open>src/state.cpp\<close>: the options read from the environment
  variables, the platform, the instance that \<^verbatim>\<open>hipObjInit\<close> builds and \<^verbatim>\<open>hipObjShutdown\<close> gives up,
  and the process-wide state that holds it.

  An instance lives in a \<^verbatim>\<open>shared_ptr\<close>: the current one is held by the library, and every call in
  progress holds a reference to the one it started with, which is destroyed with the last of them.
  So \<open>sys\<close> has a heap of instances with use counts, next to the current instance, the world, the
  calling thread's count of leases and the tokens that have been handed out. Initialization and
  shutdown hold one mutex for their whole length, so each of them is one step here.
\<close>

subsection \<open>Options\<close>

text \<open>Durations are in milliseconds.\<close>

record Options =
  stageTimeout :: int
  pollTimeout :: int
  maxTransfers :: size_t
  opt_requireGpuDirect :: bool
  opt_dmabuf :: DmabufPolicy

definition kDefaultStageTimeout :: int where "kDefaultStageTimeout = 30 * 1000"
definition kDefaultPollTimeout :: int where "kDefaultPollTimeout = 5 * 1000"
definition kDefaultMaxTransfers :: size_t where "kDefaultMaxTransfers = 16"
definition kMaxStageTimeout :: int where "kMaxStageTimeout = 24 * 60 * 60 * 1000"
definition kMaxTransfers :: size_t where "kMaxTransfers = 1024"

lemmas option_limits = kDefaultStageTimeout_def kDefaultPollTimeout_def kDefaultMaxTransfers_def
  kMaxStageTimeout_def kMaxTransfers_def

definition defaultOptions :: Options where
  "defaultOptions =
     \<lparr>stageTimeout = kDefaultStageTimeout, pollTimeout = kDefaultPollTimeout, maxTransfers = kDefaultMaxTransfers,
      opt_requireGpuDirect = False, opt_dmabuf = \<lparr>dmabuf_enabled = True, dmabuf_debug = False\<rparr>\<rparr>"

type_synonym EnvLookup = "string \<Rightarrow> string option"

definition lookupValue :: "EnvLookup \<Rightarrow> string \<Rightarrow> string" where
  "lookupValue lookup name = (case lookup name of None \<Rightarrow> [] | Some v \<Rightarrow> cStringViewAll v)"

definition startsWithOneOf :: "string \<Rightarrow> string \<Rightarrow> bool" where
  "startsWithOneOf text chars \<longleftrightarrow> text \<noteq> [] \<and> hd text \<in> set chars"

definition parseOptions :: "EnvLookup \<Rightarrow> Options" where
  "parseOptions lookup =
     (let options = defaultOptions;
          options = (case parseNumber int64_t (lookupValue lookup ''HIPOBJ_STAGE_TIMEOUT_MS'') kDefaultNumberBase of
              None \<Rightarrow> options
            | Some n \<Rightarrow> if n > 0 \<and> n \<le> kMaxStageTimeout then options\<lparr>stageTimeout := n\<rparr> else options);
          options = (case parseNumber uint64_t (lookupValue lookup ''HIPOBJ_MAX_TRANSFERS'') kDefaultNumberBase of
              None \<Rightarrow> options
            | Some n \<Rightarrow> if n > 0 \<and> n \<le> uint kMaxTransfers then options\<lparr>maxTransfers := word_of_int n\<rparr> else options);
          require = lookupValue lookup ''HIPOBJ_REQUIRE_GPU_DIRECT'';
          options = options\<lparr>opt_requireGpuDirect := require \<noteq> [] \<and> \<not> startsWithOneOf require ''0nN''\<rparr>;
          debug = lookupValue lookup ''HIPOBJ_RDMA_DEBUG''
      in options\<lparr>opt_dmabuf :=
           \<lparr>dmabuf_enabled = \<not> startsWithOneOf (lookupValue lookup ''HIPOBJ_DMABUF'') ''0nN'',
            dmabuf_debug = debug \<noteq> [] \<and> \<not> (hd debug = CHR ''0'')\<rparr>\<rparr>)"

subsection \<open>The system's platform\<close>

text \<open>
  What the production platform is built from: what \<^verbatim>\<open>dlopen\<close> finds, the provider's poll entry, sysfs,
  the HIP runtime and the clock. \<^verbatim>\<open>systemPlatform\<close> builds it once and returns the same one from then
  on, so it is a value of the model.
\<close>

definition makeSystemPlatform ::
  "'e Libibverbs option \<Rightarrow> (ibv_cq \<Rightarrow> ('e, int \<times> ibv_wc) state) \<Rightarrow> 'e HipRuntime \<Rightarrow> 'e Sysfs \<Rightarrow>
   ('e, int) state \<Rightarrow> (int \<Rightarrow> ('e, unit) state) \<Rightarrow> 'e Platform option" where
  "makeSystemPlatform lib ops_poll_cq H S now_fn sleep_fn =
     (case loadLibibverbs ops_poll_cq lib of
        None \<Rightarrow> None
      | Some V \<Rightarrow> Some \<lparr>hip = H, verbs = V, topology = SysfsTopology V S, steady_now = now_fn, sleep_for = sleep_fn\<rparr>)"

subsection \<open>Instances\<close>

record ResolvedConfig =
  resolved_gpuDevice :: int
  resolved_nicHint :: string
  resolved_nicIndex :: int

text \<open>\<open>inst_heap\<close> holds the registrations that \<^verbatim>\<open>buffers\<close> and the calls in progress refer to.\<close>

record Instance =
  inst_options :: Options
  inst_config :: ResolvedConfig
  inst_device :: RdmaDevice
  inst_tokenConn :: RcConnection
  inst_pool :: ConnectionPool
  inst_buffers :: BufferMap
  inst_heap :: entry_heap
  inst_abandoned :: AbandonedCopies

definition newInstance ::
  "'e Platform \<Rightarrow> Options \<Rightarrow> ResolvedConfig \<Rightarrow> RdmaDevice \<Rightarrow> RcConnection \<Rightarrow> ('e world, Instance) state" where
  "newInstance P options config d conn = do {
     p \<leftarrow> newConnectionPool (verbs P) d (unat (maxTransfers options));
     State_Monad.return \<lparr>inst_options = options, inst_config = config, inst_device = d, inst_tokenConn = conn,
       inst_pool = p,
       inst_buffers = \<lparr>entries = [], policy = opt_dmabuf options, requireGpuDirect = opt_requireGpuDirect options\<rparr>,
       inst_heap = [], inst_abandoned = newAbandonedCopies\<rparr>
   }"

text \<open>The members are destroyed in reverse order; the pool's share of the device goes with the pool.\<close>

definition destroyInstance :: "'e Platform \<Rightarrow> Instance \<Rightarrow> ('e world, unit) state" where
  "destroyInstance P inst = do {
     h \<leftarrow> destroyAbandonedCopies (verbs P) (hip P) (inst_abandoned inst) (inst_heap inst);
     _ \<leftarrow> destroyBufferMap (verbs P) (hip P) (inst_buffers inst) h;
     _ \<leftarrow> destroyConnectionPool (verbs P) (inst_pool inst);
     _ \<leftarrow> destroyRcConnection (verbs P) (inst_tokenConn inst);
     destroyRdmaDevice (verbs P) (inst_device inst)
   }"

subsection \<open>The library's state\<close>

record 'e sys =
  sys_world :: "'e world"
  instances :: "Instance shared_heap"
  current :: "nat option"
  leasesHeld :: nat
  tokens :: "string option list"

definition liftW :: "('e world, 'a) state \<Rightarrow> ('e sys, 'a) state" where
  "liftW m = State (\<lambda>s. case run_state m (sys_world s) of (a, w) \<Rightarrow> (a, s\<lparr>sys_world := w\<rparr>))"

text \<open>The result is a new reference, which counts.\<close>

definition currentInstance :: "('e sys, nat option) state" where
  "currentInstance = State (\<lambda>s. case current s of
     None \<Rightarrow> (None, s)
   | Some i \<Rightarrow> (Some i, s\<lparr>instances := copy_ref i (instances s)\<rparr>))"

definition drop_instance :: "'e Platform \<Rightarrow> nat \<Rightarrow> ('e sys, unit) state" where
  "drop_instance P i = do {
     s \<leftarrow> State_Monad.get;
     case entry_at (instances s) i of
       None \<Rightarrow> State_Monad.return ()
     | Some (inst, n) \<Rightarrow>
         if n > 1 then State_Monad.set (s\<lparr>instances := (instances s)[i := Some (inst, n - 1)]\<rparr>)
         else do {
           _ \<leftarrow> State_Monad.set (s\<lparr>instances := (instances s)[i := None]\<rparr>);
           liftW (destroyInstance P inst)
         }
   }"

text \<open>Running an operation on the instance that a reference names, which changes it in place.\<close>

definition onInstance :: "nat \<Rightarrow> (Instance \<Rightarrow> ('e world, 'a \<times> Instance) state) \<Rightarrow> ('e sys, 'a) state" where
  "onInstance i f = State (\<lambda>s. case the (entry_at (instances s) i) of (inst, n) \<Rightarrow>
     case run_state (f inst) (sys_world s) of ((a, inst'), w) \<Rightarrow>
       (a, s\<lparr>sys_world := w, instances := (instances s)[i := Some (inst', n)]\<rparr>))"

definition shutdownInstance :: "'e Platform \<Rightarrow> ('e sys, unit) state" where
  "shutdownInstance P = do {
     s \<leftarrow> State_Monad.get;
     case current s of
       None \<Rightarrow> State_Monad.return ()
     | Some i \<Rightarrow> do {
         _ \<leftarrow> State_Monad.set (s\<lparr>current := None\<rparr>);
         _ \<leftarrow> onInstance i (\<lambda>inst. State_Monad.return ((), inst\<lparr>inst_pool := close_pool (inst_pool inst)\<rparr>));
         drop_instance P i
       }
   }"

subsection \<open>Initialization\<close>

record hipObjConfig_t =
  endpoint :: "string option"
  region :: "string option"
  accessKey :: "string option"
  secretKey :: "string option"
  config_flags :: u32
  config_gpuDevice :: int
  config_nicHint :: "string option"

text \<open>The GPU: the current device for a negative index, and otherwise one that has to exist.\<close>

definition chooseGpu :: "'e HipRuntime \<Rightarrow> int \<Rightarrow> bool \<Rightarrow> ('e world, hipObjError_t + int) state" where
  "chooseGpu H gpuDevice haveNicHint =
     (if gpuDevice < 0
      then do {
        r \<leftarrow> liftE (hip_getDevice H);
        if fst r \<noteq> hipSuccess
        then if fst r \<noteq> hipErrorNoDevice \<or> \<not> haveNicHint
             then State_Monad.return (Inl (makeError hipObjRdmaError (hipErrorInt (fst r))))
             else State_Monad.return (Inr (-1))
        else State_Monad.return (Inr (snd r))
      }
      else do {
        r \<leftarrow> liftE (hip_getDeviceCount H);
        if fst r \<noteq> hipErrorNoDevice \<and> fst r \<noteq> hipSuccess
        then State_Monad.return (Inl (makeError hipObjRdmaError (hipErrorInt (fst r))))
        else if gpuDevice \<ge> (if fst r = hipErrorNoDevice then 0 else snd r)
        then State_Monad.return (Inl (mkError hipObjInvalidValue))
        else State_Monad.return (Inr gpuDevice)
      })"

definition chooseNic ::
  "'e Platform \<Rightarrow> int \<Rightarrow> string \<Rightarrow> ('e world, RdmaNic option) state" where
  "chooseNic P gpuDevice nicHint = do {
     nic \<leftarrow> (if gpuDevice \<ge> 0 then GetClosestNicToGpu (hip P) (topology P) gpuDevice nicHint
            else State_Monad.return None);
     State_Monad.return (case nic of
         Some n \<Rightarrow> Some n
       | None \<Rightarrow> if nicHint \<noteq> [] then Some \<lparr>nic_index = 0, nic_name = nicHint\<rparr> else None)
   }"

text \<open>What \<^verbatim>\<open>initWith\<close> builds in locals, which release what they hold when a step fails.\<close>

definition buildInstance ::
  "'e Platform \<Rightarrow> hipObjConfig_t \<Rightarrow> Options \<Rightarrow> ('e world, hipObjError_t + Instance) state" where
  "buildInstance P config options = do {
     let nicHint = (case config_nicHint config of None \<Rightarrow> [] | Some h \<Rightarrow> cStringViewAll h);
     gpu \<leftarrow> chooseGpu (hip P) (config_gpuDevice config) (nicHint \<noteq> []);
     case gpu of
       Inl err \<Rightarrow> State_Monad.return (Inl err)
     | Inr gpuDevice \<Rightarrow> do {
         onic \<leftarrow> chooseNic P gpuDevice nicHint;
         case onic of
           None \<Rightarrow> State_Monad.return (Inl (mkError hipObjNicNotFound))
         | Some nic \<Rightarrow> do {
             opened \<leftarrow> openRdmaDeviceByName (verbs P) (topology P) (nic_name nic);
             case opened of
               None \<Rightarrow> State_Monad.return (Inl (mkError hipObjRdmaError))
             | Some d \<Rightarrow> do {
                 tokenConn \<leftarrow> createRcConnection (verbs P) d kCqSize kMaxSendWr kMaxRecvWr;
                 case tokenConn of
                   None \<Rightarrow> do { _ \<leftarrow> destroyRdmaDevice (verbs P) d; State_Monad.return (Inl (mkError hipObjRdmaError)) }
                 | Some conn \<Rightarrow> do {
                     inst \<leftarrow> newInstance P options
                       \<lparr>resolved_gpuDevice = gpuDevice, resolved_nicHint = nicHint, resolved_nicIndex = nic_index nic\<rparr> d conn;
                     if pool_size (inst_pool inst) \<noteq> unat (maxTransfers options)
                     then do { _ \<leftarrow> destroyInstance P inst; State_Monad.return (Inl (mkError hipObjRdmaError)) }
                     else State_Monad.return (Inr inst)
                   }
               }
           }
       }
   }"

definition initWith :: "'e Platform \<Rightarrow> hipObjConfig_t \<Rightarrow> Options \<Rightarrow> ('e sys, hipObjError_t) state" where
  "initWith P config options = do {
     s \<leftarrow> State_Monad.get;
     if current s \<noteq> None then State_Monad.return (mkError hipObjAlreadyInitialized)
     else do {
       r \<leftarrow> liftW (buildInstance P config options);
       case r of
         Inl err \<Rightarrow> State_Monad.return err
       | Inr inst \<Rightarrow> do {
           s' \<leftarrow> State_Monad.get;
           _ \<leftarrow> (case make_shared inst (instances s') of (i, h) \<Rightarrow>
                  State_Monad.set (s'\<lparr>instances := h, current := Some i\<rparr>));
           State_Monad.return (mkError hipObjSuccess)
         }
     }
   }"

subsection \<open>What the options can be\<close>

lemma parseOptions_bounds:
  "0 < stageTimeout (parseOptions lookup)" "stageTimeout (parseOptions lookup) \<le> kMaxStageTimeout"
  "pollTimeout (parseOptions lookup) = kDefaultPollTimeout"
  "0 < maxTransfers (parseOptions lookup)" "maxTransfers (parseOptions lookup) \<le> kMaxTransfers"
proof -
  have "0 < (word_of_int n :: u64) \<and> word_of_int n \<le> kMaxTransfers" if "0 < n" "n \<le> uint kMaxTransfers" for n
  proof -
    have n: "n < 2 ^ 64"
      using that(2) by (simp add: kMaxTransfers_def)
    then have "uint (word_of_int n :: u64) = n"
      using that(1) by (simp add: uint_word_of_int)
    then show ?thesis
      using that by (simp add: word_less_def word_le_def)
  qed
  then show "0 < maxTransfers (parseOptions lookup)" "maxTransfers (parseOptions lookup) \<le> kMaxTransfers"
    by (auto simp: parseOptions_def Let_def defaultOptions_def kDefaultMaxTransfers_def kMaxTransfers_def
        split: option.splits)
  show "0 < stageTimeout (parseOptions lookup)" "stageTimeout (parseOptions lookup) \<le> kMaxStageTimeout"
    "pollTimeout (parseOptions lookup) = kDefaultPollTimeout"
    by (auto simp: parseOptions_def Let_def defaultOptions_def kDefaultStageTimeout_def kMaxStageTimeout_def
        split: option.splits)
qed

lemma lookupValue_to_string:
  assumes "lookup name = Some (to_string n)"
  shows "lookupValue lookup name = to_string n"
proof -
  have "\<not> is_base_digit 10 NUL"
    by (simp add: NUL_def is_base_digit_def digit_value_def)
  then have nat: "c \<noteq> NUL" if "c \<in> set (show_nat k)" for c k
    using that show_nat_digits [of k] by blast
  have "\<forall>c\<in>set (to_string n). c \<noteq> NUL"
    using nat unfolding to_string_def by (cases "n < 0") (auto simp: NUL_def)
  then show ?thesis
    using assms by (simp add: lookupValue_def cStringViewAll_def cStringView_def)
qed

subsection \<open>Instances\<close>

lemma wp_liftW [simp]: "wp (liftW m) Q s \<longleftrightarrow> wp m (\<lambda>a w. Q a (s\<lparr>sys_world := w\<rparr>)) (sys_world s)"
  by (simp add: wp_def liftW_def split: prod.splits)

definition instance_resources :: "Instance \<Rightarrow> resource multiset" where
  "instance_resources inst =
     device_resources (inst_device inst) + connection_resources (inst_tokenConn inst) +
     slots_resources (slots (inst_pool inst)) + copy_events (copies (inst_abandoned inst)) +
     heap_resources (inst_heap inst)"

definition inst_qps :: "Instance \<Rightarrow> nat list" where
  "inst_qps inst = qp_id (inst_tokenConn inst) # map qp_id (connections (slots (inst_pool inst)))"

text \<open>
  The invariant of an instance: \<open>R\<close> counts the references to its registrations that calls in progress
  hold, and \<open>Ls\<close> are their leases. The token connection stays in INIT.
\<close>

definition inst_ok :: "(nat \<Rightarrow> nat) \<Rightarrow> Lease list \<Rightarrow> Instance \<Rightarrow> 'e world \<Rightarrow> bool" where
  "inst_ok R Ls inst w \<longleftrightarrow>
     room_ok (inst_abandoned inst) \<and>
     buf_inv (with_copies R (copies (inst_abandoned inst))) (inst_buffers inst) (inst_heap inst) \<and>
     pool_shape Ls (inst_pool inst) \<and> pool_conns Ls (inst_pool inst) w \<and>
     conn_state (inst_tokenConn inst) w = Some IBV_QPS_INIT \<and>
     distinct (inst_qps inst) \<and> (\<forall>n\<in>set (inst_qps inst). n < serial w)"

definition inst_inv ::
  "(nat \<Rightarrow> nat) \<Rightarrow> Lease list \<Rightarrow> Instance \<Rightarrow> resource multiset option \<Rightarrow> 'e world \<Rightarrow> bool" where
  "inst_inv R Ls inst L w \<longleftrightarrow> inst_ok R Ls inst w \<and> live (log w) = adds (instance_resources inst) L \<and> legal_log (log w)"

text \<open>What an operation on one instance leaves alone of the others.\<close>

definition inst_frame :: "Instance \<Rightarrow> 'e world \<Rightarrow> Instance \<Rightarrow> 'e world \<Rightarrow> bool" where
  "inst_frame inst w inst' w' \<longleftrightarrow> qp_frame (set (inst_qps inst)) w w' \<and>
     (\<forall>n\<in>set (inst_qps inst'). n \<in> set (inst_qps inst) \<or> serial w \<le> n)"

lemma wp_newInstance:
  assumes "legal_log (log w)" "live (log w) = adds (device_resources d + connection_resources c) L"
    and "conn_state c w = Some IBV_QPS_INIT" "qp_id c < serial w"
  shows "wp (newInstance P opts cfg d c) (\<lambda>inst w'. inst_inv (\<lambda>_. 0) [] inst L w' \<and> qp_frame {} w w' \<and>
           inst_options inst = opts \<and> (\<forall>n\<in>set (inst_qps inst). n = qp_id c \<or> serial w \<le> n) \<and>
           inst_tokenConn inst = c \<and> inst_device inst = d \<and> inst_config inst = cfg \<and>
           pool_device (inst_pool inst) = d \<and> \<not> closed (inst_pool inst) \<and>
           available (inst_pool inst) = pool_size (inst_pool inst) \<and>
           entries (inst_buffers inst) = [] \<and> copies (inst_abandoned inst) = []) w"
  unfolding newInstance_def wp_bind_iff
proof (rule wp_conseq [OF wp_newConnectionPool [OF assms(1)]])
  fix p and w' :: "'a world"
  let ?bufs = "\<lparr>entries = [], policy = opt_dmabuf opts, requireGpuDirect = opt_requireGpuDirect opts\<rparr>"
  let ?inst = "\<lparr>inst_options = opts, inst_config = cfg, inst_device = d, inst_tokenConn = c, inst_pool = p,
       inst_buffers = ?bufs, inst_heap = [], inst_abandoned = newAbandonedCopies\<rparr>"
  assume *: "pool_inv [] p (live (log w)) w' \<and> qp_frame {} w w' \<and> pool_device p = d \<and>
     length (slots p) \<le> unat (maxTransfers opts) \<and> \<not> closed p \<and> pool_size p = available p \<and>
     (\<forall>c\<in>set (connections (slots p)). serial w \<le> qp_id c)"
  have buf: "buf_inv (\<lambda>_. 0) ?bufs []"
    by (rule buf_inv_empty) simp
  have "conn_state c w' = Some IBV_QPS_INIT" "qp_id c < serial w'"
    using * assms(3,4) by (auto simp: qp_frame_def)
  moreover have "qp_id c \<notin> qp_id ` set (connections (slots p))"
    using * assms(4) by auto
  ultimately have ok: "inst_ok (\<lambda>_. 0) [] ?inst w'"
    using * buf by (auto simp: inst_ok_def inst_qps_def pool_inv_def pool_conns_def room_ok_def newAbandonedCopies_def)
  have "live (log w') = adds (instance_resources ?inst) L"
    using * assms(2) by (simp add: pool_inv_def instance_resources_def newAbandonedCopies_def ac_simps)
  then show "wp (State_Monad.return ?inst) (\<lambda>inst w'. inst_inv (\<lambda>_. 0) [] inst L w' \<and> qp_frame {} w w' \<and>
           inst_options inst = opts \<and> (\<forall>n\<in>set (inst_qps inst). n = qp_id c \<or> serial w \<le> n) \<and>
           inst_tokenConn inst = c \<and> inst_device inst = d \<and> inst_config inst = cfg \<and>
           pool_device (inst_pool inst) = d \<and> \<not> closed (inst_pool inst) \<and>
           available (inst_pool inst) = pool_size (inst_pool inst) \<and>
           entries (inst_buffers inst) = [] \<and> copies (inst_abandoned inst) = []) w'"
    using * ok by (auto simp: inst_inv_def inst_qps_def pool_inv_def newAbandonedCopies_def)
qed

lemma leaked_from_split:
  assumes "leaked_from (adds X L) L'"
  shows "\<exists>L''. L' = adds X L'' \<and> leaked_from L L'' \<and> (L' = adds X L \<longrightarrow> L'' = L)"
proof (cases "L' = adds X L")
  case False
  obtain K where "L' = adds X (adds K L)" "\<forall>r\<in>#K. leakable r"
    using assms by (auto simp: leaked_from_def add.commute)
  then show ?thesis
    using False leaked_from_adds by blast
qed auto

text \<open>Destroying an instance nobody uses releases all it owns but what running copies may still use.\<close>

lemma wp_destroyInstance:
  assumes "inst_inv (\<lambda>_. 0) [] inst L w"
  shows "wp (destroyInstance P inst) (\<lambda>_ w'. qps_same w w' \<and>
           (\<exists>L'. live (log w') = L' \<and> leaked_from L L' \<and> (copies (inst_abandoned inst) = [] \<longrightarrow> L' = L))) w"
proof -
  let ?V = "verbs P" and ?H = "hip P"
  let ?dev = "device_resources (inst_device inst)" and ?conn = "connection_resources (inst_tokenConn inst)"
  let ?slots = "slots_resources (slots (inst_pool inst))"
  have ab: "ab_inv (\<lambda>_. 0) (inst_abandoned inst) (inst_buffers inst) (inst_heap inst) (adds (?slots + ?conn + ?dev) L) w"
    using assms by (simp add: inst_inv_def inst_ok_def ab_inv_def instance_resources_def ac_simps)
  have last: "wp (do { _ \<leftarrow> destroyRcConnection ?V (inst_tokenConn inst); destroyRdmaDevice ?V (inst_device inst) })
      (\<lambda>_ w2. live (log w2) = L' \<and> qps_same w w2) w1" if "live (log w1) = adds (?conn + ?dev) L'" "qps_same w w1" for w1 L'
    using that by (auto intro!: wp_destroyRcConnection wp_destroyRdmaDevice
        simp: connection_resources_def device_resources_def qps_same_def)
  have pool: "wp (do { _ \<leftarrow> destroyConnectionPool ?V (inst_pool inst); _ \<leftarrow> destroyRcConnection ?V (inst_tokenConn inst);
        destroyRdmaDevice ?V (inst_device inst) }) (\<lambda>_ w2. live (log w2) = L' \<and> qps_same w w2) w1"
    if "live (log w1) = adds (?slots + ?conn + ?dev) L'" "qps_same w w1" for w1 L'
    unfolding destroyConnectionPool_def wp_bind_iff [of "destroySlots ?V (slots (inst_pool inst))"]
    by (rule wp_conseq [OF wp_destroySlots [where L = "adds (?conn + ?dev) L'"]])
       (use that in \<open>auto simp: add.assoc simp del: wp_bind_iff intro!: last dest: qps_same_trans\<close>)
  have rest: "wp (do { _ \<leftarrow> destroyBufferMap ?V ?H (inst_buffers inst) h; _ \<leftarrow> destroyConnectionPool ?V (inst_pool inst);
        _ \<leftarrow> destroyRcConnection ?V (inst_tokenConn inst); destroyRdmaDevice ?V (inst_device inst) })
      (\<lambda>_ w2. live (log w2) = L' \<and> qps_same w w2) w1"
    if "buf_inv (\<lambda>_. 0) (inst_buffers inst) h" "live (log w1) = adds (heap_resources h) (adds (?slots + ?conn + ?dev) L')"
      "qps_same w w1" for h w1 L'
    unfolding wp_bind_iff [of "destroyBufferMap ?V ?H (inst_buffers inst) h"]
    by (rule wp_conseq [OF wp_destroyBufferMap [OF that(1,2)]])
       (use that in \<open>auto simp del: wp_bind_iff intro!: pool dest: qps_same_trans\<close>)
  show ?thesis
    unfolding destroyInstance_def
      wp_bind_iff [of "destroyAbandonedCopies ?V ?H (inst_abandoned inst) (inst_heap inst)"]
  proof (rule wp_conseq [OF wp_destroyAbandonedCopies [OF ab]])
    fix h w'
    assume *: "buf_inv (\<lambda>_. 0) (inst_buffers inst) h \<and> length h = length (inst_heap inst) \<and> qps_same w w' \<and>
      (\<exists>L'. live (log w') = adds (heap_resources h) L' \<and> leaked_from (adds (?slots + ?conn + ?dev) L) L' \<and>
            (copies (inst_abandoned inst) = [] \<longrightarrow> L' = adds (?slots + ?conn + ?dev) L))"
    then obtain L' where "live (log w') = adds (heap_resources h) (adds (?slots + ?conn + ?dev) L')"
        "leaked_from L L'" "copies (inst_abandoned inst) = [] \<longrightarrow> L' = L"
      using leaked_from_split by metis
    then show "wp (do { _ \<leftarrow> destroyBufferMap ?V ?H (inst_buffers inst) h; _ \<leftarrow> destroyConnectionPool ?V (inst_pool inst);
        _ \<leftarrow> destroyRcConnection ?V (inst_tokenConn inst); destroyRdmaDevice ?V (inst_device inst) })
      (\<lambda>_ w'. qps_same w w' \<and> (\<exists>L'. live (log w') = L' \<and> leaked_from L L' \<and>
         (copies (inst_abandoned inst) = [] \<longrightarrow> L' = L))) w'"
      using * by (intro wp_conseq [OF rest]) auto
  qed
qed

subsection \<open>Building an instance\<close>

lemma wp_chooseGpu: "wp (chooseGpu H gpu hint) (\<lambda>r w'. log w' = log w \<and> serial w' = serial w \<and>
    (\<forall>err. r = Inl err \<longrightarrow> opError err \<in> {hipObjRdmaError, hipObjInvalidValue})) w"
  unfolding chooseGpu_def by (auto intro!: wp_liftE)

lemma wp_chooseNic:
  assumes "topology_ok (topology P)"
  shows "wp (chooseNic P gpu hint) (\<lambda>r w'. live (log w') = live (log w) \<and> qps_same w w' \<and>
           (hint \<noteq> [] \<longrightarrow> r \<noteq> None)) w"
  unfolding chooseNic_def
  by (auto intro!: wp_GetClosestNicToGpu [OF assms] split: option.splits)

text \<open>What building an instance guarantees: nothing is left behind by a failure.\<close>

definition built :: "Options \<Rightarrow> 'e world \<Rightarrow> hipObjError_t + Instance \<Rightarrow> 'e world \<Rightarrow> bool" where
  "built opts w r w' \<longleftrightarrow>
     (case r of
        Inl err \<Rightarrow> live (log w') = live (log w) \<and> qps_same w w' \<and>
          opError err \<in> {hipObjRdmaError, hipObjInvalidValue, hipObjNicNotFound}
      | Inr inst \<Rightarrow> inst_inv (\<lambda>_. 0) [] inst (live (log w)) w' \<and> qp_frame {} w w' \<and>
          (\<forall>n\<in>set (inst_qps inst). serial w \<le> n) \<and> inst_options inst = opts \<and>
          pool_size (inst_pool inst) = unat (maxTransfers opts) \<and>
          available (inst_pool inst) = unat (maxTransfers opts) \<and> \<not> closed (inst_pool inst) \<and>
          entries (inst_buffers inst) = [] \<and> copies (inst_abandoned inst) = [])"

lemma qps_same_frame: "qps_same w w' \<longleftrightarrow> qp_frame {} w w' \<and> (legal_log (log w) \<longrightarrow> legal_log (log w'))"
  by (simp add: qps_same_def qp_frame_def)

lemma wp_finishBuild:
  assumes legal: "legal_log (log w1)" and same: "qps_same w w1" and live1: "live (log w1) = adds (device_resources d) (live (log w))"
    and created: "created d w1 (Some c) w2"
  shows "wp (do { inst \<leftarrow> newInstance P opts cfg d c;
                  if pool_size (inst_pool inst) \<noteq> unat (maxTransfers opts)
                  then do { _ \<leftarrow> destroyInstance P inst; State_Monad.return (Inl (mkError hipObjRdmaError)) }
                  else State_Monad.return (Inr inst) }) (built opts w) w2"
proof -
  have pre: "legal_log (log w2)" "live (log w2) = adds (device_resources d + connection_resources c) (live (log w))"
      "conn_state c w2 = Some IBV_QPS_INIT" "qp_id c < serial w2" "serial w \<le> qp_id c" "qp_frame {} w w2"
    using legal same live1 created qp_frame_trans
    by (auto simp: created_def qps_same_frame add.commute) (simp add: qp_frame_def)
  have destroyed: "wp (do { _ \<leftarrow> destroyInstance P inst; State_Monad.return (Inl (mkError hipObjRdmaError)) }) (built opts w) w3"
    if "inst_inv (\<lambda>_. 0) [] inst (live (log w)) w3" "copies (inst_abandoned inst) = []" "qp_frame {} w w3" for inst w3
  proof -
    have "legal_log (log w3)"
      using that(1) by (simp add: inst_inv_def)
    then show ?thesis
      unfolding wp_bind_iff
      by (intro wp_conseq [OF wp_destroyInstance [OF that(1)]])
         (use that in \<open>auto simp: built_def qps_same_frame dest: qp_frame_trans\<close>)
  qed
  show ?thesis
    unfolding wp_bind_iff [of "newInstance P opts cfg d c"]
  proof (rule wp_conseq [OF wp_newInstance [OF pre(1-4)]])
    fix inst w3
    assume *: "inst_inv (\<lambda>_. 0) [] inst (live (log w)) w3 \<and> qp_frame {} w2 w3 \<and>
           inst_options inst = opts \<and> (\<forall>n\<in>set (inst_qps inst). n = qp_id c \<or> serial w2 \<le> n) \<and>
           inst_tokenConn inst = c \<and> inst_device inst = d \<and> inst_config inst = cfg \<and>
           pool_device (inst_pool inst) = d \<and> \<not> closed (inst_pool inst) \<and>
           available (inst_pool inst) = pool_size (inst_pool inst) \<and>
           entries (inst_buffers inst) = [] \<and> copies (inst_abandoned inst) = []"
    then have frame: "qp_frame {} w w3" and fresh: "\<forall>n\<in>set (inst_qps inst). serial w \<le> n"
      using pre(5,6) qp_frame_trans by (blast, fastforce simp: qp_frame_def)
    show "wp (if pool_size (inst_pool inst) \<noteq> unat (maxTransfers opts)
          then do { _ \<leftarrow> destroyInstance P inst; State_Monad.return (Inl (mkError hipObjRdmaError)) }
          else State_Monad.return (Inr inst)) (built opts w) w3"
      using * frame fresh destroyed [of inst w3] by (simp add: built_def)
  qed
qed

lemma wp_buildInstance:
  assumes "topology_ok (topology P)" "legal_log (log w)"
  shows "wp (buildInstance P cfg opts) (built opts w) w"
proof -
  have failed: "built opts w (Inl err) w'"
    if "live (log w') = live (log w)" "qps_same w w'" "opError err \<in> {hipObjRdmaError, hipObjInvalidValue, hipObjNicNotFound}"
    for err w'
    using that by (simp add: built_def)
  have no_conn: "built opts w (Inl (mkError hipObjRdmaError))
      (w2\<lparr>env := e, log := log w2 @ [Release (Pd (pd_serial (dev_pd d))), Release (Context (ctx_serial (dev_ctx d)))]\<rparr>)"
    if "created d w1 None w2" "live (log w1) = adds (device_resources d) (live (log w))" "qps_same w w1" for w1 w2 d e
    using that by (intro failed) (auto simp: created_def device_resources_def qps_same_def qp_frame_def)
  have opened: "wp (do { tokenConn \<leftarrow> createRcConnection (verbs P) d kCqSize kMaxSendWr kMaxRecvWr;
        case tokenConn of
          None \<Rightarrow> do { _ \<leftarrow> destroyRdmaDevice (verbs P) d; State_Monad.return (Inl (mkError hipObjRdmaError)) }
        | Some c \<Rightarrow> do { inst \<leftarrow> newInstance P opts cfg' d c;
                  if pool_size (inst_pool inst) \<noteq> unat (maxTransfers opts)
                  then do { _ \<leftarrow> destroyInstance P inst; State_Monad.return (Inl (mkError hipObjRdmaError)) }
                  else State_Monad.return (Inr inst) } }) (built opts w) w1"
    if "live (log w1) = adds (device_resources d) (live (log w))" "qps_same w w1" for d w1 cfg'
    unfolding wp_bind_iff [of "createRcConnection (verbs P) d kCqSize kMaxSendWr kMaxRecvWr"]
  proof (rule wp_conseq [OF wp_createRcConnection])
    fix r w2 assume r: "created d w1 r w2"
    have legal: "legal_log (log w1)"
      using that(2) assms(2) by (simp add: qps_same_def)
    show "wp (case r of
          None \<Rightarrow> do { _ \<leftarrow> destroyRdmaDevice (verbs P) d; State_Monad.return (Inl (mkError hipObjRdmaError)) }
        | Some c \<Rightarrow> do { inst \<leftarrow> newInstance P opts cfg' d c;
                  if pool_size (inst_pool inst) \<noteq> unat (maxTransfers opts)
                  then do { _ \<leftarrow> destroyInstance P inst; State_Monad.return (Inl (mkError hipObjRdmaError)) }
                  else State_Monad.return (Inr inst) }) (built opts w) w2"
    proof (cases r)
      case None
      then show ?thesis
        using r no_conn that by (auto intro!: wp_destroyRdmaDevice)
    next
      case (Some c)
      then show ?thesis
        using wp_finishBuild [OF legal that(2,1)] r by simp
    qed
  qed
  show ?thesis
    unfolding buildInstance_def Let_def
    apply (rule wp_bindI [OF wp_chooseGpu])
    subgoal for gpu w1
      apply (cases gpu)
       apply (auto intro!: failed simp: qps_same_def)[1]
      apply (simp only: sum.case)
      apply (rule wp_bindI [OF wp_chooseNic [OF assms(1)]])
      subgoal for gpuDevice nic w2
        apply (cases nic)
         apply (auto intro!: failed simp: qps_same_def)[1]
        apply (simp only: option.case)
        apply (rule wp_bindI [OF wp_openRdmaDeviceByName])
        subgoal for dev dname w3
          apply (cases dname)
           apply (auto intro!: failed simp: qps_same_def)[1]
          apply (simp only: option.case)
          apply (rule opened)
           apply (auto simp: qps_same_def)
          done
        done
      done
    done
qed

subsection \<open>The invariant of the library\<close>

text \<open>
  What the calls in progress hold: references to instances, references to an instance's
  registrations, and leases on its connections.
\<close>

record holds =
  h_inst :: "nat \<Rightarrow> nat"
  h_entry :: "nat \<Rightarrow> nat \<Rightarrow> nat"
  h_lease :: "nat \<Rightarrow> Lease list"

definition holds_nothing :: holds where
  "holds_nothing = \<lparr>h_inst = (\<lambda>_. 0), h_entry = (\<lambda>_ _. 0), h_lease = (\<lambda>_. [])\<rparr>"

text \<open>A call that holds a registration or a lease of an instance holds the instance.\<close>

definition holds_ok :: "holds \<Rightarrow> bool" where
  "holds_ok H \<longleftrightarrow> (\<forall>i. h_inst H i = 0 \<longrightarrow> h_entry H i = (\<lambda>_. 0) \<and> h_lease H i = [])"

definition cell_ok :: "holds \<Rightarrow> 'e sys \<Rightarrow> nat \<Rightarrow> bool" where
  "cell_ok H s i \<longleftrightarrow>
     (case entry_at (instances s) i of
        None \<Rightarrow> h_inst H i = 0 \<and> current s \<noteq> Some i
      | Some (inst, n) \<Rightarrow> 0 < n \<and> n = h_inst H i + (if current s = Some i then 1 else 0) \<and>
          inst_ok (h_entry H i) (h_lease H i) inst (sys_world s))"

abbreviation all_resources :: "'e sys \<Rightarrow> resource multiset" where
  "all_resources s \<equiv> total (\<lambda>c. instance_resources (fst c)) (instances s)"

definition apart :: "Instance shared_heap \<Rightarrow> bool" where
  "apart h \<longleftrightarrow> (\<forall>i j inst n inst' n'. i \<noteq> j \<and> entry_at h i = Some (inst, n) \<and> entry_at h j = Some (inst', n') \<longrightarrow>
     set (inst_qps inst) \<inter> set (inst_qps inst') = {})"

text \<open>
  Every instance's use count is the number of references to it, every instance satisfies its
  invariant, and what is live is exactly what the instances own, but for staging buffers and events
  that copies still running when their instance was destroyed may use.
\<close>

definition sys_inv :: "holds \<Rightarrow> 'e sys \<Rightarrow> bool" where
  "sys_inv H s \<longleftrightarrow> holds_ok H \<and> (\<forall>i. cell_ok H s i) \<and> apart (instances s) \<and>
     leaked_from (Some (all_resources s)) (live (log (sys_world s))) \<and> legal_log (log (sys_world s))"

lemma adds_cancel [simp]: "adds X L = adds X L' \<longleftrightarrow> L = L'"
  by (cases L; cases L') (auto simp: adds_def)

lemma pool_conns_frame:
  assumes "pool_conns Ls p w" "qp_frame N w w'" "N \<inter> qp_id ` set (connections (slots p)) = {}"
  shows "pool_conns Ls p w'"
proof -
  have "c \<in> set (connections (slots p))" if "i < length (slots p)" "slots p ! i = Some c" for i c
    using that by (metis connections_set nth_mem)
  then show ?thesis
    using assms unfolding pool_conns_def qp_frame_def by (fastforce simp: disjoint_iff)
qed

lemma inst_ok_frame:
  assumes "inst_ok R Ls inst w" "qp_frame N w w'" "N \<inter> set (inst_qps inst) = {}"
  shows "inst_ok R Ls inst w'"
proof -
  have "pool_conns Ls (inst_pool inst) w'"
    using assms by (intro pool_conns_frame [OF _ assms(2)]) (auto simp: inst_ok_def inst_qps_def)
  then show ?thesis
    using assms by (auto simp: inst_ok_def inst_qps_def qp_frame_def)
qed

lemma sys_inv_cell:
  assumes "sys_inv H s" "entry_at (instances s) i = Some (inst, n)"
  shows "\<exists>L. inst_inv (h_entry H i) (h_lease H i) inst L (sys_world s)"
    and "0 < n" "n = h_inst H i + (if current s = Some i then 1 else 0)"
proof -
  have "cell_ok H s i"
    using assms(1) by (simp add: sys_inv_def)
  then show "0 < n" "n = h_inst H i + (if current s = Some i then 1 else 0)"
    using assms(2) by (auto simp: cell_ok_def)
  obtain K where "live (log (sys_world s)) = Some (K + all_resources s)"
    using assms(1) by (auto simp: sys_inv_def leaked_from_def)
  then have "live (log (sys_world s)) = adds (instance_resources inst)
      (Some (K + total_but (\<lambda>c. instance_resources (fst c)) i (instances s)))"
    using entry_at_bound [OF assms(2)] by (simp add: total_split [of i] ac_simps)
  moreover have "inst_ok (h_entry H i) (h_lease H i) inst (sys_world s)" "legal_log (log (sys_world s))"
    using assms \<open>cell_ok H s i\<close> by (simp_all add: cell_ok_def sys_inv_def)
  ultimately show "\<exists>L. inst_inv (h_entry H i) (h_lease H i) inst L (sys_world s)"
    unfolding inst_inv_def by blast
qed

lemma sys_inv_cellD: "sys_inv H s \<Longrightarrow> cell_ok H s i"
  by (simp add: sys_inv_def)

lemma sys_inv_held: "sys_inv H s \<Longrightarrow> 0 < h_inst H i \<Longrightarrow> \<exists>inst n. entry_at (instances s) i = Some (inst, n)"
  using sys_inv_cellD [of H s i] by (cases "entry_at (instances s) i") (auto simp: cell_ok_def)

lemma sys_inv_current: "sys_inv H s \<Longrightarrow> current s = Some i \<Longrightarrow> \<exists>inst n. entry_at (instances s) i = Some (inst, n)"
  using sys_inv_cellD [of H s i] by (cases "entry_at (instances s) i") (auto simp: cell_ok_def)

text \<open>Replacing one instance, after an operation that keeps its invariant and leaves the others alone.\<close>

lemma apart_update:
  assumes "apart h" "entry_at h i = Some (inst, n)" "\<forall>x\<in>set (inst_qps inst'). x \<in> set (inst_qps inst) \<or> k \<le> x"
    and "\<forall>j inst'' n'. j \<noteq> i \<and> entry_at h j = Some (inst'', n') \<longrightarrow> (\<forall>x\<in>set (inst_qps inst''). x < k)"
  shows "apart (h[i := Some (inst', n')])"
proof -
  have away: "set (inst_qps inst') \<inter> set (inst_qps inst'') = {}" if "j \<noteq> i" "entry_at h j = Some (inst'', m)" for j inst'' m
    using assms that unfolding apart_def by (metis (no_types, opaque_lifting) disjoint_iff not_less)
  have "i < length h"
    using entry_at_bound [OF assms(2)] by simp
  then show ?thesis
    using assms(1) away unfolding apart_def by (auto simp: entry_at_update; blast)
qed

lemma sys_inv_below:
  assumes "sys_inv H s" "entry_at (instances s) j = Some (inst, n)" "x \<in> set (inst_qps inst)"
  shows "x < serial (sys_world s)"
proof -
  have "cell_ok H s j"
    using assms(1) by (simp add: sys_inv_def)
  then show ?thesis
    using assms(2,3) by (auto simp: cell_ok_def inst_ok_def)
qed

definition set_holds :: "nat \<Rightarrow> (nat \<Rightarrow> nat) \<Rightarrow> Lease list \<Rightarrow> holds \<Rightarrow> holds" where
  "set_holds i R Ls H = H\<lparr>h_entry := (h_entry H)(i := R), h_lease := (h_lease H)(i := Ls)\<rparr>"

lemma set_holds_same [simp]: "set_holds i (h_entry H i) (h_lease H i) H = H"
  by (simp add: set_holds_def)

lemma sys_inv_update:
  assumes inv: "sys_inv H s" and cell: "entry_at (instances s) i = Some (inst, n)"
    and old: "live (log (sys_world s)) = adds (instance_resources inst) L"
    and new: "inst_inv R' Ls' inst' L' w'" "leaked_from L L'" "inst_frame inst (sys_world s) inst' w'"
    and held: "h_inst H i = 0 \<Longrightarrow> R' = (\<lambda>_. 0) \<and> Ls' = []"
  shows "sys_inv (set_holds i R' Ls' H) (s\<lparr>sys_world := w', instances := (instances s)[i := Some (inst', n)]\<rparr>)"
    (is "sys_inv ?H ?s")
proof -
  have i: "i < length (instances s)" "instances s ! i = Some (inst, n)"
    using entry_at_bound [OF cell] by auto
  have others: "cell_ok ?H ?s j" if "j \<noteq> i" for j
  proof (cases "entry_at (instances s) j")
    case None
    then show ?thesis
      using sys_inv_cellD [OF inv, of j] that i by (simp add: cell_ok_def entry_at_update set_holds_def)
  next
    case (Some c)
    obtain inst2 m where c: "c = (inst2, m)"
      by fastforce
    have "cell_ok H s j"
      using inv by (simp add: sys_inv_def)
    moreover have "inst_ok (h_entry H j) (h_lease H j) inst2 w'"
    proof (rule inst_ok_frame)
      show "inst_ok (h_entry H j) (h_lease H j) inst2 (sys_world s)"
        using \<open>cell_ok H s j\<close> Some c by (simp add: cell_ok_def)
      show "qp_frame (set (inst_qps inst)) (sys_world s) w'"
        using new(3) by (simp add: inst_frame_def)
      show "set (inst_qps inst) \<inter> set (inst_qps inst2) = {}"
        using inv cell Some c that unfolding sys_inv_def apart_def by metis
    qed
    ultimately show ?thesis
      using Some c that i by (auto simp: cell_ok_def entry_at_update set_holds_def split: if_splits)
  qed
  have "cell_ok ?H ?s i"
    using sys_inv_cell(2,3) [OF inv cell] new(1) i by (simp add: cell_ok_def entry_at_update set_holds_def inst_inv_def)
  with others have cells: "cell_ok ?H ?s j" for j
    by (cases "j = i") auto
  have "apart (instances ?s)"
    using inv new(3) sys_inv_below [OF inv]
    by (auto simp: sys_inv_def inst_frame_def intro!: apart_update [OF _ cell, of _ "serial (sys_world s)"])
  moreover obtain K K' where K: "live (log (sys_world s)) = Some (K + all_resources s)" "\<forall>r\<in>#K. leakable r"
      and K': "L' = adds K' L" "\<forall>r\<in>#K'. leakable r"
    using inv new(2) by (auto simp: sys_inv_def leaked_from_def)
  have "live (log (sys_world s)) = adds (instance_resources inst)
      (Some (K + total_but (\<lambda>c. instance_resources (fst c)) i (instances s)))"
    using K(1) i by (simp add: total_split [of i] ac_simps)
  then have "L = Some (K + total_but (\<lambda>c. instance_resources (fst c)) i (instances s))"
    using old by (metis adds_cancel)
  then have lv: "live (log w') = adds (K' + K) (Some (all_resources ?s))"
    using new(1) K' i by (simp add: inst_inv_def total_update [of i] ac_simps)
  have "leaked_from (Some (all_resources ?s)) (live (log w'))"
    unfolding lv by (rule leaked_from_adds) (use K(2) K'(2) in auto)
  moreover have "holds_ok ?H"
    using inv held by (auto simp: sys_inv_def holds_ok_def set_holds_def)
  ultimately show ?thesis
    using cells new(1) by (simp add: sys_inv_def inst_inv_def)
qed

subsection \<open>References to instances\<close>

definition hold_inst :: "nat \<Rightarrow> holds \<Rightarrow> holds" where
  "hold_inst i H = H\<lparr>h_inst := (h_inst H)(i := Suc (h_inst H i))\<rparr>"

lemma hold_inst_simps [simp]:
  "h_inst (hold_inst i H) = (h_inst H)(i := Suc (h_inst H i))"
  "h_entry (hold_inst i H) = h_entry H" "h_lease (hold_inst i H) = h_lease H"
  by (simp_all add: hold_inst_def)

text \<open>Changing use counts, or what is current, changes nothing else.\<close>

lemma total_recount:
  assumes "\<And>i. map_option fst (entry_at h' i) = map_option fst (entry_at h i)" "length h' = length h"
  shows "total (\<lambda>c. f (fst c)) h' = total (\<lambda>c. f (fst c)) h"
proof -
  have "map (map_option fst) h' = map (map_option fst) h"
  proof (rule nth_equalityI)
    fix i assume "i < length (map (map_option fst) h')"
    then show "map (map_option fst) h' ! i = map (map_option fst) h ! i"
      using assms(1) [of i] assms(2) by (simp add: entry_at_def)
  qed (simp add: assms(2))
  moreover have "total (\<lambda>c. f (fst c)) g = sum_list (map (\<lambda>s. case s of None \<Rightarrow> {#} | Some x \<Rightarrow> f x) (map (map_option fst) g))" for g
    by (induction g) (auto simp: total_def split: option.splits)
  ultimately show ?thesis
    by metis
qed

lemma apart_recount:
  assumes "\<And>i. map_option fst (entry_at h' i) = map_option fst (entry_at h i)" "apart h"
  shows "apart h'"
proof -
  have "\<exists>n. entry_at h i = Some (inst, n)" if "entry_at h' i = Some (inst, m)" for i inst m
    using assms(1) [of i] that by (cases "entry_at h i") auto
  then show ?thesis
    using assms(2) unfolding apart_def by metis
qed

lemma sys_inv_recount:
  assumes inv: "sys_inv H s" and len: "length h' = length (instances s)"
    and same: "\<And>i. map_option fst (entry_at h' i) = map_option fst (entry_at (instances s) i)"
    and H': "h_entry H' = h_entry H" "h_lease H' = h_lease H" "holds_ok H'"
    and count: "\<And>i. use_count h' i = h_inst H' i + (if cur = Some i then 1 else 0)"
    and pos: "\<And>i inst n. entry_at h' i = Some (inst, n) \<Longrightarrow> 0 < n"
  shows "sys_inv H' (s\<lparr>instances := h', current := cur\<rparr>)"
proof -
  have "cell_ok H' (s\<lparr>instances := h', current := cur\<rparr>) i" for i
  proof (cases "entry_at h' i")
    case None
    then show ?thesis
      using count [of i] by (auto simp: cell_ok_def use_count_def)
  next
    case (Some c)
    obtain inst n where c: "c = (inst, n)"
      by fastforce
    obtain m where "entry_at (instances s) i = Some (inst, m)"
      using same [of i] Some c by (cases "entry_at (instances s) i") auto
    then show ?thesis
      using sys_inv_cellD [OF inv, of i] count [of i] pos [of i inst n] Some c H'
      by (simp add: cell_ok_def use_count_def)
  qed
  then show ?thesis
    using inv H'(3) apart_recount [OF same] total_recount [OF same len, of instance_resources]
    by (simp add: sys_inv_def)
qed

lemma sys_inv_count: "sys_inv H s \<Longrightarrow> use_count (instances s) i = h_inst H i + (if current s = Some i then 1 else 0)"
  using sys_inv_cellD [of H s i] by (cases "entry_at (instances s) i") (auto simp: cell_ok_def use_count_def)

lemma sys_inv_pos: "sys_inv H s \<Longrightarrow> entry_at (instances s) i = Some (inst, n) \<Longrightarrow> 0 < n"
  by (rule sys_inv_cell(2))

lemma copy_ref_at:
  "entry_at h i = Some (b, n) \<Longrightarrow>
   entry_at (copy_ref i h) j = (if j = i then Some (b, Suc n) else entry_at h j) \<and> length (copy_ref i h) = length h"
  using entry_at_bound [of h i "(b, n)"] by (simp add: copy_ref_def entry_at_update)

lemma sys_inv_copy:
  assumes "sys_inv H s" "entry_at (instances s) i = Some (inst, n)"
  shows "sys_inv (hold_inst i H) (s\<lparr>instances := copy_ref i (instances s)\<rparr>)"
proof -
  have "sys_inv (hold_inst i H) (s\<lparr>instances := copy_ref i (instances s), current := current s\<rparr>)"
  proof (rule sys_inv_recount [OF assms(1)])
    show "holds_ok (hold_inst i H)"
      using assms(1) by (auto simp: sys_inv_def holds_ok_def)
    fix j
    show "map_option fst (entry_at (copy_ref i (instances s)) j) = map_option fst (entry_at (instances s) j)"
      using copy_ref_at [OF assms(2), of j] assms(2) by simp
    show "use_count (copy_ref i (instances s)) j = h_inst (hold_inst i H) j + (if current s = Some j then 1 else 0)"
      using copy_ref_at [OF assms(2), of j] sys_inv_count [OF assms(1), of j] assms(2) by (auto simp: use_count_def)
    show "0 < m" if "entry_at (copy_ref i (instances s)) j = Some (x, m)" for x m
      using copy_ref_at [OF assms(2), of j] that sys_inv_pos [OF assms(1), of j x m] by (auto split: if_splits)
  qed (use copy_ref_at [OF assms(2)] in simp_all)
  then show ?thesis
    by simp
qed

lemma wp_currentInstance:
  assumes "sys_inv H s"
  shows "wp currentInstance (\<lambda>r s'. r = current s \<and>
           (case r of None \<Rightarrow> s' = s
            | Some i \<Rightarrow> s' = s\<lparr>instances := copy_ref i (instances s)\<rparr> \<and> sys_inv (hold_inst i H) s')) s"
  using sys_inv_current [OF assms] sys_inv_copy [OF assms]
  by (auto simp: currentInstance_def wp_def split: option.splits)

text \<open>What a call leaves as it was: which instance is current, its lease count, and the tokens.\<close>

definition same_call :: "'e sys \<Rightarrow> 'e sys \<Rightarrow> bool" where
  "same_call s s' \<longleftrightarrow> current s' = current s \<and> leasesHeld s' = leasesHeld s \<and> tokens s' = tokens s"

lemma sys_inv_remove:
  assumes inv: "sys_inv (hold_inst i H) s" and H: "holds_ok H" and cell: "entry_at (instances s) i = Some (inst, 1)"
    and gone: "qps_same (sys_world s) w'" "live (log w') = L'" "leaked_from L L'"
    and old: "live (log (sys_world s)) = adds (instance_resources inst) L"
  shows "sys_inv H (s\<lparr>instances := (instances s)[i := None], sys_world := w'\<rparr>)" (is "sys_inv H ?s")
proof -
  have i: "i < length (instances s)" "instances s ! i = Some (inst, 1)"
    using entry_at_bound [OF cell] by auto
  have none: "h_inst H i = 0" "current s \<noteq> Some i"
    using sys_inv_cell(3) [OF inv cell] by (auto split: if_splits)
  have cells: "cell_ok H ?s j" for j
  proof (cases "j = i \<or> entry_at (instances s) j = None")
    case True
    then show ?thesis
      using sys_inv_cellD [OF inv, of j] i none by (auto simp: cell_ok_def entry_at_update)
  next
    case False
    then obtain inst2 m where c: "entry_at (instances s) j = Some (inst2, m)"
      by auto
    have "inst_ok (h_entry H j) (h_lease H j) inst2 w'"
    proof (rule inst_ok_frame)
      show "inst_ok (h_entry H j) (h_lease H j) inst2 (sys_world s)"
        using sys_inv_cellD [OF inv, of j] c by (simp add: cell_ok_def)
      show "qp_frame {} (sys_world s) w'"
        using gone(1) by (simp add: qps_same_frame)
    qed simp
    then show ?thesis
      using sys_inv_cellD [OF inv, of j] c False i by (auto simp: cell_ok_def entry_at_update split: if_splits)
  qed
  have "apart ((instances s)[i := None])"
    using inv i unfolding sys_inv_def apart_def by (auto simp: entry_at_update split: if_splits)
  moreover obtain K K' where K: "live (log (sys_world s)) = Some (K + all_resources s)" "\<forall>r\<in>#K. leakable r"
      and K': "L' = adds K' L" "\<forall>r\<in>#K'. leakable r"
    using inv gone(3) by (auto simp: sys_inv_def leaked_from_def)
  have "live (log (sys_world s)) = adds (instance_resources inst)
      (Some (K + total_but (\<lambda>c. instance_resources (fst c)) i (instances s)))"
    using K(1) i by (simp add: total_split [of i] ac_simps)
  then have "L = Some (K + total_but (\<lambda>c. instance_resources (fst c)) i (instances s))"
    using old by (metis adds_cancel)
  then have lv: "live (log w') = adds (K' + K) (Some (all_resources ?s))"
    using gone(2) K' i by (simp add: total_update [of i] ac_simps)
  have "leaked_from (Some (all_resources ?s)) (live (log w'))"
    unfolding lv by (rule leaked_from_adds) (use K(2) K'(2) in auto)
  ultimately show ?thesis
    using cells H inv gone(1) by (simp add: sys_inv_def qps_same_def)
qed

lemma wp_drop_instance:
  assumes inv: "sys_inv (hold_inst i H) s" and H: "holds_ok H"
  shows "wp (drop_instance P i) (\<lambda>_ s'. sys_inv H s' \<and> same_call s s') s"
proof -
  obtain inst n where cell: "entry_at (instances s) i = Some (inst, n)"
    using sys_inv_held [OF inv, of i] by auto
  note i = entry_at_bound [OF cell]
  obtain L where L: "inst_inv (h_entry H i) (h_lease H i) inst L (sys_world s)"
    using sys_inv_cell(1) [OF inv cell] by auto
  show ?thesis
  proof (cases "n > 1")
    case True
    let ?h = "(instances s)[i := Some (inst, n - 1)]"
    have "sys_inv H (s\<lparr>instances := ?h, current := current s\<rparr>)"
    proof (rule sys_inv_recount [OF inv])
      fix j
      show "map_option fst (entry_at ?h j) = map_option fst (entry_at (instances s) j)"
        using i cell by (simp add: entry_at_update)
      show "use_count ?h j = h_inst H j + (if current s = Some j then 1 else 0)"
        using sys_inv_count [OF inv, of j] i cell by (auto simp: use_count_def entry_at_update split: if_splits)
      show "0 < m" if "entry_at ?h j = Some (x, m)" for x m
        using that i True sys_inv_pos [OF inv, of j x m] by (auto simp: entry_at_update split: if_splits)
    qed (use H in simp_all)
    then show ?thesis
      using True cell by (simp add: drop_instance_def same_call_def)
  next
    case False
    then have n: "n = 1"
      using sys_inv_cell(2) [OF inv cell] by simp
    then have "h_inst H i = 0"
      using sys_inv_cell(3) [OF inv cell] by (simp split: if_splits)
    then have idle: "h_entry H i = (\<lambda>_. 0)" "h_lease H i = []"
      using H by (simp_all add: holds_ok_def)
    have old: "live (log (sys_world s)) = adds (instance_resources inst) L"
      using L by (simp add: inst_inv_def)
    show ?thesis
      using cell n unfolding drop_instance_def
      by (auto intro!: wp_conseq [OF wp_destroyInstance [OF L [unfolded idle]]]
          sys_inv_remove [OF inv H cell [unfolded n] _ refl _ old] simp: same_call_def)
  qed
qed

lemma wp_onInstance:
  assumes inv: "sys_inv H s" and cell: "entry_at (instances s) i = Some (inst, n)"
    and op: "\<And>L. inst_inv (h_entry H i) (h_lease H i) inst L (sys_world s) \<Longrightarrow>
      wp (f inst) (\<lambda>(a, inst') w'. \<exists>R' Ls'. inst_inv R' Ls' inst' L w' \<and> inst_frame inst (sys_world s) inst' w' \<and>
         (h_inst H i = 0 \<longrightarrow> R' = (\<lambda>_. 0) \<and> Ls' = []) \<and>
         (\<forall>s'. s' = s\<lparr>sys_world := w', instances := (instances s)[i := Some (inst', n)]\<rparr> \<longrightarrow>
            entry_at (instances s') i = Some (inst', n) \<longrightarrow> sys_inv (set_holds i R' Ls' H) s' \<longrightarrow> Q a s')) (sys_world s)"
  shows "wp (onInstance i f) Q s"
proof -
  obtain L where L: "inst_inv (h_entry H i) (h_lease H i) inst L (sys_world s)"
    using sys_inv_cell(1) [OF inv cell] by auto
  then have old: "live (log (sys_world s)) = adds (instance_resources inst) L"
    by (simp add: inst_inv_def)
  have i: "i < length (instances s)"
    using entry_at_bound [OF cell] by simp
  obtain a inst' w' where run: "run_state (f inst) (sys_world s) = ((a, inst'), w')"
    by (metis prod.exhaust)
  then obtain R' Ls' where post: "inst_inv R' Ls' inst' L w'" "inst_frame inst (sys_world s) inst' w'"
      "h_inst H i = 0 \<longrightarrow> R' = (\<lambda>_. 0) \<and> Ls' = []"
      "\<forall>s'. s' = s\<lparr>sys_world := w', instances := (instances s)[i := Some (inst', n)]\<rparr> \<longrightarrow>
            entry_at (instances s') i = Some (inst', n) \<longrightarrow> sys_inv (set_holds i R' Ls' H) s' \<longrightarrow> Q a s'"
    using wp_run [OF op [OF L] run] by auto
  have "sys_inv (set_holds i R' Ls' H) (s\<lparr>sys_world := w', instances := (instances s)[i := Some (inst', n)]\<rparr>)"
    by (rule sys_inv_update [OF inv cell old post(1) _ post(2)]) (use post(3) in simp_all)
  then show ?thesis
    using post(4) run cell i by (simp add: onInstance_def wp_def entry_at_update)
qed

subsection \<open>Shutting down and initializing\<close>

lemma sys_inv_uncurrent:
  assumes "sys_inv H s" "current s = Some i"
  shows "sys_inv (hold_inst i H) (s\<lparr>current := None\<rparr>)"
proof -
  have "sys_inv (hold_inst i H) (s\<lparr>instances := instances s, current := None\<rparr>)"
    by (rule sys_inv_recount [OF assms(1)])
       (use assms sys_inv_count [OF assms(1)] sys_inv_pos [OF assms(1)] in \<open>auto simp: sys_inv_def holds_ok_def\<close>)
  then show ?thesis
    by simp
qed

lemma inst_frame_refl [simp]: "inst_qps inst' = inst_qps inst \<Longrightarrow> inst_frame inst w inst' w"
  by (simp add: inst_frame_def)

lemma inst_inv_close: "inst_inv R Ls inst L w \<Longrightarrow> inst_inv R Ls (inst\<lparr>inst_pool := close_pool (inst_pool inst)\<rparr>) L w"
  by (simp add: inst_inv_def inst_ok_def inst_qps_def instance_resources_def close_pool_def pool_shape_def pool_conns_def)

lemma inst_qps_close [simp]: "inst_qps (inst\<lparr>inst_pool := close_pool (inst_pool inst)\<rparr>) = inst_qps inst"
  by (simp add: inst_qps_def close_pool_def)

lemma wp_closeInstance:
  assumes "sys_inv H s" "entry_at (instances s) i = Some (inst, n)"
  shows "wp (onInstance i (\<lambda>inst. State_Monad.return ((), inst\<lparr>inst_pool := close_pool (inst_pool inst)\<rparr>)))
     (\<lambda>_ s'. sys_inv H s' \<and> same_call s s' \<and>
        entry_at (instances s') i = Some (inst\<lparr>inst_pool := close_pool (inst_pool inst)\<rparr>, n) \<and>
        sys_world s' = sys_world s) s"
  by (rule wp_onInstance [OF assms])
     (use assms(1) inst_inv_close in \<open>auto simp: same_call_def sys_inv_def holds_ok_def
        intro!: exI [of _ "h_entry H i"] exI [of _ "h_lease H i"]\<close>)

lemma wp_shutdownInstance:
  assumes "sys_inv H s"
  shows "wp (shutdownInstance P) (\<lambda>_ s'. sys_inv H s' \<and> current s' = None \<and> leasesHeld s' = leasesHeld s \<and>
           tokens s' = tokens s) s"
proof (cases "current s")
  case None
  then show ?thesis
    using assms by (simp add: shutdownInstance_def)
next
  case (Some i)
  let ?s = "s\<lparr>current := None\<rparr>"
  obtain inst n where cell: "entry_at (instances ?s) i = Some (inst, n)"
    using sys_inv_current [OF assms Some] by auto
  have "holds_ok H"
    using assms by (simp add: sys_inv_def)
  note drop = wp_conseq [OF wp_drop_instance [OF _ this]]
  show ?thesis
    unfolding shutdownInstance_def
    by (auto simp: Some intro!: wp_conseq [OF wp_closeInstance [OF sys_inv_uncurrent [OF assms Some] cell]] drop)
       (simp_all add: same_call_def)
qed

lemma sys_inv_world:
  assumes "sys_inv H s" "live (log w') = live (log (sys_world s))" "qps_same (sys_world s) w'"
  shows "sys_inv H (s\<lparr>sys_world := w'\<rparr>)"
proof -
  have "cell_ok H (s\<lparr>sys_world := w'\<rparr>) i" for i
    using sys_inv_cellD [OF assms(1), of i] assms(3) inst_ok_frame [of _ _ _ "sys_world s" "{}" w']
    by (auto simp: cell_ok_def qps_same_frame split: option.splits)
  then show ?thesis
    using assms by (simp add: sys_inv_def qps_same_def)
qed

lemma sys_inv_add:
  assumes inv: "sys_inv H s" "current s = None"
    and new: "inst_inv (\<lambda>_. 0) [] inst (live (log (sys_world s))) w'" "qp_frame {} (sys_world s) w'"
    and fresh: "\<forall>n\<in>set (inst_qps inst). serial (sys_world s) \<le> n"
  shows "sys_inv H (s\<lparr>sys_world := w', instances := instances s @ [Some (inst, 1)], current := Some (length (instances s))\<rparr>)"
    (is "sys_inv H ?s")
proof -
  have "entry_at (instances s) (length (instances s)) = None"
    by (simp add: entry_at_def)
  then have none: "h_inst H (length (instances s)) = 0"
    using sys_inv_cellD [OF inv(1), of "length (instances s)"] by (simp add: cell_ok_def)
  have "h_entry H (length (instances s)) = (\<lambda>_. 0)" "h_lease H (length (instances s)) = []"
    using inv(1) none by (simp_all add: sys_inv_def holds_ok_def)
  then have "cell_ok H ?s (length (instances s))"
    using none new(1) by (simp add: cell_ok_def inst_inv_def)
  moreover have "cell_ok H ?s j" if "j \<noteq> length (instances s)" for j
    using sys_inv_cellD [OF inv(1), of j] inv(2) that new(2) inst_ok_frame [of _ _ _ "sys_world s" "{}" w']
    by (auto simp: cell_ok_def split: option.splits)
  ultimately have cells: "cell_ok H ?s j" for j
    by (cases "j = length (instances s)") auto
  have away: "set (inst_qps inst) \<inter> set (inst_qps inst') = {}" if "entry_at (instances s) j = Some (inst', n)" for j inst' n
    using sys_inv_below [OF inv(1) that] fresh by (auto simp: disjoint_iff not_less [symmetric])
  have "apart (instances ?s)"
    using inv(1) away unfolding sys_inv_def apart_def by (auto simp: disjoint_iff split: if_splits)
  moreover obtain K where K: "live (log (sys_world s)) = Some (K + all_resources s)" "\<forall>r\<in>#K. leakable r"
    using inv(1) by (auto simp: sys_inv_def leaked_from_def)
  have lv: "live (log w') = adds K (Some (all_resources ?s))"
    using new(1) K(1) by (simp add: inst_inv_def ac_simps)
  have "leaked_from (Some (all_resources ?s)) (live (log w'))"
    unfolding lv by (rule leaked_from_adds) (use K(2) in auto)
  ultimately show ?thesis
    using cells inv(1) new(1) by (simp add: sys_inv_def inst_inv_def)
qed

text \<open>A new instance: nobody but the library holds it, and every connection is free.\<close>

definition initialized :: "Options \<Rightarrow> 'e sys \<Rightarrow> 'e sys \<Rightarrow> bool" where
  "initialized opts s s' \<longleftrightarrow> (\<exists>inst. current s' = Some (length (instances s)) \<and>
     instances s' = instances s @ [Some (inst, 1)] \<and>
     inst_inv (\<lambda>_. 0) [] inst (live (log (sys_world s))) (sys_world s') \<and> inst_options inst = opts \<and>
     pool_size (inst_pool inst) = unat (maxTransfers opts) \<and>
     available (inst_pool inst) = unat (maxTransfers opts) \<and> \<not> closed (inst_pool inst) \<and>
     entries (inst_buffers inst) = [] \<and> copies (inst_abandoned inst) = [])"

lemma wp_initWith:
  assumes "sys_inv H s" "topology_ok (topology P)"
  shows "wp (initWith P cfg opts) (\<lambda>err s'. sys_inv H s' \<and> leasesHeld s' = leasesHeld s \<and> tokens s' = tokens s \<and>
           (if current s \<noteq> None then err = mkError hipObjAlreadyInitialized \<and> s' = s
            else if opError err = hipObjSuccess then initialized opts s s'
            else instances s' = instances s \<and> current s' = None \<and>
                 live (log (sys_world s')) = live (log (sys_world s)) \<and>
                 opError err \<in> {hipObjRdmaError, hipObjInvalidValue, hipObjNicNotFound})) s"
proof (cases "current s")
  case None
  have legal: "legal_log (log (sys_world s))"
    using assms(1) by (simp add: sys_inv_def)
  show ?thesis
    unfolding initWith_def
    using None assms(1)
    by (auto intro!: wp_conseq [OF wp_buildInstance [OF assms(2) legal]] sys_inv_world
        sys_inv_add [unfolded One_nat_def]
        simp: built_def initialized_def make_shared_def split: sum.splits)
qed (use assms in \<open>simp add: initWith_def\<close>)

text \<open>Shutting down when nothing else holds the instance and no copy has been abandoned.\<close>

lemma wp_shutdown_idle:
  assumes "current s = Some i" "entry_at (instances s) i = Some (inst, 1)"
    and inv: "inst_inv (\<lambda>_. 0) [] inst L (sys_world s)" and none: "copies (inst_abandoned inst) = []"
  shows "wp (shutdownInstance P) (\<lambda>_ s'. live (log (sys_world s')) = L) s"
proof -
  have i: "i < length (instances s)"
    using entry_at_bound [OF assms(2)] by simp
  have "wp (destroyInstance P (inst\<lparr>inst_pool := close_pool (inst_pool inst)\<rparr>)) (\<lambda>_ w'. live (log w') = L) (sys_world s)"
    by (rule wp_conseq [OF wp_destroyInstance [OF inst_inv_close [OF inv]]]) (use none in auto)
  then show ?thesis
    using assms(1,2) i
    by (simp add: shutdownInstance_def onInstance_def wp_def [of "State _"] drop_instance_def entry_at_update)
qed

subsection \<open>Properties\<close>

text \<open>The options stay within their limits whatever the environment holds, so a staging timeout added
  to the clock cannot overflow and a pool is never empty or oversized; a variable that holds a
  decimal number sets its option exactly when the number is in range.\<close>

theorem parse_options_exact:
  assumes "lookup ''HIPOBJ_STAGE_TIMEOUT_MS'' = Some (to_string t)" "\<bar>t\<bar> < 2 ^ 63"
    and "lookup ''HIPOBJ_MAX_TRANSFERS'' = Some (to_string n)" "0 \<le> n" "n < 2 ^ 64"
  shows "stageTimeout (parseOptions lookup) = (if 0 < t \<and> t \<le> 86400000 then t else 30000) \<and>
         uint (maxTransfers (parseOptions lookup)) = (if 0 < n \<and> n \<le> 1024 then n else 16) \<and>
         pollTimeout (parseOptions lookup) = 5000 \<and>
         (\<forall>env_vars. 0 < stageTimeout (parseOptions env_vars) \<and> stageTimeout (parseOptions env_vars) \<le> 86400000 \<and>
            0 < maxTransfers (parseOptions env_vars) \<and> maxTransfers (parseOptions env_vars) \<le> 1024)"
proof -
  have t: "parseNumber int64_t (lookupValue lookup ''HIPOBJ_STAGE_TIMEOUT_MS'') kDefaultNumberBase = Some t"
    using assms(2) parseNumber_to_string [of int64_t t]
    by (simp add: lookupValue_to_string [of lookup, OF assms(1)] kDefaultNumberBase_def int64_t_def)
  have n: "parseNumber uint64_t (lookupValue lookup ''HIPOBJ_MAX_TRANSFERS'') kDefaultNumberBase = Some n"
    using assms(4,5) parseNumber_to_string [of uint64_t n]
    by (simp add: lookupValue_to_string [of lookup, OF assms(3)] kDefaultNumberBase_def uint64_t_def)
  have w: "uint (word_of_int n :: u64) = n"
    using assms(4,5) by (simp add: uint_word_of_int)
  show ?thesis
    using parseOptions_bounds [unfolded option_limits] t n w
    by (auto simp: parseOptions_def [of lookup] Let_def defaultOptions_def option_limits)
qed

definition sample_lookup :: EnvLookup where
  "sample_lookup = [''HIPOBJ_STAGE_TIMEOUT_MS'' \<mapsto> to_string 250, ''HIPOBJ_MAX_TRANSFERS'' \<mapsto> to_string 1025]"

theorem parse_options_exact_witness:
  "stageTimeout (parseOptions sample_lookup) = 250 \<and> uint (maxTransfers (parseOptions sample_lookup)) = 16"
  using parse_options_exact [of sample_lookup 250 1025] by (simp add: sample_lookup_def)

text \<open>C3. Initializing refuses an initialized library without changing anything. Otherwise it either
  publishes a new instance with the options given, whose pool has as many connections as asked for,
  all of them free, and which owns exactly what was acquired; or it fails with one of three errors,
  leaves the library uninitialized and leaves nothing acquired, whichever step failed.\<close>

theorem init_contract:
  assumes "sys_inv H s" "topology_ok (topology P)"
  shows "wp (initWith P cfg opts) (\<lambda>err s'. sys_inv H s' \<and>
           (if current s \<noteq> None then err = mkError hipObjAlreadyInitialized \<and> s' = s
            else if opError err = hipObjSuccess then initialized opts s s'
            else instances s' = instances s \<and> current s' = None \<and>
                 live (log (sys_world s')) = live (log (sys_world s)) \<and>
                 opError err \<in> {hipObjRdmaError, hipObjInvalidValue, hipObjNicNotFound})) s"
  by (rule wp_conseq [OF wp_initWith [OF assms]]) auto

definition sample_sys :: "int sys" where
  "sample_sys = \<lparr>sys_world = sample_world, instances = [], current = None, leasesHeld = 0, tokens = []\<rparr>"

definition sample_config :: hipObjConfig_t where
  "sample_config = \<lparr>endpoint = None, region = None, accessKey = None, secretKey = None, config_flags = 0,
     config_gpuDevice = 0, config_nicHint = None\<rparr>"

definition sample_options :: Options where
  "sample_options = defaultOptions\<lparr>maxTransfers := 2\<rparr>"

lemma sys_inv_empty:
  assumes "instances s = []" "current s = None" "live (log (sys_world s)) = Some {#}" "legal_log (log (sys_world s))"
  shows "sys_inv holds_nothing s"
  using assms by (simp add: sys_inv_def holds_ok_def holds_nothing_def cell_ok_def apart_def entry_at_def)

lemma sample_sys_inv: "sys_inv holds_nothing sample_sys"
  by (rule sys_inv_empty) (simp_all add: sample_sys_def sample_world_def)

lemma sample_platform_topology: "topology_ok (topology sample_platform)"
  using sample_topology_ok by (simp add: sample_platform_def)

theorem init_contract_witness:
  "wp (initWith sample_platform sample_config sample_options) (\<lambda>err s'. sys_inv holds_nothing s' \<and>
     (if current sample_sys \<noteq> None then err = mkError hipObjAlreadyInitialized \<and> s' = sample_sys
      else if opError err = hipObjSuccess then initialized sample_options sample_sys s'
      else instances s' = instances sample_sys \<and> current s' = None \<and>
           live (log (sys_world s')) = live (log (sys_world sample_sys)) \<and>
           opError err \<in> {hipObjRdmaError, hipObjInvalidValue, hipObjNicNotFound})) sample_sys"
  by (rule init_contract [OF sample_sys_inv sample_platform_topology])

text \<open>Initializing and shutting down again releases everything that was acquired, exactly once, in
  whichever way the initialization ended, and leaves the library uninitialized.\<close>

theorem init_shutdown_roundtrip:
  assumes "sys_inv H s" "topology_ok (topology P)" "current s = None"
  shows "wp (do { err \<leftarrow> initWith P cfg opts; _ \<leftarrow> shutdownInstance P; State_Monad.return err })
     (\<lambda>err s'. sys_inv H s' \<and> current s' = None \<and> live (log (sys_world s')) = live (log (sys_world s))) s"
proof (rule wp_bindI [OF wp_initWith [OF assms(1,2)]])
  fix err s1
  assume *: "sys_inv H s1 \<and> leasesHeld s1 = leasesHeld s \<and> tokens s1 = tokens s \<and>
           (if current s \<noteq> None then err = mkError hipObjAlreadyInitialized \<and> s1 = s
            else if opError err = hipObjSuccess then initialized opts s s1
            else instances s1 = instances s \<and> current s1 = None \<and>
                 live (log (sys_world s1)) = live (log (sys_world s)) \<and>
                 opError err \<in> {hipObjRdmaError, hipObjInvalidValue, hipObjNicNotFound})"
  have exact: "wp (shutdownInstance P) (\<lambda>_ s'. live (log (sys_world s')) = live (log (sys_world s))) s1"
  proof (cases "opError err = hipObjSuccess")
    case True
    then obtain inst where "current s1 = Some (length (instances s))" "instances s1 = instances s @ [Some (inst, 1)]"
        "inst_inv (\<lambda>_. 0) [] inst (live (log (sys_world s))) (sys_world s1)" "copies (inst_abandoned inst) = []"
      using * assms(3) by (auto simp: initialized_def)
    then show ?thesis
      by (auto intro!: wp_shutdown_idle [where i = "length (instances s)"] simp: entry_at_def)
  next
    case False
    then show ?thesis
      using * assms(3) by (simp add: shutdownInstance_def)
  qed
  have "sys_inv H s1"
    using * by simp
  then show "wp (do { _ \<leftarrow> shutdownInstance P; State_Monad.return err })
     (\<lambda>err s'. sys_inv H s' \<and> current s' = None \<and> live (log (sys_world s')) = live (log (sys_world s))) s1"
    by (auto intro!: wp_conseq [OF wp_conj [OF wp_shutdownInstance exact]])
qed

theorem init_shutdown_roundtrip_witness:
  "current sample_sys = None \<and>
   wp (do { err \<leftarrow> initWith sample_platform sample_config sample_options; _ \<leftarrow> shutdownInstance sample_platform;
            State_Monad.return err })
     (\<lambda>err s'. sys_inv holds_nothing s' \<and> current s' = None \<and>
        live (log (sys_world s')) = live (log (sys_world sample_sys))) sample_sys"
  using init_shutdown_roundtrip [OF sample_sys_inv sample_platform_topology]
  by (simp add: sample_sys_def)

end
