(* ===== verification/Staging.thy ===== *)
theory Staging
  imports Library_State
begin

text \<open>
  What the public functions do with one instance between them, from the unnamed namespace of
  \<^verbatim>\<open>src/hipobj.cpp\<close>: the argument checks, the token for a range of a registration, and the staging
  copies with their deadline. The lemmas show that the range checks are exact, that a token and a
  copy stay inside the registration, that a staging copy comes back in bounded time, and that a copy
  that times out is handed over with a reference that keeps its buffer.

  A function of this theory takes the instance and returns it, and works on the world. \<open>buf\<close> is the
  cell of the registration that the caller holds a reference to.
\<close>

subsection \<open>Argument checks\<close>

definition kExceptionError :: hipObjError_t where
  "kExceptionError = mkError hipObjInternalError"

definition kReplyBufLen :: nat where
  "kReplyBufLen = 512"

text \<open>\<^verbatim>\<open>off_t\<close> is signed; \<^verbatim>\<open>std::cmp_greater\<close> compares the values.\<close>

definition rangeInRegistration :: "u64 \<Rightarrow> size_t \<Rightarrow> size_t \<Rightarrow> bool" where
  "rangeInRegistration offset sz regSize \<longleftrightarrow>
     (if sint offset < 0 \<or> sint offset > uint regSize then False else sz \<le> regSize - offset)"

definition checkRegistrationArgs :: "addr \<Rightarrow> size_t \<Rightarrow> hipObjError_t" where
  "checkRegistrationArgs ptr sz =
     (if ptr = nullptr \<or> sz = 0 then mkError hipObjInvalidValue
      else if sz > MAX_MR_SIZE then mkError hipObjSizeTooLarge
      else if sz > (- 1) - ptr then mkError hipObjInvalidValue
      else mkError hipObjSuccess)"

fun registrationError :: "RegisterResult \<Rightarrow> hipObjError_t" where
  "registrationError Registered = mkError hipObjSuccess"
| "registrationError AlreadyRegistered = mkError hipObjBufAlreadyRegistered"
| "registrationError RegisterFailed = mkError hipObjRdmaError"

fun acquireError :: "AcquireError \<Rightarrow> hipObjError_t" where
  "acquireError Closed = mkError hipObjNotInitialized"
| "acquireError Busy = mkError hipObjBusy"
| "acquireError NoConnections = mkError hipObjRdmaError"

definition checkBufferArgs :: "addr \<Rightarrow> BufEntry option \<Rightarrow> size_t \<Rightarrow> u64 \<Rightarrow> hipObjError_t" where
  "checkBufferArgs devPtr buf sz offset =
     (if devPtr = nullptr \<or> sz = 0 \<or> sint offset < 0 then mkError hipObjInvalidValue
      else case buf of
        None \<Rightarrow> mkError hipObjBufNotRegistered
      | Some b \<Rightarrow> if \<not> rangeInRegistration offset sz (entry_size b) then mkError hipObjInvalidValue
                  else mkError hipObjSuccess)"

subsection \<open>The token of a range\<close>

text \<open>A registration always has its memory region, so the check for a null one has nothing to refuse.\<close>

definition buildRdmaToken :: "RcConnection \<Rightarrow> BufEntry \<Rightarrow> size_t \<Rightarrow> u64 \<Rightarrow> RdmaToken option" where
  "buildRdmaToken conn buf sz offset =
     (if \<not> rangeInRegistration offset sz (entry_size buf) then None
      else Some \<lparr>qpNum = qp_num (conn_qp conn), gid = toGid (localGid (conn_device conn)),
             rkey = mr_rkey (mr buf), remoteAddr = entry_remoteAddr buf + offset, tokenLength = sz,
             transport = RC, portNum = dev_portNum (conn_device conn), lid = 0\<rparr>)"

subsection \<open>Staging copies\<close>

text \<open>The slot's destructor when the copy was not handed over.\<close>

definition unreserve :: "Instance \<Rightarrow> Instance" where
  "unreserve inst = inst\<lparr>inst_abandoned := destroySlot (inst_abandoned inst)\<rparr>"

definition abandonCopy :: "handle \<Rightarrow> nat \<Rightarrow> Instance \<Rightarrow> Instance" where
  "abandonCopy ev buf inst =
     inst\<lparr>inst_heap := copy_ref buf (inst_heap inst), inst_abandoned := add_copy ev buf (inst_abandoned inst)\<rparr>"

text \<open>Leaving the function destroys the event and then the slot.\<close>

definition endCopy ::
  "'e Platform \<Rightarrow> handle \<Rightarrow> hipObjOpError_t \<Rightarrow> Instance \<Rightarrow> ('e world, hipObjError_t outcome \<times> Instance) state" where
  "endCopy P ev err inst = do {
     _ \<leftarrow> HipEventDeleter (hip P) ev;
     State_Monad.return (Return (mkError err), unreserve inst)
   }"

fun stageLoop ::
  "nat \<Rightarrow> 'e Platform \<Rightarrow> nat \<Rightarrow> handle \<Rightarrow> int \<Rightarrow> Instance \<Rightarrow>
   ('e world, hipObjError_t outcome \<times> Instance) state" where
  "stageLoop 0 P buf ev deadline inst = State_Monad.return (Running, inst)"
| "stageLoop (Suc fuel) P buf ev deadline inst = do {
     q \<leftarrow> liftE (hip_eventQuery (hip P) (fst ev));
     if q = hipSuccess then endCopy P ev hipObjSuccess inst
     else if q \<noteq> hipErrorNotReady then endCopy P ev hipObjInternalError inst
     else do {
       now \<leftarrow> liftE (steady_now P);
       if now \<ge> deadline
       then State_Monad.return (Return (mkError hipObjInternalError), abandonCopy ev buf inst)
       else do { _ \<leftarrow> liftE (sleep_for P ms); stageLoop fuel P buf ev deadline inst }
     }
   }"

definition stageCopyWithDeadline ::
  "nat \<Rightarrow> 'e Platform \<Rightarrow> nat \<Rightarrow> addr \<Rightarrow> addr \<Rightarrow> size_t \<Rightarrow> hipMemcpyKind \<Rightarrow> Instance \<Rightarrow>
   ('e world, hipObjError_t outcome \<times> Instance) state" where
  "stageCopyWithDeadline fuel P buf dst src sz kind inst0 = do {
     let inst = inst0\<lparr>inst_abandoned := reserve_slot (inst_abandoned inst0)\<rparr>;
     rawDone \<leftarrow> eventCreate (hip P);
     case rawDone of
       None \<Rightarrow> State_Monad.return (Return (mkError hipObjInternalError), unreserve inst)
     | Some ev \<Rightarrow> do {
         copied \<leftarrow> memcpyAsync (hip P) dst src sz kind;
         err \<leftarrow> (if copied = hipSuccess then liftE (hip_eventRecord (hip P) (fst ev)) else State_Monad.return copied);
         if err \<noteq> hipSuccess then endCopy P ev hipObjInternalError inst
         else do {
           now \<leftarrow> liftE (steady_now P);
           stageLoop fuel P buf ev (now + stageTimeout (inst_options inst) * ms) inst
         }
       }
   }"

definition bufAt :: "Instance \<Rightarrow> nat \<Rightarrow> BufEntry" where
  "bufAt inst buf = fst (the (entry_at (inst_heap inst) buf))"

definition checkNoAbandonedCopy ::
  "'e Platform \<Rightarrow> nat \<Rightarrow> Instance \<Rightarrow> ('e world, hipObjError_t \<times> Instance) state" where
  "checkNoAbandonedCopy P buf inst =
     (if hostBuf (bufAt inst buf) = None then State_Monad.return (mkError hipObjSuccess, inst)
      else do {
        (run, a, h) \<leftarrow> running (verbs P) (hip P) buf (inst_abandoned inst) (inst_heap inst);
        State_Monad.return (mkError (if run then hipObjBusy else hipObjSuccess),
          inst\<lparr>inst_heap := h, inst_abandoned := a\<rparr>)
      })"

definition stageToDevice ::
  "nat \<Rightarrow> 'e Platform \<Rightarrow> addr \<Rightarrow> nat \<Rightarrow> size_t \<Rightarrow> u64 \<Rightarrow> Instance \<Rightarrow>
   ('e world, hipObjError_t outcome \<times> Instance) state" where
  "stageToDevice fuel P devPtr buf sz offset inst =
     (case hostBuf (bufAt inst buf) of
        None \<Rightarrow> State_Monad.return (Return (mkError hipObjSuccess), inst)
      | Some host \<Rightarrow>
          if \<not> rangeInRegistration offset sz (entry_size (bufAt inst buf))
          then State_Monad.return (Return (mkError hipObjInvalidValue), inst)
          else stageCopyWithDeadline fuel P buf (devPtr + offset) (fst host + offset) sz hipMemcpyHostToDevice inst)"

definition stageToHost ::
  "nat \<Rightarrow> 'e Platform \<Rightarrow> addr \<Rightarrow> nat \<Rightarrow> size_t \<Rightarrow> u64 \<Rightarrow> Instance \<Rightarrow>
   ('e world, hipObjError_t outcome \<times> Instance) state" where
  "stageToHost fuel P devPtr buf sz offset inst =
     (case hostBuf (bufAt inst buf) of
        None \<Rightarrow> State_Monad.return (Return (mkError hipObjSuccess), inst)
      | Some host \<Rightarrow>
          if \<not> rangeInRegistration offset sz (entry_size (bufAt inst buf))
          then State_Monad.return (Return (mkError hipObjInvalidValue), inst)
          else stageCopyWithDeadline fuel P buf (fst host + offset) (devPtr + offset) sz hipMemcpyDeviceToHost inst)"

subsection \<open>The registrations of an instance\<close>

definition instRegisterBuffer :: "'e Platform \<Rightarrow> addr \<Rightarrow> size_t \<Rightarrow> Instance \<Rightarrow> ('e world, RegisterResult \<times> Instance) state" where
  "instRegisterBuffer P devPtr sz inst = do {
     (r, m, h) \<leftarrow> registerBuffer (verbs P) (hip P) devPtr sz (dev_pd (inst_device inst)) (inst_buffers inst) (inst_heap inst);
     State_Monad.return (r, inst\<lparr>inst_buffers := m, inst_heap := h\<rparr>)
   }"

definition instRegisterHostBuffer :: "'e Platform \<Rightarrow> addr \<Rightarrow> size_t \<Rightarrow> Instance \<Rightarrow> ('e world, RegisterResult \<times> Instance) state" where
  "instRegisterHostBuffer P hostPtr sz inst = do {
     (r, m, h) \<leftarrow> registerHostBuffer (verbs P) (hip P) hostPtr sz (dev_pd (inst_device inst)) (inst_buffers inst) (inst_heap inst);
     State_Monad.return (r, inst\<lparr>inst_buffers := m, inst_heap := h\<rparr>)
   }"

text \<open>Copies that timed out and have finished since are released first, so that their buffers can go.\<close>

definition instDeregisterBuffer :: "'e Platform \<Rightarrow> addr \<Rightarrow> Instance \<Rightarrow> ('e world, DeregisterResult \<times> Instance) state" where
  "instDeregisterBuffer P devPtr inst = do {
     (a, h) \<leftarrow> reclaim (verbs P) (hip P) (inst_abandoned inst) (inst_heap inst);
     (r, m, h') \<leftarrow> deregisterBuffer (verbs P) (hip P) devPtr (inst_buffers inst) h;
     State_Monad.return (r, inst\<lparr>inst_buffers := m, inst_heap := h', inst_abandoned := a\<rparr>)
   }"

definition instFind :: "addr \<Rightarrow> Instance \<Rightarrow> ('e world, nat option \<times> Instance) state" where
  "instFind devPtr inst =
     (case findBuffer devPtr (inst_buffers inst) (inst_heap inst) of
        (r, h) \<Rightarrow> State_Monad.return (r, inst\<lparr>inst_heap := h\<rparr>))"

definition instDropRef :: "'e Platform \<Rightarrow> nat \<Rightarrow> Instance \<Rightarrow> ('e world, unit \<times> Instance) state" where
  "instDropRef P buf inst = do {
     h \<leftarrow> drop_ref (verbs P) (hip P) buf (inst_heap inst);
     State_Monad.return ((), inst\<lparr>inst_heap := h\<rparr>)
   }"

subsection \<open>Ranges\<close>

lemma sint_nonneg_uint: "0 \<le> sint (x :: u64) \<Longrightarrow> sint x = uint x"
  using sint_lt [of x] by (simp add: uint_sint [of x] take_bit_int_eq_self)

lemma rangeInRegistration_iff:
  "rangeInRegistration offset sz regSize \<longleftrightarrow> 0 \<le> sint offset \<and> sint offset + uint sz \<le> uint regSize"
proof (cases "sint offset < 0 \<or> sint offset > uint regSize")
  case True
  moreover have "0 \<le> uint sz"
    by simp
  ultimately have "\<not> (0 \<le> sint offset \<and> sint offset + uint sz \<le> uint regSize)"
    by linarith
  then show ?thesis
    using True by (simp add: rangeInRegistration_def)
next
  case False
  then have "uint (regSize - offset) = uint regSize - sint offset"
    using sint_nonneg_uint [of offset] uint_minus_simple_alt [of offset regSize] by (simp add: word_le_def)
  then show ?thesis
    using False by (auto simp: rangeInRegistration_def word_le_def)
qed

subsection \<open>The invariant of an instance and its parts\<close>

text \<open>
  The buffers and the abandoned copies of an instance are those of theory \<^verbatim>\<open>Abandoned\<close>, next to what
  the rest of the instance owns.
\<close>

definition rest_resources :: "Instance \<Rightarrow> resource multiset" where
  "rest_resources inst = device_resources (inst_device inst) + connection_resources (inst_tokenConn inst) +
     slots_resources (slots (inst_pool inst))"

abbreviation inst_ab :: "(nat \<Rightarrow> nat) \<Rightarrow> Instance \<Rightarrow> resource multiset option \<Rightarrow> 'e world \<Rightarrow> bool" where
  "inst_ab R inst L w \<equiv> ab_inv R (inst_abandoned inst) (inst_buffers inst) (inst_heap inst) L w"

lemma inst_inv_ab: "inst_inv R Ls inst L w \<Longrightarrow> inst_ab R inst (adds (rest_resources inst) L) w"
  by (simp add: inst_inv_def inst_ok_def ab_inv_def instance_resources_def rest_resources_def ac_simps)

text \<open>What a call leaves alone of an instance when it works on the buffers and the abandoned copies.\<close>

definition same_conns :: "Instance \<Rightarrow> Instance \<Rightarrow> bool" where
  "same_conns inst inst' \<longleftrightarrow> inst_options inst' = inst_options inst \<and> inst_config inst' = inst_config inst \<and>
     inst_device inst' = inst_device inst \<and> inst_tokenConn inst' = inst_tokenConn inst \<and> inst_pool inst' = inst_pool inst"

lemma same_conns_refl [simp]: "same_conns inst inst"
  by (simp add: same_conns_def)

lemma ab_inst_inv:
  assumes "inst_inv R Ls inst L w" "qps_same w w'" "same_conns inst inst'"
    and "inst_ab R' inst' (adds (rest_resources inst) L) w'"
  shows "inst_inv R' Ls inst' L w' \<and> inst_frame inst w inst' w'"
proof -
  have qps: "inst_qps inst' = inst_qps inst"
    using assms(3) by (simp add: same_conns_def inst_qps_def)
  have frame: "qp_frame {} w w'" and legal: "legal_log (log w')"
    using assms(1,2) by (auto simp: qps_same_frame inst_inv_def)
  have old: "inst_ok R Ls inst w'"
    using inst_ok_frame [OF _ frame] assms(1) by (simp add: inst_inv_def)
  have "live (log w') = adds (instance_resources inst') L"
    using assms(3,4) by (simp add: ab_inv_def instance_resources_def rest_resources_def same_conns_def ac_simps)
  moreover have "inst_ok R' Ls inst' w'"
    using old assms(3,4) qps by (simp add: inst_ok_def ab_inv_def same_conns_def)
  ultimately show ?thesis
    using frame legal qps by (simp add: inst_inv_def inst_frame_def qp_frame_def)
qed

subsection \<open>Staging copies\<close>

text \<open>How a copy that came back left the instance: as it was, or with the copy handed over.\<close>

definition handed_over :: "handle \<Rightarrow> nat \<Rightarrow> Instance \<Rightarrow> Instance \<Rightarrow> bool" where
  "handed_over ev buf inst inst' \<longleftrightarrow>
     copies (inst_abandoned inst') = copies (inst_abandoned inst) @ [\<lparr>copy_entry = buf, copy_done = ev\<rparr>] \<and>
     inst_heap inst' = copy_ref buf (inst_heap inst)"

definition not_handed_over :: "Instance \<Rightarrow> Instance \<Rightarrow> bool" where
  "not_handed_over inst inst' \<longleftrightarrow>
     copies (inst_abandoned inst') = copies (inst_abandoned inst) \<and> inst_heap inst' = inst_heap inst"

lemma wp_endCopy:
  assumes "inst_ab R inst (adds {#Event (snd ev)#} K) w" "qps_same w0 w"
  shows "wp (endCopy P ev err inst) (\<lambda>(r, inst') w'. r = Return (mkError err) \<and> inst' = unreserve inst \<and>
           inst_ab R inst' K w' \<and> qps_same w0 w') w"
  unfolding endCopy_def wp_bind_iff
  using assms by (intro wp_deleters) (auto simp: unreserve_def ab_inv_def room_ok_def destroySlot_def qps_same_def)

lemma wp_stageLoop:
  assumes "inst_ab R inst (adds {#Event (snd ev)#} K) w" "qps_same w0 w"
    and "0 < reserved (inst_abandoned inst)" "entry_at (inst_heap inst) buf = Some (b, k)"
  shows "wp (stageLoop fuel P buf ev deadline inst) (\<lambda>(r, inst') w'. r \<noteq> Block \<and> (ends r \<longrightarrow>
           inst_ab R inst' K w' \<and> qps_same w0 w' \<and> same_conns inst inst' \<and> inst_buffers inst' = inst_buffers inst \<and>
           (if r = Return (mkError hipObjSuccess) then not_handed_over inst inst'
            else r = Return (mkError hipObjInternalError) \<and>
                 (not_handed_over inst inst' \<or> handed_over ev buf inst inst')))) w"
  using assms(1,2)
proof (induction fuel arbitrary: w)
  case (Suc fuel)
  have again: "inst_ab R inst (adds {#Event (snd ev)#} K) (w\<lparr>env := e\<rparr>)" "qps_same w0 (w\<lparr>env := e\<rparr>)" for e
    using Suc.prems by (simp_all add: ab_inv_def)
  have timeout: "inst_ab R (abandonCopy ev buf inst) K (w\<lparr>env := e\<rparr>)" for e
    using add_copy_inv [OF again(1) [of e] assms(3,4), of "fst ev"] by (simp add: abandonCopy_def)
  have handed: "handed_over ev buf inst (abandonCopy ev buf inst)"
    by (simp add: handed_over_def abandonCopy_def add_copy_def)
  have kept: "not_handed_over inst (unreserve inst)" "same_conns inst (unreserve inst)"
      "same_conns inst (abandonCopy ev buf inst)" "inst_buffers (unreserve inst) = inst_buffers inst"
      "inst_buffers (abandonCopy ev buf inst) = inst_buffers inst"
    by (simp_all add: not_handed_over_def unreserve_def destroySlot_def same_conns_def abandonCopy_def)
  have diff: "mkError hipObjInternalError \<noteq> mkError hipObjSuccess"
    by (simp add: makeError_def)
  show ?case
    using again timeout handed kept diff
    by (auto intro!: wp_liftE wp_conseq [OF wp_endCopy [OF again]] Suc.IH)
qed simp

text \<open>What a staging operation guarantees, for a registration the caller holds.\<close>

definition stage_post ::
  "(nat \<Rightarrow> nat) \<Rightarrow> Lease list \<Rightarrow> nat \<Rightarrow> Instance \<Rightarrow> resource multiset option \<Rightarrow> 'e world \<Rightarrow>
   hipObjError_t outcome \<times> Instance \<Rightarrow> 'e world \<Rightarrow> bool" where
  "stage_post R Ls buf inst L w res w' \<longleftrightarrow> (case res of (r, inst') \<Rightarrow> r \<noteq> Block \<and> (ends r \<longrightarrow>
     inst_inv R Ls inst' L w' \<and> inst_frame inst w inst' w' \<and> same_conns inst inst' \<and>
     inst_buffers inst' = inst_buffers inst \<and>
     (\<exists>err. r = Return err \<and>
        (not_handed_over inst inst' \<or> opError err = hipObjInternalError \<and> (\<exists>ev. handed_over ev buf inst inst')))))"

lemma stage_post_same: "inst_inv R Ls inst L w \<Longrightarrow> stage_post R Ls buf inst L w (Return err, inst) w"
  by (simp add: stage_post_def not_handed_over_def)

lemma reserve_slot_simps [simp]:
  "copies (reserve_slot a) = copies a" "reserved (reserve_slot a) = Suc (reserved a)"
  by (simp_all add: reserve_slot_def Let_def)

lemma stage_postI:
  assumes "inst_inv R Ls inst L w" "qps_same w w'" "same_conns inst inst'" "inst_buffers inst' = inst_buffers inst"
    and "inst_ab R inst' (adds (rest_resources inst) L) w'"
    and "not_handed_over inst inst' \<or> opError err = hipObjInternalError \<and> (\<exists>ev. handed_over ev buf inst inst')"
  shows "stage_post R Ls buf inst L w (Return err, inst') w'"
  using ab_inst_inv [OF assms(1,2,3,5)] assms by (simp add: stage_post_def)

lemma wp_stageCopyWithDeadline:
  assumes inv: "inst_inv R Ls inst L w" and held: "entry_at (inst_heap inst) buf = Some (b, k)"
  shows "wp (stageCopyWithDeadline fuel P buf dst src sz kind inst) (stage_post R Ls buf inst L w) w"
proof -
  let ?inst = "inst\<lparr>inst_abandoned := reserve_slot (inst_abandoned inst)\<rparr>"
  let ?K = "adds (rest_resources inst) L"
  have ab: "inst_ab R ?inst ?K w"
    using reserve_slot_inv [OF inst_inv_ab [OF inv]] by simp
  have conns: "same_conns ?inst inst' \<longleftrightarrow> same_conns inst inst'"
      "not_handed_over ?inst inst' \<longleftrightarrow> not_handed_over inst inst'"
      "handed_over ev buf ?inst inst' \<longleftrightarrow> handed_over ev buf inst inst'" for inst' ev
    by (simp_all add: same_conns_def not_handed_over_def handed_over_def)
  have kept: "not_handed_over inst (unreserve ?inst)" "same_conns inst (unreserve ?inst)"
      "inst_buffers (unreserve ?inst) = inst_buffers inst"
    by (simp_all add: not_handed_over_def unreserve_def destroySlot_def same_conns_def)
  have ended: "wp (endCopy P ev err ?inst) (stage_post R Ls buf inst L w) w'"
    if "inst_ab R ?inst (adds {#Event (snd ev)#} ?K) w'" "qps_same w w'" for ev err w'
    by (rule wp_conseq [OF wp_endCopy [OF that]]) (auto intro!: stage_postI [OF inv] simp: kept)
  have loop: "wp (stageLoop fuel P buf ev d ?inst) (stage_post R Ls buf inst L w) w'"
    if "inst_ab R ?inst (adds {#Event (snd ev)#} ?K) w'" "qps_same w w'" for ev d w'
  proof (rule wp_conseq [OF wp_stageLoop [OF that, of buf b k]], goal_cases)
    case (3 res w'')
    obtain r inst' where res: "res = (r, inst')"
      by fastforce
    show ?case
    proof (cases "ends r")
      case True
      then obtain err where "r = Return err"
        using 3 res by (auto split: if_splits)
      then show ?thesis
        using 3 True unfolding res
        by (cases ev) (auto intro!: stage_postI [OF inv] simp: conns split: if_splits)
    qed (use 3 in \<open>simp add: res stage_post_def\<close>)
  qed (use held in simp_all)
  have failed: "stage_post R Ls buf inst L w (Return (mkError hipObjInternalError), unreserve ?inst) (w\<lparr>env := e\<rparr>)" for e
    by (rule stage_postI [OF inv]) (use ab kept in \<open>auto simp: ab_inv_def room_ok_def unreserve_def destroySlot_def\<close>)
  show ?thesis
    unfolding stageCopyWithDeadline_def Let_def
    using ab by (auto intro!: wp_eventCreate failed wp_memcpyAsync wp_liftE ended loop simp: ab_inv_def qps_same_def)
qed

lemma wp_stageToDevice:
  assumes "inst_inv R Ls inst L w" "entry_at (inst_heap inst) buf = Some (b, k)"
  shows "wp (stageToDevice fuel P devPtr buf sz offset inst) (stage_post R Ls buf inst L w) w"
  unfolding stageToDevice_def
  using wp_stageCopyWithDeadline [OF assms] stage_post_same [OF assms(1)] by (auto split: option.splits)

lemma wp_stageToHost:
  assumes "inst_inv R Ls inst L w" "entry_at (inst_heap inst) buf = Some (b, k)"
  shows "wp (stageToHost fuel P devPtr buf sz offset inst) (stage_post R Ls buf inst L w) w"
  unfolding stageToHost_def
  using wp_stageCopyWithDeadline [OF assms] stage_post_same [OF assms(1)] by (auto split: option.splits)

lemma wp_checkNoAbandonedCopy:
  assumes "inst_inv R Ls inst L w"
  shows "wp (checkNoAbandonedCopy P buf inst) (\<lambda>(err, inst') w'. inst_inv R Ls inst' L w' \<and>
           inst_frame inst w inst' w' \<and> same_conns inst inst' \<and> inst_buffers inst' = inst_buffers inst \<and>
           opError err \<in> {hipObjSuccess, hipObjBusy} \<and>
           (opError err = hipObjSuccess \<longrightarrow> hostBuf (bufAt inst buf) \<noteq> None \<longrightarrow>
              buf \<notin> copy_entry ` set (copies (inst_abandoned inst')))) w"
proof (cases "hostBuf (bufAt inst buf)")
  case None
  then show ?thesis
    using assms by (simp add: checkNoAbandonedCopy_def)
next
  case (Some host)
  have post: "inst_inv R Ls (inst\<lparr>inst_heap := h, inst_abandoned := a\<rparr>) L w' \<and>
      inst_frame inst w (inst\<lparr>inst_heap := h, inst_abandoned := a\<rparr>) w'"
    if "ab_inv R a (inst_buffers inst) h (adds (rest_resources inst) L) w'" "qps_same w w'" for a h w'
    by (rule ab_inst_inv [OF assms that(2)]) (use that in \<open>simp_all add: same_conns_def\<close>)
  show ?thesis
    using Some post unfolding checkNoAbandonedCopy_def running_def
    by (auto intro!: wp_conseq [OF wp_release_copies [OF inst_inv_ab [OF assms]]]
        simp: same_conns_def list_ex_iff copy_matches_def)
qed

subsection \<open>Registrations\<close>

lemma inst_buf:
  assumes "inst_inv R Ls inst L w"
  shows "buf_inv (with_copies R (copies (inst_abandoned inst))) (inst_buffers inst) (inst_heap inst)"
    "live (log w) = adds (heap_resources (inst_heap inst))
       (adds (copy_events (copies (inst_abandoned inst)) + rest_resources inst) L)"
  using inst_inv_ab [OF assms] by (simp_all add: ab_inv_def ac_simps)

lemma inst_buf_inv:
  assumes "inst_inv R Ls inst L w" "qps_same w w'"
    and "buf_inv (with_copies R' (copies (inst_abandoned inst))) m h"
    and "live (log w') = adds (heap_resources h) (adds (copy_events (copies (inst_abandoned inst)) + rest_resources inst) L)"
  shows "inst_inv R' Ls (inst\<lparr>inst_buffers := m, inst_heap := h\<rparr>) L w' \<and>
         inst_frame inst w (inst\<lparr>inst_buffers := m, inst_heap := h\<rparr>) w'"
  by (rule ab_inst_inv [OF assms(1,2)])
     (use assms inst_inv_ab [OF assms(1)] in \<open>simp_all add: ab_inv_def same_conns_def ac_simps\<close>)

text \<open>Both registrations guarantee the same, so one lemma serves both.\<close>

lemma wp_inst_register:
  assumes "inst_inv R Ls inst L w"
    and "\<And>K. live (log w) = adds (heap_resources (inst_heap inst)) K \<Longrightarrow>
       wp reg (register_post (with_copies R (copies (inst_abandoned inst))) key sz (inst_buffers inst) (inst_heap inst) K w) w"
  shows "wp (do { (r, m, h) \<leftarrow> reg; State_Monad.return (r, inst\<lparr>inst_buffers := m, inst_heap := h\<rparr>) })
     (\<lambda>(r, inst') w'. inst_inv R Ls inst' L w' \<and> inst_frame inst w inst' w' \<and> same_conns inst inst' \<and>
        inst_abandoned inst' = inst_abandoned inst \<and>
        (if r = Registered then registered_at key sz (inst_buffers inst) (inst_heap inst) (inst_buffers inst') (inst_heap inst')
         else inst' = inst)) w"
  unfolding wp_bind_iff
  by (rule wp_conseq [OF assms(2) [OF inst_buf(2) [OF assms(1)]]])
     (auto simp: register_post_def same_conns_def inst_buf_inv [OF assms(1)])

lemma wp_instRegisterBuffer:
  assumes "inst_inv R Ls inst L w"
  shows "wp (instRegisterBuffer P key sz inst)
     (\<lambda>(r, inst') w'. inst_inv R Ls inst' L w' \<and> inst_frame inst w inst' w' \<and> same_conns inst inst' \<and>
        inst_abandoned inst' = inst_abandoned inst \<and>
        (if r = Registered then registered_at key sz (inst_buffers inst) (inst_heap inst) (inst_buffers inst') (inst_heap inst')
         else inst' = inst)) w"
  unfolding instRegisterBuffer_def
  by (rule wp_inst_register [OF assms wp_registerBuffer [OF inst_buf(1) [OF assms]]])

lemma wp_instRegisterHostBuffer:
  assumes "inst_inv R Ls inst L w"
  shows "wp (instRegisterHostBuffer P key sz inst)
     (\<lambda>(r, inst') w'. inst_inv R Ls inst' L w' \<and> inst_frame inst w inst' w' \<and> same_conns inst inst' \<and>
        inst_abandoned inst' = inst_abandoned inst \<and>
        (if r = Registered then registered_at key sz (inst_buffers inst) (inst_heap inst) (inst_buffers inst') (inst_heap inst')
         else inst' = inst)) w"
  unfolding instRegisterHostBuffer_def
  by (rule wp_inst_register [OF assms wp_registerHostBuffer [OF inst_buf(1) [OF assms]]])

lemma wp_reclaim:
  assumes "ab_inv R a m h L w"
  shows "wp (reclaim V H a h) (\<lambda>(a', h') w'. ab_inv R a' m h' L w' \<and> qps_same w w') w"
  unfolding reclaim_def by (auto intro!: wp_conseq [OF wp_release_copies [OF assms]])

lemma wp_instDeregisterBuffer:
  assumes "inst_inv R Ls inst L w"
  shows "wp (instDeregisterBuffer P key inst) (\<lambda>(r, inst') w'. inst_inv R Ls inst' L w' \<and>
           inst_frame inst w inst' w' \<and> same_conns inst inst' \<and>
           (case map_of (entries (inst_buffers inst)) key of
              None \<Rightarrow> r = NotRegistered \<and> inst_buffers inst' = inst_buffers inst
            | Some i \<Rightarrow> if 0 < R i \<or> i \<in> copy_entry ` set (copies (inst_abandoned inst'))
                        then r = DeregisterBusy \<and> inst_buffers inst' = inst_buffers inst
                        else r = Deregistered \<and>
                             map_of (entries (inst_buffers inst')) = (map_of (entries (inst_buffers inst)))(key := None))) w"
proof -
  let ?K = "adds (rest_resources inst) L"
  have pos: "0 < with_copies R cs i \<longleftrightarrow> 0 < R i \<or> i \<in> copy_entry ` set cs" for cs i
    by (auto simp: with_copies_def copy_refs_def filter_empty_conv)
  have dereg: "wp (deregisterBuffer (verbs P) (hip P) key (inst_buffers inst) h) (\<lambda>(r, m, h') w''.
      inst_inv R Ls (inst\<lparr>inst_buffers := m, inst_heap := h', inst_abandoned := a\<rparr>) L w'' \<and>
      inst_frame inst w (inst\<lparr>inst_buffers := m, inst_heap := h', inst_abandoned := a\<rparr>) w'' \<and>
      (case map_of (entries (inst_buffers inst)) key of
         None \<Rightarrow> r = NotRegistered \<and> m = inst_buffers inst
       | Some i \<Rightarrow> if 0 < R i \<or> i \<in> copy_entry ` set (copies a) then r = DeregisterBusy \<and> m = inst_buffers inst
                   else r = Deregistered \<and> map_of (entries m) = (map_of (entries (inst_buffers inst)))(key := None))) w'"
    if ab: "ab_inv R a (inst_buffers inst) h ?K w'" and same: "qps_same w w'" for a h w'
  proof -
    have pre: "buf_inv (with_copies R (copies a)) (inst_buffers inst) h"
        "live (log w') = adds (heap_resources h) (adds (copy_events (copies a)) ?K)"
      using ab by (simp_all add: ab_inv_def ac_simps)
    have post: "inst_inv R Ls (inst\<lparr>inst_buffers := m, inst_heap := h', inst_abandoned := a\<rparr>) L w'' \<and>
        inst_frame inst w (inst\<lparr>inst_buffers := m, inst_heap := h', inst_abandoned := a\<rparr>) w''"
      if "buf_inv (with_copies R (copies a)) m h'" "live (log w'') = adds (heap_resources h') (adds (copy_events (copies a)) ?K)"
        "qps_same w' w''" for m h' w''
      by (rule ab_inst_inv [OF assms qps_same_trans [OF same that(3)]])
         (use ab that in \<open>simp_all add: ab_inv_def same_conns_def ac_simps\<close>)
    show ?thesis
    proof (rule wp_conseq [OF wp_deregisterBuffer [OF pre]], goal_cases)
      case (1 res w'')
      obtain r m h' where res: "res = (r, m, h')"
        by (metis prod.exhaust)
      note * = 1 [unfolded res deregister_post_def, simplified]
      then have "buf_inv (with_copies R (copies a)) m h'" "qps_same w' w''"
          "live (log w'') = adds (heap_resources h') (adds (copy_events (copies a)) ?K)"
        by simp_all
      with * post [of m h' w''] show ?case
        unfolding res by (cases "map_of (entries (inst_buffers inst)) key") (auto simp: pos split: if_splits)
    qed
  qed
  show ?thesis
    unfolding instDeregisterBuffer_def wp_bind_iff
    by (rule wp_conseq [OF wp_reclaim [OF inst_inv_ab [OF assms]]])
       (auto intro!: wp_conseq [OF dereg] simp: same_conns_def split: option.splits)
qed

lemma wp_instFind:
  assumes "inst_inv R Ls inst L w"
  shows "wp (instFind key inst) (\<lambda>(r, inst') w'. w' = w \<and> r = map_of (entries (inst_buffers inst)) key \<and>
           same_conns inst inst' \<and> inst_buffers inst' = inst_buffers inst \<and> inst_abandoned inst' = inst_abandoned inst \<and>
           inst_frame inst w inst' w \<and>
           (case r of None \<Rightarrow> inst' = inst
            | Some i \<Rightarrow> inst_inv (R(i := Suc (R i))) Ls inst' L w \<and> bufAt inst' i = bufAt inst i)) w"
proof (cases "map_of (entries (inst_buffers inst)) key")
  case None
  then show ?thesis
    by (simp add: instFind_def findBuffer_def)
next
  case (Some i)
  note buf = inst_buf [OF assms]
  obtain b n where e: "entry_at (inst_heap inst) i = Some (b, n)"
    using entry_of_key [OF buf(1) Some] by blast
  note copy = copy_ref_inv [OF buf(1) e]
  have "(with_copies R cs)(i := Suc (with_copies R cs i)) = with_copies (R(i := Suc (R i))) cs" for cs
    by (auto simp: with_copies_def fun_eq_iff)
  then have "inst_inv (R(i := Suc (R i))) Ls (inst\<lparr>inst_buffers := inst_buffers inst, inst_heap := copy_ref i (inst_heap inst)\<rparr>) L w"
    using copy buf(2) by (intro conjunct1 [OF inst_buf_inv [OF assms qps_same_refl]]) simp_all
  then show ?thesis
    using Some copy e by (simp add: instFind_def findBuffer_def same_conns_def bufAt_def inst_qps_def)
qed

lemma wp_instDropRef:
  assumes "inst_inv R Ls inst L w" "0 < R i"
  shows "wp (instDropRef P i inst) (\<lambda>(_, inst') w'. inst_inv (R(i := R i - 1)) Ls inst' L w' \<and>
           inst_frame inst w inst' w' \<and> same_conns inst inst' \<and> inst_buffers inst' = inst_buffers inst) w"
proof -
  note buf = inst_buf [OF assms(1)]
  have "(with_copies R cs)(i := with_copies R cs i - 1) = with_copies (R(i := R i - 1)) cs" for cs
    using assms(2) by (auto simp: with_copies_def fun_eq_iff)
  note drop = wp_drop_extra_ref [OF buf(1) _ buf(2), of i, unfolded this]
  note inv = inst_buf_inv [OF assms(1), where m = "inst_buffers inst", simplified]
  show ?thesis
    unfolding instDropRef_def wp_bind_iff
    by (rule wp_conseq [OF drop])
       (use assms(2) in \<open>auto simp: inv same_conns_def, simp add: with_copies_def\<close>)
qed

subsection \<open>Staging copies end\<close>

text \<open>Asking for the state of an event does not turn time back.\<close>

definition query_keeps_time :: "('e \<Rightarrow> int) \<Rightarrow> 'e Platform \<Rightarrow> bool" where
  "query_keeps_time clk P \<longleftrightarrow> (\<forall>e a. clk e \<le> clk (snd (run_state (hip_eventQuery (hip P) a) e)))"

lemma wp_eventQuery_time:
  assumes "query_keeps_time clk P" "\<And>q e. clk (env w) \<le> clk e \<Longrightarrow> Q q (w\<lparr>env := e\<rparr>)"
  shows "wp (liftE (hip_eventQuery (hip P) a)) Q w"
  using assms unfolding query_keeps_time_def wp_liftE_iff split_beta by blast

lemma wp_endCopy_ends: "wp (endCopy P ev err inst) (\<lambda>(r, inst') w'. ends r) w"
  unfolding endCopy_def wp_bind_iff by (intro wp_deleters) simp

lemma wp_stageLoop_ends:
  assumes "time_passes clk P" "query_keeps_time clk P" "nat (deadline - clk (env w)) < fuel"
  shows "wp (stageLoop fuel P buf ev deadline inst) (\<lambda>(r, inst') w'. ends r) w"
  using assms(3)
proof (induction fuel arbitrary: w)
  case (Suc fuel)
  have again: "wp (stageLoop fuel P buf ev deadline inst) (\<lambda>(r, inst') w'. ends r) (w\<lparr>env := e3\<rparr>)"
    if "clk (env w) \<le> clk e1" "\<not> deadline \<le> clk e1" "clk e1 < clk e2" "clk e2 \<le> clk e3" for e1 e2 e3
    by (rule Suc.IH) (use Suc.prems that in simp)
  show ?case
    by (auto intro!: wp_eventQuery_time [OF assms(2)] wp_endCopy_ends time_passes_rules(1,2) [OF assms(1)])
       (rule again; simp)
qed simp

lemma wp_stageCopy_ends:
  assumes "time_passes clk P" "query_keeps_time clk P" "nat (stageTimeout (inst_options inst) * ms) < fuel"
  shows "wp (stageCopyWithDeadline fuel P buf dst src sz kind inst) (\<lambda>(r, inst') w'. ends r) w"
  unfolding stageCopyWithDeadline_def Let_def
  using assms(3)
  by (auto intro!: wp_eventCreate wp_memcpyAsync wp_liftE [where m = "hip_eventRecord _ _"] wp_endCopy_ends
      time_passes_rules(1) [OF assms(1)] wp_stageLoop_ends [OF assms(1,2)]; linarith)

subsection \<open>The copies that are started\<close>

fun started_copy :: "event \<Rightarrow> (addr \<times> addr \<times> size_t \<times> hipMemcpyKind) option" where
  "started_copy (StartCopy dst src sz kind ok) = (if ok then Some (dst, src, sz, kind) else None)"
| "started_copy _ = None"

definition started :: "event list \<Rightarrow> (addr \<times> addr \<times> size_t \<times> hipMemcpyKind) list" where
  "started es = List.map_filter started_copy es"

lemma started_simps [simp]:
  "started [] = []" "started (es @ fs) = started es @ started fs"
  "started (ev # es) = (case started_copy ev of None \<Rightarrow> started es | Some c \<Rightarrow> c # started es)"
  by (simp_all add: started_def map_filter_simps split: option.splits) (simp add: List.map_filter_def)

lemma wp_endCopy_started: "wp (endCopy P ev err inst) (\<lambda>_ w'. started (log w') = started (log w)) w"
  unfolding endCopy_def wp_bind_iff by (intro wp_deleters) simp

lemma wp_stageLoop_started:
  "wp (stageLoop fuel P buf ev deadline inst) (\<lambda>_ w'. started (log w') = started (log w)) w"
proof (induction fuel arbitrary: w)
  case (Suc fuel)
  show ?case
    using Suc [of "w\<lparr>env := _\<rparr>"] wp_endCopy_started [of P ev _ inst "w\<lparr>env := _\<rparr>"]
    by (auto intro!: wp_liftE)
qed simp

lemma wp_stageCopy_started:
  "wp (stageCopyWithDeadline fuel P buf dst src sz kind inst)
     (\<lambda>_ w'. started (log w') = started (log w) \<or> started (log w') = started (log w) @ [(dst, src, sz, kind)]) w"
proof -
  have step: "wp m (\<lambda>_ w'. started (log w') = started (log w) \<or> started (log w') = started (log w) @ [(dst, src, sz, kind)]) w1"
    if "wp m (\<lambda>_ w'. started (log w') = started (log w1)) w1"
      "started (log w1) = started (log w) \<or> started (log w1) = started (log w) @ [(dst, src, sz, kind)]"
    for m :: "('a world, hipObjError_t outcome \<times> Instance) state" and w1
    by (rule wp_conseq [OF that(1)]) (use that(2) in simp)
  show ?thesis
    unfolding stageCopyWithDeadline_def Let_def
    by (auto intro!: wp_eventCreate wp_memcpyAsync wp_liftE step [OF wp_endCopy_started] step [OF wp_stageLoop_started])
qed

subsection \<open>Properties\<close>

text \<open>C18. The argument checks are exact. A range of a registration is accepted exactly when it is not
  empty, its pointer is not null, its offset is not negative and it ends inside the registration; a
  buffer can be registered exactly when it is not null, not empty, at most 4 GiB and does not wrap
  around the end of the address space. No sum in the checks can wrap.\<close>

theorem argument_checks_exact:
  "(opError (checkBufferArgs devPtr buf sz offset) = hipObjSuccess \<longleftrightarrow>
      devPtr \<noteq> nullptr \<and> 0 < uint sz \<and> 0 \<le> sint offset \<and>
      (\<exists>b. buf = Some b \<and> sint offset + uint sz \<le> uint (entry_size b))) \<and>
   (opError (checkRegistrationArgs ptr len) = hipObjSuccess \<longleftrightarrow>
      ptr \<noteq> nullptr \<and> 0 < uint len \<and> uint len \<le> 2 ^ 32 \<and> uint ptr + uint len < 2 ^ 64)"
proof -
  have pos: "0 < uint x \<longleftrightarrow> x \<noteq> 0" for x :: u64
    by (simp add: word_neq_0_conv word_less_def)
  have "uint (- 1 - ptr) = 2 ^ 64 - 1 - uint ptr"
    using uint_minus_simple_alt [of ptr "- 1"] by (simp add: unsigned_minus_1_eq_mask mask_eq_exp_minus_1)
  then have fits: "len > - 1 - ptr \<longleftrightarrow> \<not> uint ptr + uint len < 2 ^ 64"
    by (auto simp: word_less_def)
  have large: "len > MAX_MR_SIZE \<longleftrightarrow> \<not> uint len \<le> 2 ^ 32"
    by (simp add: MAX_MR_SIZE_def word_less_def not_le)
  have "opError (checkRegistrationArgs ptr len) = hipObjSuccess \<longleftrightarrow>
     ptr \<noteq> nullptr \<and> 0 < uint len \<and> uint len \<le> 2 ^ 32 \<and> uint ptr + uint len < 2 ^ 64"
    by (simp add: checkRegistrationArgs_def fits large pos)
  moreover have "opError (checkBufferArgs devPtr buf sz offset) = hipObjSuccess \<longleftrightarrow>
     devPtr \<noteq> nullptr \<and> 0 < uint sz \<and> 0 \<le> sint offset \<and>
     (\<exists>b. buf = Some b \<and> sint offset + uint sz \<le> uint (entry_size b))"
    by (auto simp: checkBufferArgs_def rangeInRegistration_iff pos split: option.splits)
  ultimately show ?thesis
    by simp
qed

text \<open>C16. A token for a range of a registration that does not wrap around describes exactly that range:
  its address is the registration's plus the offset, it ends inside the registration, it carries the
  key of the registration's memory region and the queue pair, port and GID of the connection; a
  range that does not fit has no token.\<close>

theorem token_range_inside:
  assumes "uint (entry_remoteAddr b) + uint (entry_size b) < 2 ^ 64"
  shows "case buildRdmaToken conn b sz offset of
      None \<Rightarrow> sint offset < 0 \<or> uint (entry_size b) < sint offset + uint sz
    | Some t \<Rightarrow> 0 \<le> sint offset \<and> uint (remoteAddr t) = uint (entry_remoteAddr b) + sint offset \<and>
        uint (remoteAddr t) + uint (tokenLength t) \<le> uint (entry_remoteAddr b) + uint (entry_size b) \<and>
        tokenLength t = sz \<and> rkey t = mr_rkey (mr b) \<and> qpNum t = qp_num (conn_qp conn) \<and> transport t = RC \<and>
        portNum t = dev_portNum (conn_device conn) \<and> gid t = toGid (localGid (conn_device conn))"
proof (cases "rangeInRegistration offset sz (entry_size b)")
  case True
  then have r: "0 \<le> sint offset" "sint offset + uint sz \<le> uint (entry_size b)"
    by (simp_all add: rangeInRegistration_iff)
  have "0 \<le> uint sz"
    by simp
  with r assms have "uint (entry_remoteAddr b) + uint offset < 2 ^ 64"
    unfolding sint_nonneg_uint [OF r(1)] by linarith
  then have "uint (entry_remoteAddr b + offset) = uint (entry_remoteAddr b) + sint offset"
    using uint_add_lem [of "entry_remoteAddr b" offset] sint_nonneg_uint [OF r(1)] by simp
  then show ?thesis
    using True r by (simp add: buildRdmaToken_def)
next
  case False
  then show ?thesis
    by (auto simp: buildRdmaToken_def rangeInRegistration_iff)
qed

definition sample_entry :: BufEntry where
  "sample_entry = newBufEntry (Some (4096, 3)) \<lparr>mr_ptr = 4096, mr_serial = 4, mr_rkey = 7\<rparr> 1024 False 4096"

theorem token_range_inside_witness:
  "case buildRdmaToken sample_connection sample_entry 512 512 of
     None \<Rightarrow> False
   | Some t \<Rightarrow> uint (remoteAddr t) = 4608 \<and> uint (remoteAddr t) + uint (tokenLength t) \<le> 5120"
  using token_range_inside [where b = sample_entry and conn = sample_connection and sz = 512 and offset = 512]
  by (simp add: sample_entry_def newBufEntry_def split: option.splits)


text \<open>
  An instance with one free connection and one staged registration, on the sample platform: serial
  number 0 is the context, 1 the protection domain, 2 and 3 the token connection, 4 and 5 the
  pool's connection, and 6 and 7 the registration.
\<close>

definition sample_init :: "nat \<Rightarrow> event" where
  "sample_init n = ModifyQp n (initAttrs sample_rdma_device)
     (IBV_QP_STATE OR IBV_QP_PKEY_INDEX OR IBV_QP_PORT OR IBV_QP_ACCESS_FLAGS) True"

definition sample_inst_world :: "int world" where
  "sample_inst_world = \<lparr>env = 0,
     log = [Acquire (Context 0), Acquire (Pd 1), Acquire (Cq 2), Acquire (Qp 3), sample_init 3,
            Acquire (Cq 4), Acquire (Qp 5), sample_init 5, Acquire (HostBuf 6), Acquire (Mr 7)], serial = 8\<rparr>"

definition sample_device01 :: RdmaDevice where
  "sample_device01 = sample_rdma_device\<lparr>dev_ctx := (dev_ctx sample_rdma_device)\<lparr>ctx_serial := 0\<rparr>,
     dev_pd := (dev_pd sample_rdma_device)\<lparr>pd_serial := 1\<rparr>\<rparr>"

definition sample_conn :: "nat \<Rightarrow> RcConnection" where
  "sample_conn n = \<lparr>conn_device = sample_device01, conn_cq = \<lparr>cq_ptr = 80, cq_serial = n, cqe = 16\<rparr>,
     conn_qp = \<lparr>qp_ptr = 96, qp_serial = Suc n, qp_num = 17\<rparr>\<rparr>"

definition sample_inst :: Instance where
  "sample_inst =
    \<lparr>inst_options = sample_options, inst_config = \<lparr>resolved_gpuDevice = 0, resolved_nicHint = [], resolved_nicIndex = 0\<rparr>,
     inst_device = sample_device01, inst_tokenConn = sample_conn 2,
     inst_pool = \<lparr>pool_device = sample_device01, slots = [Some (sample_conn 4)], free_slots = [0], pool_live = 1, closed = False\<rparr>,
     inst_buffers = \<lparr>entries = [(8192, 0)], policy = \<lparr>dmabuf_enabled = True, dmabuf_debug = False\<rparr>, requireGpuDirect = False\<rparr>,
     inst_heap = [Some (newBufEntry (Some (4096, 6)) \<lparr>mr_ptr = 4096, mr_serial = 7, mr_rkey = 7\<rparr> 1024 False 4096, 1)],
     inst_abandoned = newAbandonedCopies\<rparr>"

lemma sample_inst_live: "live (log sample_inst_world) = adds (instance_resources sample_inst) (Some {#})"
  by (simp add: sample_inst_world_def sample_init_def sample_inst_def instance_resources_def device_resources_def
      connection_resources_def sample_device01_def sample_conn_def newAbandonedCopies_def add_mset_commute live_def)

lemma sample_inst_legal: "legal_log (log sample_inst_world)"
  unfolding legal_log_append [of "[]", simplified]
  by (simp add: sample_inst_world_def sample_init_def initAttrs_def qp_state_of_def word_bw_assocs)

lemma sample_inst_buf: "buf_inv (\<lambda>_. 0) (inst_buffers sample_inst) (inst_heap sample_inst)"
  by (simp add: sample_inst_def buf_inv_def kMaxEntries_def cells_ok_def use_count_def entry_at_def)

lemma sample_inst_inv: "inst_inv (\<lambda>_. 0) [] sample_inst (Some {#}) sample_inst_world"
proof -
  have "conn_state (sample_conn 2) sample_inst_world = Some IBV_QPS_INIT"
      "conn_state (sample_conn 4) sample_inst_world = Some IBV_QPS_INIT" "serial sample_inst_world = 8"
    by (simp_all add: sample_inst_world_def sample_init_def sample_conn_def initAttrs_def qp_state_of_def)
  moreover have "pool_shape [] (inst_pool sample_inst)"
    by (auto simp: sample_inst_def pool_shape_def)
  ultimately have "inst_ok (\<lambda>_. 0) [] sample_inst sample_inst_world"
    using sample_inst_buf
    by (simp add: inst_ok_def pool_conns_def inst_qps_def sample_inst_def room_ok_def newAbandonedCopies_def) (simp add: sample_conn_def)
  then show ?thesis
    using sample_inst_live sample_inst_legal by (simp add: inst_inv_def)
qed

lemma sample_query_keeps_time: "query_keeps_time (\<lambda>t. t) sample_platform"
  by (simp add: query_keeps_time_def sample_platform_def sample_hip_def)

lemma sample_inst_facts:
  "entry_at (inst_heap sample_inst) 0 =
     Some (newBufEntry (Some (4096, 6)) \<lparr>mr_ptr = 4096, mr_serial = 7, mr_rkey = 7\<rparr> 1024 False 4096, 1)"
  "stageTimeout (inst_options sample_inst) = 30000"
  by (simp_all add: sample_inst_def entry_at_def sample_options_def defaultOptions_def kDefaultStageTimeout_def)




text \<open>C40. When the copy has been started and recording its event then fails, the function reports an
  error without handing the copy over: nothing keeps the registration, although the copy may still
  run.\<close>

theorem record_failure_untracked:
  assumes "\<And>e. fst (fst (run_state (hip_eventCreate (hip P)) e)) = hipSuccess"
    and "\<And>e. fst (run_state (hip_memcpyAsync (hip P) dst src sz kind) e) = hipSuccess"
    and "\<And>a e. fst (run_state (hip_eventRecord (hip P) a) e) \<noteq> hipSuccess"
  shows "wp (stageCopyWithDeadline fuel P buf dst src sz kind inst)
     (\<lambda>(r, inst') w'. r = Return (mkError hipObjInternalError) \<and> not_handed_over inst inst' \<and>
        started (log w') = started (log w) @ [(dst, src, sz, kind)]) w"
  unfolding stageCopyWithDeadline_def eventCreate_def memcpyAsync_def Let_def
  using assms
  by (simp add: wp_liftE_iff split_beta endCopy_def unreserve_def not_handed_over_def destroySlot_def HipEventDeleter_def)

definition failing_platform :: "int Platform" where
  "failing_platform = sample_platform\<lparr>hip := sample_hip\<lparr>hip_eventRecord := (\<lambda>_. State_Monad.return (hipErrorCode 1))\<rparr>\<rparr>"

theorem record_failure_untracked_witness:
  "wp (stageCopyWithDeadline 10 failing_platform 0 8192 4096 1024 hipMemcpyHostToDevice sample_inst)
     (\<lambda>(r, inst') w'. r = Return (mkError hipObjInternalError) \<and> not_handed_over sample_inst inst' \<and>
        started (log w') = started (log sample_inst_world) @ [(8192, 4096, 1024, hipMemcpyHostToDevice)]) sample_inst_world"
  by (rule record_failure_untracked) (simp_all add: failing_platform_def sample_hip_def)

end
