(* ===== verification/S3_Control.thy ===== *)
theory S3_Control
  imports Library_State
begin

text \<open>
  The application's callbacks, from \<^verbatim>\<open>include/hipobj.h\<close> (\<^verbatim>\<open>hipObjOps_t\<close>), \<^verbatim>\<open>src/s3/control.h\<close> and
  \<^verbatim>\<open>src/s3/control.cpp\<close>: sending the token and receiving the reply.

  A callback is the application's code, so it is a parameter: a function on the whole state of the
  library, which it may change by calling any hipObject function. \<open>callbacks_ok\<close> says what the library
  relies on: a callback that comes back, by returning or by throwing, leaves the library in a state
  that satisfies its invariant for the same calls in progress, on the thread that called it. Every
  sequence of public calls does (theory \<^verbatim>\<open>Api\<close>).
\<close>

subsection \<open>Callbacks\<close>

text \<open>
  The context pointer is part of the function. \<^verbatim>\<open>recvReply\<close> gets the size of the buffer and gives back
  its result, what it wrote to the buffer and the length it reports. A null function is \<open>None\<close>.
\<close>

record 'e hipObjOps_t =
  sendRequest :: "(string \<Rightarrow> ('e sys, int outcome) state) option"
  recvReply :: "(nat \<Rightarrow> ('e sys, (int \<times> string \<times> size_t) outcome) state) option"

record RdmaReply =
  reply_text :: string
  reply_status :: RdmaReplyStatus

definition injectRdmaToken :: "'e hipObjOps_t \<Rightarrow> string \<Rightarrow> ('e sys, bool outcome) state" where
  "injectRdmaToken ops token =
     (case sendRequest ops of
        None \<Rightarrow> State_Monad.return (Return False)
      | Some f \<Rightarrow> bindO (f token) (\<lambda>rc. State_Monad.return (Return (rc = 0))))"

text \<open>A buffer of \<open>n\<close> zeros after the callback has written to it, never past its end.\<close>

definition writtenBuffer :: "nat \<Rightarrow> string \<Rightarrow> string" where
  "writtenBuffer n written = take n written @ replicate (n - length written) NUL"

definition receiveRdmaReplyRaw :: "'e hipObjOps_t \<Rightarrow> nat \<Rightarrow> ('e sys, RdmaReply option outcome) state" where
  "receiveRdmaReplyRaw ops bufLen =
     (case recvReply ops of
        None \<Rightarrow> State_Monad.return (Return None)
      | Some f \<Rightarrow>
          if bufLen = 0 then State_Monad.return (Return None)
          else bindO (f bufLen) (\<lambda>(rc, written, replyLen). State_Monad.return (Return (
            if rc \<noteq> 0 then None
            else if unat replyLen > bufLen then None
            else let received = take (unat replyLen) (writtenBuffer bufLen written) in
              case decodeRdmaReply received of
                None \<Rightarrow> None
              | Some status \<Rightarrow> Some \<lparr>reply_text = received, reply_status = status\<rparr>))))"

subsection \<open>What the library relies on\<close>

text \<open>
  \<open>keeps pre m\<close>: whatever the calls in progress hold, provided that \<open>pre\<close> holds of it, \<open>m\<close> keeps the
  library's invariant and the thread's count of leases if it comes back, and does not wait for
  another thread while its own thread holds a lease.
\<close>

definition kept :: "holds \<Rightarrow> 'e sys \<Rightarrow> 'a outcome \<Rightarrow> 'e sys \<Rightarrow> bool" where
  "kept H s r s' \<longleftrightarrow> (ends r \<longrightarrow> sys_inv H s' \<and> leasesHeld s' = leasesHeld s) \<and> (r = Block \<longrightarrow> leasesHeld s = 0)"

definition keeps :: "(holds \<Rightarrow> bool) \<Rightarrow> ('e sys, 'a outcome) state \<Rightarrow> bool" where
  "keeps pre m \<longleftrightarrow> (\<forall>H s. pre H \<longrightarrow> sys_inv H s \<longrightarrow>
     wp m (kept H s) s)"

abbreviation call_ok :: "('e sys, 'a outcome) state \<Rightarrow> bool" where
  "call_ok m \<equiv> keeps (\<lambda>_. True) m"

definition callbacks_ok :: "'e hipObjOps_t \<Rightarrow> bool" where
  "callbacks_ok ops \<longleftrightarrow>
     (\<forall>f token. sendRequest ops = Some f \<longrightarrow> call_ok (f token)) \<and>
     (\<forall>f n. recvReply ops = Some f \<longrightarrow> call_ok (f n))"

lemma keepsI:
  "(\<And>H s. pre H \<Longrightarrow> sys_inv H s \<Longrightarrow> wp m (kept H s) s) \<Longrightarrow> keeps pre m"
  by (simp add: keeps_def)

lemma keepsD:
  "keeps pre m \<Longrightarrow> pre H \<Longrightarrow> sys_inv H s \<Longrightarrow> wp m (kept H s) s"
  by (simp add: keeps_def)

lemma keeps_any: "call_ok m \<Longrightarrow> keeps pre m"
  by (simp add: keeps_def)

lemma keeps_return [simp]: "r \<noteq> Block \<Longrightarrow> keeps pre (State_Monad.return r)"
  by (simp add: keeps_def kept_def)

lemma keeps_bindO:
  fixes m :: "('e sys, 'b outcome) state"
  assumes "keeps pre m" "\<And>a. keeps pre (f a)"
  shows "keeps pre (bindO m f)"
proof (rule keepsI)
  fix H and s :: "'e sys" assume pre: "pre H" and inv: "sys_inv H s"
  show "wp (bindO m f) (kept H s) s"
  proof (rule wp_bindO [OF keepsD [OF assms(1) pre inv]])
    fix a :: 'b and s' :: "'e sys" assume "kept H s (Return a) s'"
    then have "sys_inv H s'" "leasesHeld s' = leasesHeld s"
      by (simp_all add: kept_def)
    then show "wp (f a) (kept H s) s'"
      by (intro wp_conseq [OF keepsD [OF assms(2) pre]]) (simp_all add: kept_def)
  qed (simp_all add: kept_def)
qed

lemma keeps_catchO:
  assumes "keeps pre m"
  shows "keeps pre (catchO m a)"
  by (rule keepsI, rule wp_catchO, rule keepsD [OF assms]) (simp_all add: kept_def)

lemma call_ok_injectRdmaToken: "callbacks_ok ops \<Longrightarrow> call_ok (injectRdmaToken ops token)"
  by (auto simp: injectRdmaToken_def callbacks_ok_def intro!: keeps_bindO split: option.splits)

lemma call_ok_receiveRdmaReplyRaw: "callbacks_ok ops \<Longrightarrow> call_ok (receiveRdmaReplyRaw ops n)"
  by (auto simp: receiveRdmaReplyRaw_def callbacks_ok_def split_beta intro!: keeps_bindO split: option.splits)

text \<open>A reply is never read past what the buffer holds, and its text is the part the callback reports.\<close>

lemma wp_receive_bounds:
  "wp (receiveRdmaReplyRaw ops n) (\<lambda>r _. \<forall>reply. r = Return (Some reply) \<longrightarrow>
     length (reply_text reply) \<le> n \<and> decodeRdmaReply (reply_text reply) = Some (reply_status reply)) s"
  unfolding receiveRdmaReplyRaw_def
  by (auto simp: bindO_def Let_def intro!: wpI split: option.splits outcome.splits if_splits prod.splits)

end
