(* ===== verification/Rdma_Transfer.thy ===== *)
theory Rdma_Transfer
  imports Staging S3_Control
begin

text \<open>
  One transfer, from the unnamed namespace of \<^verbatim>\<open>src/hipobj.cpp\<close>: leasing a connection, exchanging the
  token and the reply through the application's callbacks, connecting to the peer, waiting for the
  completion, and giving the lease back however the transfer ends. The lemmas show that a transfer
  keeps the library's invariant and gives back its lease, whatever the callbacks do with the library
  in the meantime.
\<close>

subsection \<open>Using an instance\<close>

text \<open>
  \<open>withInstance\<close> holds the current instance while a call runs, and \<open>withBuffer\<close> holds what
  \<^verbatim>\<open>buffers.find\<close> returns; leaving the scope, by returning or by an exception, drops the reference.
  \<open>fail\<close> makes the call's result from an error code.
\<close>

definition readInstance :: "nat \<Rightarrow> ('e sys, Instance) state" where
  "readInstance i = State (\<lambda>s. (fst (the (entry_at (instances s) i)), s))"

definition withInstance ::
  "'e Platform \<Rightarrow> (hipObjError_t \<Rightarrow> 'a) \<Rightarrow> (nat \<Rightarrow> ('e sys, 'a outcome) state) \<Rightarrow> ('e sys, 'a outcome) state" where
  "withInstance P fail f = do {
     instance_ref \<leftarrow> currentInstance;
     case instance_ref of
       None \<Rightarrow> State_Monad.return (Return (fail (mkError hipObjNotInitialized)))
     | Some i \<Rightarrow> finallyO (f i) (drop_instance P i)
   }"

definition withBuffer ::
  "'e Platform \<Rightarrow> nat \<Rightarrow> addr \<Rightarrow> (nat option \<Rightarrow> ('e sys, 'a outcome) state) \<Rightarrow> ('e sys, 'a outcome) state" where
  "withBuffer P i devPtr f = do {
     buf \<leftarrow> onInstance i (instFind devPtr);
     case buf of
       None \<Rightarrow> f None
     | Some j \<Rightarrow> finallyO (f (Some j)) (onInstance i (instDropRef P j))
   }"

subsection \<open>Leases\<close>

definition acquireLease :: "nat \<Rightarrow> ('e sys, (AcquireError + Lease) outcome) state" where
  "acquireLease i = State (\<lambda>s. case the (entry_at (instances s) i) of (inst, n) \<Rightarrow>
     case acquire (leasesHeld s) (inst_pool inst) of
       Return (r, p, held) \<Rightarrow>
         (Return r, s\<lparr>instances := (instances s)[i := Some (inst\<lparr>inst_pool := p\<rparr>, n)], leasesHeld := held\<rparr>)
     | Throw \<Rightarrow> (Throw, s)
     | Block \<Rightarrow> (Block, s)
     | Running \<Rightarrow> (Running, s))"

definition endLease :: "'e Platform \<Rightarrow> nat \<Rightarrow> Lease \<Rightarrow> ('e sys, unit) state" where
  "endLease P i l = do {
     s \<leftarrow> State_Monad.get;
     held \<leftarrow> onInstance i (\<lambda>inst. do {
        (p, held) \<leftarrow> destroyLease (verbs P) l (inst_pool inst) (leasesHeld s);
        State_Monad.return (held, inst\<lparr>inst_pool := p\<rparr>)
      });
     s' \<leftarrow> State_Monad.get;
     State_Monad.set (s'\<lparr>leasesHeld := held\<rparr>)
   }"

subsection \<open>The transfer\<close>

text \<open>After a successful reply; \<open>None\<close> is polling that is still going on when the fuel is used up.\<close>

definition finishTransferAfterReply ::
  "build_config \<Rightarrow> nat \<Rightarrow> 'e Platform \<Rightarrow> Lease \<Rightarrow> string \<Rightarrow> bool \<Rightarrow> Instance \<Rightarrow>
   ('e world, (bool option \<times> Lease) \<times> Instance) state" where
  "finishTransferAfterReply B fuel P lease reply requiresDeviceSync inst = do {
     (connected_ok, lease') \<leftarrow> (case parsePeerTokenFromReply reply of
         None \<Rightarrow> State_Monad.return (True, lease)
       | Some peer \<Rightarrow> connectLease B (verbs P) (inst_pool inst) lease peer);
     if \<not> connected_ok then State_Monad.return ((Some False, lease'), inst)
     else do {
       polled \<leftarrow> pollCompletion fuel P (leaseConnection (inst_pool inst) lease') None (pollTimeout (inst_options inst));
       if polled \<noteq> Some True then State_Monad.return ((polled, lease'), inst)
       else if \<not> requiresDeviceSync then State_Monad.return ((Some True, lease'), inst)
       else do {
         err \<leftarrow> liftE (hip_deviceSynchronize (hip P));
         State_Monad.return ((Some (err = hipSuccess), lease'), inst)
       }
     }
   }"

text \<open>Sending the token and receiving the reply: an error, or the text of a successful reply.\<close>

definition exchangeTokens ::
  "nat \<Rightarrow> nat \<Rightarrow> size_t \<Rightarrow> u64 \<Rightarrow> 'e hipObjOps_t \<Rightarrow> Lease \<Rightarrow> ('e sys, (hipObjError_t + string) outcome) state" where
  "exchangeTokens i buf sz offset ops lease = do {
     inst \<leftarrow> readInstance i;
     case buildRdmaToken (leaseConnection (inst_pool inst) lease) (bufAt inst buf) sz offset of
       None \<Rightarrow> State_Monad.return (Return (Inl (mkError hipObjRdmaError)))
     | Some token \<Rightarrow>
         bindO (injectRdmaToken ops (take kRdmaTokenHexLen (encodeRdmaTokenHex token))) (\<lambda>sent.
           if \<not> sent then State_Monad.return (Return (Inl (mkError hipObjS3Error)))
           else bindO (receiveRdmaReplyRaw ops kReplyBufLen) (\<lambda>reply. State_Monad.return (Return (
             case reply of
               None \<Rightarrow> Inl (mkError hipObjS3Error)
             | Some rep \<Rightarrow> if reply_status rep \<noteq> Success then Inl (mkError hipObjS3Error) else Inr (reply_text rep)))))
   }"

definition runRdmaTransfer ::
  "build_config \<Rightarrow> nat \<Rightarrow> 'e Platform \<Rightarrow> nat \<Rightarrow> nat \<Rightarrow> size_t \<Rightarrow> u64 \<Rightarrow> 'e hipObjOps_t \<Rightarrow>
   ('e sys, hipObjError_t outcome) state" where
  "runRdmaTransfer B fuel P i buf sz offset ops =
     bindO (acquireLease i) (\<lambda>acq. case acq of
       Inl err \<Rightarrow> State_Monad.return (Return (acquireError err))
     | Inr lease \<Rightarrow> do {
         r \<leftarrow> exchangeTokens i buf sz offset ops lease;
         case r of
           Return (Inr reply) \<Rightarrow> do {
             (fin, lease') \<leftarrow> onInstance i (\<lambda>inst.
               finishTransferAfterReply B fuel P lease reply (isDmabuf (bufAt inst buf)) inst);
             case fin of
               None \<Rightarrow> State_Monad.return Running
             | Some ok \<Rightarrow> do {
                 _ \<leftarrow> endLease P i lease';
                 State_Monad.return (Return (mkError (if ok then hipObjSuccess else hipObjRdmaError)))
               }
           }
         | Return (Inl err) \<Rightarrow> do { _ \<leftarrow> endLease P i lease; State_Monad.return (Return err) }
         | Throw \<Rightarrow> do { _ \<leftarrow> endLease P i lease; State_Monad.return Throw }
         | Block \<Rightarrow> State_Monad.return Block
         | Running \<Rightarrow> State_Monad.return Running
       })"

subsection \<open>The pool of an instance\<close>

definition other_resources :: "Instance \<Rightarrow> resource multiset" where
  "other_resources inst = device_resources (inst_device inst) + connection_resources (inst_tokenConn inst) +
     copy_events (copies (inst_abandoned inst)) + heap_resources (inst_heap inst)"

lemma inst_inv_pool: "inst_inv R Ls inst L w \<Longrightarrow> pool_inv Ls (inst_pool inst) (adds (other_resources inst) L) w"
  by (simp add: inst_inv_def inst_ok_def pool_inv_def instance_resources_def other_resources_def ac_simps)

lemma pool_inst_inv:
  assumes inv: "inst_inv R Ls inst L w" and pool: "pool_inv Ls' p (adds (other_resources inst) L) w'"
    and frame: "qp_frame N w w'" "N \<subseteq> qp_id ` set (connections (slots (inst_pool inst)))"
    and fresh: "\<forall>c\<in>set (connections (slots p)). c \<in> set (connections (slots (inst_pool inst))) \<or> serial w \<le> qp_id c"
  shows "inst_inv R Ls' (inst\<lparr>inst_pool := p\<rparr>) L w' \<and> inst_frame inst w (inst\<lparr>inst_pool := p\<rparr>) w'"
proof -
  let ?t = "qp_id (inst_tokenConn inst)"
  have ok: "?t < serial w" "?t \<notin> qp_id ` set (connections (slots (inst_pool inst)))"
      "conn_state (inst_tokenConn inst) w = Some IBV_QPS_INIT"
    using inv by (auto simp: inst_inv_def inst_ok_def inst_qps_def)
  then have "conn_state (inst_tokenConn inst) w' = Some IBV_QPS_INIT" "?t < serial w'"
    using frame by (auto simp: qp_frame_def subset_iff)
  moreover have "?t \<notin> qp_id ` set (connections (slots p))"
    using ok fresh by force
  ultimately have "inst_ok R Ls' (inst\<lparr>inst_pool := p\<rparr>) w'"
    using inv pool by (auto simp: inst_inv_def inst_ok_def inst_qps_def pool_inv_def pool_conns_def)
  moreover have "live (log w') = adds (instance_resources (inst\<lparr>inst_pool := p\<rparr>)) L" "legal_log (log w')"
    using pool by (simp_all add: pool_inv_def instance_resources_def other_resources_def ac_simps)
  moreover have "inst_frame inst w (inst\<lparr>inst_pool := p\<rparr>) w'"
    using frame fresh unfolding inst_frame_def inst_qps_def qp_frame_def by auto
  ultimately show ?thesis
    by (simp add: inst_inv_def)
qed

lemma leased_conn:
  assumes "inst_inv R (l # Ls) inst L w"
  shows "leaseConnection (inst_pool inst) l \<in> set (connections (slots (inst_pool inst)))"
  using leased_slot(1,2) [OF inst_inv_pool [OF assms]] by (metis connections_set nth_mem)

lemma wp_connectLease_inst:
  assumes "inst_inv R (l # Ls) inst L w" "\<not> connected l"
  shows "wp (connectLease B V (inst_pool inst) l tok) (\<lambda>(ok, l') w'. inst_inv R (l' # Ls) inst L w' \<and>
           inst_frame inst w inst w') w"
proof -
  let ?c = "leaseConnection (inst_pool inst) l"
  have moves: "wp (connectLease B V (inst_pool inst) l tok) (\<lambda>_ w'. qp_frame {qp_id ?c} w w') w"
    unfolding connectLease_def by (auto intro!: wp_conseq [OF wp_connectRcPeer] simp: only_moves_def)
  note pool = inst_inv_pool [OF assms(1)]
  show ?thesis
    by (rule wp_conseq [OF wp_conj [OF wp_connectLease [OF pool assms(2)] moves]])
       (use leased_conn [OF assms(1)] pool_inst_inv [OF assms(1), of _ "inst_pool inst"] in auto)
qed

lemma wp_pollLoop_log:
  "wp (pollLoop fuel P c expected deadline) (\<lambda>r w'. log w' = log w \<and> serial w' = serial w) w"
proof (induction fuel arbitrary: w)
  case (Suc fuel)
  show ?case
    using Suc [of "w\<lparr>env := _\<rparr>"] by (auto intro!: wp_liftE)
qed simp

lemma wp_pollCompletion_log:
  "wp (pollCompletion fuel P c expected t) (\<lambda>r w'. log w' = log w \<and> serial w' = serial w) w"
  unfolding pollCompletion_def using wp_pollLoop_log [of fuel P c expected _ "w\<lparr>env := _\<rparr>"]
  by (auto intro!: wp_liftE)

lemma inst_inv_log: "log w' = log w \<Longrightarrow> serial w' = serial w \<Longrightarrow> inst_inv R Ls inst L w' = inst_inv R Ls inst L w"
  by (simp add: inst_inv_def inst_ok_def pool_conns_def)

lemma inst_frame_log: "log w'' = log w' \<Longrightarrow> serial w'' = serial w' \<Longrightarrow> inst_frame inst w inst' w'' = inst_frame inst w inst' w'"
  by (simp add: inst_frame_def qp_frame_def)

lemma wp_finishTransferAfterReply:
  assumes "inst_inv R (l # Ls) inst L w" "\<not> connected l"
  shows "wp (finishTransferAfterReply B fuel P l reply sync inst) (\<lambda>((fin, l'), inst') w'.
           inst' = inst \<and> inst_inv R (l' # Ls) inst L w' \<and> inst_frame inst w inst w') w"
proof -
  have polled: "wp (do { polled \<leftarrow> pollCompletion fuel P c None t;
       if polled \<noteq> Some True then State_Monad.return ((polled, l'), inst)
       else if \<not> sync then State_Monad.return ((Some True, l'), inst)
       else do { err \<leftarrow> liftE (hip_deviceSynchronize (hip P)); State_Monad.return ((Some (err = hipSuccess), l'), inst) } })
     (\<lambda>((fin, l'), inst') w'. inst' = inst \<and> inst_inv R (l' # Ls) inst L w' \<and> inst_frame inst w inst w') w1"
    if "inst_inv R (l' # Ls) inst L w1" "inst_frame inst w inst w1" for l' c t w1
  proof (rule wp_bindI [OF wp_pollCompletion_log], goal_cases)
    case (1 polled w2)
    then have same: "inst_inv R (l' # Ls) inst L w2" "inst_frame inst w inst w2"
      using that inst_inv_log [of w2 w1] inst_frame_log [of w2 w1] by simp_all
    then have "inst_inv R (l' # Ls) inst L (w2\<lparr>env := e\<rparr>)" "inst_frame inst w inst (w2\<lparr>env := e\<rparr>)" for e
      using inst_inv_log [of "w2\<lparr>env := e\<rparr>" w2] inst_frame_log [of "w2\<lparr>env := e\<rparr>" w2] by simp_all
    with same show ?case
      by (auto intro!: wp_liftE)
  qed
  show ?thesis
  proof (cases "parsePeerTokenFromReply reply")
    case None
    then show ?thesis
      using polled [OF assms(1)] by (simp add: finishTransferAfterReply_def)
  next
    case (Some peer)
    show ?thesis
      unfolding finishTransferAfterReply_def Some option.case
    proof (rule wp_bindI [OF wp_connectLease_inst [OF assms]], goal_cases)
      case (1 res w1)
      then show ?case
        using polled by (cases res) (simp del: wp_bind_iff)
    qed
  qed
qed

subsection \<open>Calls that hold an instance\<close>

lemma set_holds_simps [simp]:
  "set_holds i R Ls (set_holds i R' Ls' H) = set_holds i R Ls H"
  "h_inst (set_holds i R Ls H) = h_inst H"
  "h_entry (set_holds i R Ls H) = (h_entry H)(i := R)" "h_lease (set_holds i R Ls H) = (h_lease H)(i := Ls)"
  by (simp_all add: set_holds_def)

lemma sys_inv_leases [simp]: "sys_inv H (s\<lparr>leasesHeld := n\<rparr>) \<longleftrightarrow> sys_inv H s"
proof -
  have "cell_ok H (s\<lparr>leasesHeld := n\<rparr>) i \<longleftrightarrow> cell_ok H s i" for i
    by (cases "entry_at (instances s) i") (auto simp: cell_ok_def)
  then show ?thesis
    by (simp add: sys_inv_def)
qed

abbreviation holds_instance :: "nat \<Rightarrow> holds \<Rightarrow> bool" where
  "holds_instance i H \<equiv> 0 < h_inst H i"

abbreviation holds_buffer :: "nat \<Rightarrow> nat \<Rightarrow> holds \<Rightarrow> bool" where
  "holds_buffer i j H \<equiv> holds_instance i H \<and> 0 < h_entry H i j"

text \<open>
  Running an operation on the instance: for the results that are \<open>good\<close>, what it keeps of the instance
  becomes what the library's invariant says.
\<close>

lemma wp_onInstance_when:
  assumes inv: "sys_inv H s" and held: "holds_instance i H"
    and op: "\<And>inst L. inst_inv (h_entry H i) (h_lease H i) inst L (sys_world s) \<Longrightarrow>
      wp (f inst) (\<lambda>(r, inst') w'. good r \<longrightarrow> (\<exists>R' Ls'. inst_inv R' Ls' inst' L w' \<and>
         inst_frame inst (sys_world s) inst' w' \<and> post r R' Ls')) (sys_world s)"
  shows "wp (onInstance i f) (\<lambda>r s'. same_call s s' \<and>
           (good r \<longrightarrow> (\<exists>R' Ls'. post r R' Ls' \<and> sys_inv (set_holds i R' Ls' H) s'))) s"
proof -
  obtain inst n where cell: "entry_at (instances s) i = Some (inst, n)"
    using sys_inv_held [OF inv held] by auto
  obtain L where L: "inst_inv (h_entry H i) (h_lease H i) inst L (sys_world s)"
    using sys_inv_cell(1) [OF inv cell] by auto
  then have old: "live (log (sys_world s)) = adds (instance_resources inst) L"
    by (simp add: inst_inv_def)
  obtain r inst' w' where run: "run_state (f inst) (sys_world s) = ((r, inst'), w')"
    by (metis prod.exhaust)
  let ?s = "s\<lparr>sys_world := w', instances := (instances s)[i := Some (inst', n)]\<rparr>"
  have "\<exists>R' Ls'. post r R' Ls' \<and> sys_inv (set_holds i R' Ls' H) ?s" if good_r: "good r"
  proof -
    obtain R' Ls' where "inst_inv R' Ls' inst' L w'" "inst_frame inst (sys_world s) inst' w'" "post r R' Ls'"
      using wp_run [OF op [OF L] run] good_r by (simp only: prod.case) blast
    moreover from this have "sys_inv (set_holds i R' Ls' H) ?s"
      using held by (intro sys_inv_update [OF inv cell old _ leaked_from_refl]) simp_all
    ultimately show ?thesis
      by blast
  qed
  then show ?thesis
    using run cell by (simp add: onInstance_def wp_def same_call_def)
qed

lemma wp_onInstance_result:
  assumes inv: "sys_inv H s" and held: "holds_instance i H"
    and op: "\<And>inst L. inst_inv (h_entry H i) (h_lease H i) inst L (sys_world s) \<Longrightarrow>
      wp (f inst) (\<lambda>(r, inst') w'. out r) (sys_world s)"
  shows "wp (onInstance i f) (\<lambda>r s'. out r) s"
proof -
  obtain inst n where cell: "entry_at (instances s) i = Some (inst, n)"
    using sys_inv_held [OF inv held] by auto
  obtain L where "inst_inv (h_entry H i) (h_lease H i) inst L (sys_world s)"
    using sys_inv_cell(1) [OF inv cell] by auto
  then have "wp (f inst) (\<lambda>(r, inst') w'. out r) (sys_world s)"
    by (rule op)
  then show ?thesis
    using cell by (auto simp: onInstance_def wp_def split: prod.splits)
qed

text \<open>Operations that keep what the calls in progress hold.\<close>

lemma keeps_onInstance:
  fixes f :: "Instance \<Rightarrow> ('e world, 'a outcome \<times> Instance) state"
  assumes "\<And>H. pre H \<Longrightarrow> holds_instance i H"
    and "\<And>H inst L w. pre H \<Longrightarrow> inst_inv (h_entry H i) (h_lease H i) inst L w \<Longrightarrow>
      wp (f inst) (\<lambda>(r, inst') w'. r \<noteq> Block \<and> (ends r \<longrightarrow>
        inst_inv (h_entry H i) (h_lease H i) inst' L w' \<and> inst_frame inst w inst' w')) w"
  shows "keeps pre (onInstance i f)"
proof (rule keepsI)
  fix H and s :: "'e sys" assume pre: "pre H" and inv: "sys_inv H s"
  have "wp (onInstance i f) (\<lambda>r s'. same_call s s' \<and> (ends r \<longrightarrow>
     (\<exists>R' Ls'. (R' = h_entry H i \<and> Ls' = h_lease H i) \<and> sys_inv (set_holds i R' Ls' H) s'))) s"
    by (rule wp_onInstance_when [OF inv assms(1) [OF pre]], rule wp_conseq [OF assms(2) [OF pre]]) auto
  moreover have "wp (onInstance i f) (\<lambda>r s'. r \<noteq> Block) s"
    by (rule wp_onInstance_result [OF inv assms(1) [OF pre]], rule wp_conseq [OF assms(2) [OF pre]]) auto
  ultimately show "wp (onInstance i f) (kept H s) s"
    by (rule wp_conseq [OF wp_conj]) (auto simp: same_call_def kept_def)
qed

lemma keeps_onInstance_total:
  fixes f :: "Instance \<Rightarrow> ('e world, 'a \<times> Instance) state"
  assumes "\<And>H. pre H \<Longrightarrow> holds_instance i H"
    and "\<And>H inst L w. pre H \<Longrightarrow> inst_inv (h_entry H i) (h_lease H i) inst L w \<Longrightarrow>
      wp (f inst) (\<lambda>(r, inst') w'. inst_inv (h_entry H i) (h_lease H i) inst' L w' \<and> inst_frame inst w inst' w') w"
  shows "keeps pre (liftO (onInstance i f))"
proof (rule keepsI)
  fix H and s :: "'e sys" assume pre: "pre H" and inv: "sys_inv H s"
  have "wp (onInstance i f) (\<lambda>r s'. same_call s s' \<and> (True \<longrightarrow>
     (\<exists>R' Ls'. (R' = h_entry H i \<and> Ls' = h_lease H i) \<and> sys_inv (set_holds i R' Ls' H) s'))) s"
    by (rule wp_onInstance_when [OF inv assms(1) [OF pre]]) (use assms(2) [OF pre] in auto)
  then show "wp (liftO (onInstance i f)) (kept H s) s"
    unfolding wp_liftO by (rule wp_conseq) (auto simp: same_call_def kept_def)
qed

lemma keeps_read:
  assumes "\<And>inst. keeps pre (f inst)"
  shows "keeps pre (State_Monad.bind (readInstance i) f)"
  by (rule keepsI) (simp add: readInstance_def wp_def [of "State _"], rule keepsD [OF assms])

subsection \<open>Leases and the transfer\<close>

lemma wp_acquireLease:
  assumes inv: "sys_inv H s" and held: "holds_instance i H"
  shows "wp (acquireLease i) (\<lambda>r s'. current s' = current s \<and> tokens s' = tokens s \<and> (case r of
           Return (Inl err) \<Rightarrow> sys_inv H s' \<and> leasesHeld s' = leasesHeld s
         | Return (Inr l) \<Rightarrow> \<not> connected l \<and> sys_inv (set_holds i (h_entry H i) (l # h_lease H i) H) s' \<and>
             leasesHeld s' = Suc (leasesHeld s)
         | Throw \<Rightarrow> False
         | Block \<Rightarrow> leasesHeld s = 0
         | Running \<Rightarrow> False)) s"
proof -
  obtain inst n where cell: "entry_at (instances s) i = Some (inst, n)"
    using sys_inv_held [OF inv held] by auto
  obtain L where L: "inst_inv (h_entry H i) (h_lease H i) inst L (sys_world s)"
    using sys_inv_cell(1) [OF inv cell] by auto
  note pool = inst_inv_pool [OF L]
  have old: "live (log (sys_world s)) = adds (instance_resources inst) L"
    using L by (simp add: inst_inv_def)
  show ?thesis
  proof (cases "acquire (leasesHeld s) (inst_pool inst)")
    case (Return x)
    obtain r p k where x: "x = (r, p, k)"
      by (metis prod.exhaust)
    note acq = acquire_inv [OF pool Return [unfolded x]]
    show ?thesis
    proof (cases r)
      case (Inl err)
      then have "s\<lparr>instances := (instances s)[i := Some (inst\<lparr>inst_pool := p\<rparr>, n)], leasesHeld := k\<rparr> = s"
        using acq entry_at_bound [OF cell] by (simp add: list_update_same_conv)
      then show ?thesis
        using Inl Return x cell inv by (simp add: acquireLease_def wp_def)
    next
      case (Inr l)
      have same: "qp_frame {} (sys_world s) (sys_world s)"
        by simp
      have "inst_inv (h_entry H i) (l # h_lease H i) (inst\<lparr>inst_pool := p\<rparr>) L (sys_world s) \<and>
          inst_frame inst (sys_world s) (inst\<lparr>inst_pool := p\<rparr>) (sys_world s)"
        using acq Inr by (intro pool_inst_inv [OF L _ same]) auto
      then have "sys_inv (set_holds i (h_entry H i) (l # h_lease H i) H)
          (s\<lparr>sys_world := sys_world s, instances := (instances s)[i := Some (inst\<lparr>inst_pool := p\<rparr>, n)]\<rparr>)"
        using held by (intro sys_inv_update [OF inv cell old _ leaked_from_refl]) simp_all
      then show ?thesis
        using Inr Return x cell acq by (simp add: acquireLease_def wp_def)
    qed
  qed (use cell in \<open>auto simp: acquireLease_def wp_def acquire_def split: if_splits prod.splits sum.splits\<close>)
qed

lemma wp_endLease:
  assumes inv: "sys_inv (set_holds i R (l # Ls) H) s" and held: "holds_instance i H"
  shows "wp (endLease P i l) (\<lambda>_ s'. sys_inv (set_holds i R Ls H) s' \<and> leasesHeld s' = leasesHeld s - 1) s"
proof -
  have op: "wp (do { (p, k) \<leftarrow> destroyLease (verbs P) l (inst_pool inst) m; State_Monad.return (k, inst\<lparr>inst_pool := p\<rparr>) })
      (\<lambda>(r, inst') w'. True \<longrightarrow> (\<exists>R' Ls'. inst_inv R' Ls' inst' L w' \<and> inst_frame inst w inst' w' \<and>
         (R' = R \<and> Ls' = Ls \<and> r = m - 1))) w" if L: "inst_inv R (l # Ls) inst L w" for inst L w m
  proof -
    note pool = inst_inv_pool [OF L]
    have post: "inst_inv R Ls (inst\<lparr>inst_pool := p\<rparr>) L w' \<and> inst_frame inst w (inst\<lparr>inst_pool := p\<rparr>) w'"
      if "pool_inv Ls p (adds (other_resources inst) L) w'" "qp_frame {qp_id (leaseConnection (inst_pool inst) l)} w w'"
        "\<forall>c\<in>set (connections (slots p)). c \<in> set (connections (slots (inst_pool inst))) \<or> serial w \<le> qp_id c" for p w'
      by (rule pool_inst_inv [OF L that(1,2) _ that(3)]) (use leased_conn [OF L] in simp)
    show ?thesis
      unfolding destroyLease_def by (auto intro!: wp_conseq [OF wp_release [OF pool]] simp: post)
  qed
  have "wp (onInstance i (\<lambda>inst. do { (p, k) \<leftarrow> destroyLease (verbs P) l (inst_pool inst) (leasesHeld s);
         State_Monad.return (k, inst\<lparr>inst_pool := p\<rparr>) }))
      (\<lambda>r s'. same_call s s' \<and> (True \<longrightarrow> (\<exists>R' Ls'. (R' = R \<and> Ls' = Ls \<and> r = leasesHeld s - 1) \<and>
         sys_inv (set_holds i R' Ls' (set_holds i R (l # Ls) H)) s'))) s"
    by (rule wp_onInstance_when [OF inv]) (use held op in simp_all)
  then show ?thesis
    unfolding endLease_def by (auto elim: wp_conseq)
qed

lemma keeps_exchangeTokens: "callbacks_ok ops \<Longrightarrow> call_ok (exchangeTokens i buf sz offset ops lease)"
  unfolding exchangeTokens_def
  by (auto intro!: keeps_read keeps_bindO call_ok_injectRdmaToken call_ok_receiveRdmaReplyRaw split: option.splits)

lemma wp_finishTransfer_sys:
  assumes inv: "sys_inv (set_holds i R (l # Ls) H) s" and held: "holds_instance i H" and l: "\<not> connected l"
  shows "wp (onInstance i (\<lambda>inst. finishTransferAfterReply B fuel P l reply (isDmabuf (bufAt inst buf)) inst))
     (\<lambda>(fin, l') s'. sys_inv (set_holds i R (l' # Ls) H) s' \<and> same_call s s') s"
proof -
  have "wp (onInstance i (\<lambda>inst. finishTransferAfterReply B fuel P l reply (isDmabuf (bufAt inst buf)) inst))
     (\<lambda>r s'. same_call s s' \<and> (True \<longrightarrow> (\<exists>R' Ls'. (R' = R \<and> Ls' = snd r # Ls) \<and>
        sys_inv (set_holds i R' Ls' (set_holds i R (l # Ls) H)) s'))) s"
  proof (rule wp_onInstance_when [OF inv])
    fix inst L
    assume "inst_inv (h_entry (set_holds i R (l # Ls) H) i) (h_lease (set_holds i R (l # Ls) H) i) inst L (sys_world s)"
    then have L: "inst_inv R (l # Ls) inst L (sys_world s)"
      by simp
    show "wp (finishTransferAfterReply B fuel P l reply (isDmabuf (bufAt inst buf)) inst)
       (\<lambda>(r, inst') w'. True \<longrightarrow> (\<exists>R' Ls'. inst_inv R' Ls' inst' L w' \<and> inst_frame inst (sys_world s) inst' w' \<and>
          R' = R \<and> Ls' = snd r # Ls)) (sys_world s)"
      by (rule wp_conseq [OF wp_finishTransferAfterReply [OF L l]]) auto
  qed (use held in simp)
  then show ?thesis
    by (rule wp_conseq) auto
qed

lemma keeps_runRdmaTransfer:
  fixes P :: "'e Platform"
  assumes "callbacks_ok ops"
  shows "keeps (holds_instance i) (runRdmaTransfer B fuel P i buf sz offset ops)"
  unfolding runRdmaTransfer_def
proof (rule keepsI, rule wp_bindO [OF wp_acquireLease], assumption, assumption, goal_cases)
  case (1 H s acq s1)
  show ?case
  proof (cases acq)
    case (Inl err)
    then show ?thesis
      using 1 by (simp add: kept_def)
  next
    case (Inr l)
    let ?R = "h_entry H i" and ?Ls = "h_lease H i"
    have s1: "\<not> connected l" "sys_inv (set_holds i ?R (l # ?Ls) H) s1" "leasesHeld s1 = Suc (leasesHeld s)"
      using 1 Inr by simp_all
    have fin: "wp (do { _ \<leftarrow> endLease P i l'; State_Monad.return r })
        (kept H s) s2"
      if "sys_inv (set_holds i ?R (l' # ?Ls) H) s2" "leasesHeld s2 = Suc (leasesHeld s)" "r \<noteq> Block"
      for l' s2 and r :: "hipObjError_t outcome"
      by (rule wp_bindI [OF wp_endLease [OF that(1) 1(1)]]) (use that(2,3) in \<open>auto simp: kept_def\<close>)
    have finished: "wp (do { (fin, l') \<leftarrow> onInstance i (\<lambda>inst. finishTransferAfterReply B fuel P l reply (isDmabuf (bufAt inst buf)) inst);
           case fin of None \<Rightarrow> State_Monad.return Running
           | Some ok \<Rightarrow> do { _ \<leftarrow> endLease P i l'; State_Monad.return (Return (mkError (if ok then hipObjSuccess else hipObjRdmaError))) } })
        (kept H s) s2"
      if "sys_inv (set_holds i ?R (l # ?Ls) H) s2" "leasesHeld s2 = Suc (leasesHeld s)" for s2 reply
      by (rule wp_bindI [OF wp_finishTransfer_sys [OF that(1) 1(1) s1(1)]])
         (use that(2) fin in \<open>auto simp: same_call_def kept_def [of H s Running] split: option.splits simp del: wp_bind_iff\<close>)
    show ?thesis
      unfolding Inr sum.case
      by (rule wp_bindI [OF keepsD [OF keeps_exchangeTokens [OF assms] TrueI s1(2)]])
         (use s1(3) fin finished in \<open>auto simp: kept_def [of "set_holds _ _ _ _"] kept_def [of H s Running]
            split: outcome.splits sum.splits simp del: wp_bind_iff\<close>)
  qed
qed (simp_all add: kept_def)

subsection \<open>Scopes\<close>

lemma keeps_withInstance:
  fixes P :: "'e Platform"
  assumes "\<And>i. keeps (holds_instance i) (f i)"
  shows "call_ok (withInstance P fail f)"
  unfolding withInstance_def
proof (rule keepsI, rule wp_bindI [OF wp_currentInstance], assumption, goal_cases)
  case (1 H s r s1)
  show ?case
  proof (cases r)
    case None
    then show ?thesis
      using 1 by (auto simp: kept_def)
  next
    case (Some i)
    then have s1: "sys_inv (hold_inst i H) s1" "leasesHeld s1 = leasesHeld s"
      using 1 by auto
    have H: "holds_ok H"
      using 1(2) by (simp add: sys_inv_def)
    show ?thesis
      unfolding Some option.case
      by (rule wp_finallyO [OF keepsD [OF assms _ s1(1)]])
         (use s1(2) in \<open>auto intro!: wp_conseq [OF wp_drop_instance [OF _ H]] simp: same_call_def kept_def\<close>)
  qed
qed

lemma keeps_withBuffer:
  fixes P :: "'e Platform"
  assumes none: "keeps (holds_instance i) (f None)" and some: "\<And>j. keeps (holds_buffer i j) (f (Some j))"
  shows "keeps (holds_instance i) (withBuffer P i devPtr f)"
  unfolding withBuffer_def
proof (rule keepsI)
  fix H and s :: "'e sys" assume held: "holds_instance i H" and inv: "sys_inv H s"
  let ?R = "h_entry H i" and ?Ls = "h_lease H i"
  let ?post = "\<lambda>r R' Ls'. Ls' = ?Ls \<and> R' = (case r of None \<Rightarrow> ?R | Some j \<Rightarrow> ?R(j := Suc (?R j)))"
  have find: "wp (onInstance i (instFind devPtr)) (\<lambda>r s'. same_call s s' \<and> (True \<longrightarrow>
     (\<exists>R' Ls'. ?post r R' Ls' \<and> sys_inv (set_holds i R' Ls' H) s'))) s"
    by (rule wp_onInstance_when [OF inv held], rule wp_conseq [OF wp_instFind]) (auto split: option.splits)
  have drop: "wp (onInstance i (instDropRef P j)) (\<lambda>_ s'. sys_inv H s' \<and> leasesHeld s' = leasesHeld s2) s2"
    if s2: "sys_inv (set_holds i (?R(j := Suc (?R j))) ?Ls H) s2" for j s2
  proof -
    have "wp (onInstance i (instDropRef P j)) (\<lambda>r s'. same_call s2 s' \<and> (True \<longrightarrow>
       (\<exists>R' Ls'. (R' = ?R \<and> Ls' = ?Ls) \<and> sys_inv (set_holds i R' Ls' (set_holds i (?R(j := Suc (?R j))) ?Ls H)) s'))) s2"
      by (rule wp_onInstance_when [OF s2], use held in simp, rule wp_conseq [OF wp_instDropRef]) auto
    then show ?thesis
      by (rule wp_conseq) (auto simp: same_call_def)
  qed
  show "wp (State_Monad.bind (onInstance i (instFind devPtr)) (\<lambda>buf. case buf of None \<Rightarrow> f None
       | Some j \<Rightarrow> finallyO (f (Some j)) (onInstance i (instDropRef P j))))
     (kept H s) s"
  proof (rule wp_bindI [OF find], goal_cases)
    case (1 r s1)
    show ?case
    proof (cases r)
      case None
      then show ?thesis
        using 1 by (auto simp: same_call_def kept_def intro!: wp_conseq [OF keepsD [OF none held]])
    next
      case (Some j)
      then have s1: "sys_inv (set_holds i (?R(j := Suc (?R j))) ?Ls H) s1" "leasesHeld s1 = leasesHeld s"
        using 1 by (auto simp: same_call_def)
      have pre: "holds_buffer i j (set_holds i (?R(j := Suc (?R j))) ?Ls H)"
        using held by simp
      show ?thesis
        unfolding Some option.case
        by (rule wp_finallyO [OF keepsD [OF some pre s1(1)]])
           (use s1(2) in \<open>auto intro!: wp_conseq [OF drop] simp: kept_def\<close>)
    qed
  qed
qed

end
