(* ===== verification/Api.thy ===== *)
theory Api
  imports Rdma_Transfer
begin

text \<open>
  The public functions of \<^verbatim>\<open>include/hipobj.h\<close>, from \<^verbatim>\<open>src/hipobj.cpp\<close>. Every function that works on the
  library is a program on its state, with the outcomes of theory \<^verbatim>\<open>Prelude\<close>: an exception that reaches
  the function is caught, and becomes \<^verbatim>\<open>hipObjInternalError\<close>. The platform, the build configuration
  and the environment variables are arguments, and \<open>fuel\<close> bounds the turns of the polling loops.

  The lemmas show that every function keeps the library's invariant, also when the callbacks of a
  transfer call the library themselves, that a thread never waits for a connection while it holds
  one, and what each function returns on each of its branches.
\<close>

subsection \<open>Functions on values\<close>

fun hipObjGetErrorString :: "hipObjOpError_t \<Rightarrow> string" where
  "hipObjGetErrorString hipObjSuccess = ''Success''"
| "hipObjGetErrorString hipObjInvalidValue = ''Invalid value''"
| "hipObjGetErrorString hipObjNotInitialized = ''Not initialized''"
| "hipObjGetErrorString hipObjAlreadyInitialized = ''Already initialized''"
| "hipObjGetErrorString hipObjRdmaError = ''RDMA error''"
| "hipObjGetErrorString hipObjS3Error = ''S3 error''"
| "hipObjGetErrorString hipObjBufNotRegistered = ''Buffer not registered''"
| "hipObjGetErrorString hipObjBufAlreadyRegistered = ''Buffer already registered''"
| "hipObjGetErrorString hipObjNicNotFound = ''NIC not found''"
| "hipObjGetErrorString hipObjDmabufNotSupported = ''dmabuf not supported''"
| "hipObjGetErrorString hipObjSizeTooLarge = ''Size too large''"
| "hipObjGetErrorString hipObjInternalError = ''Internal error''"
| "hipObjGetErrorString hipObjBusy = ''Busy''"

text \<open>
  A null pointer is \<open>None\<close>, and a function that writes through a pointer returns what it wrote next to
  its result: for the reply code \<open>None\<close> when it is left alone, for a buffer its new contents.
\<close>

definition hipObjParseRdmaReply :: "string option \<Rightarrow> size_t \<Rightarrow> bool \<Rightarrow> hipObjError_t \<times> int option" where
  "hipObjParseRdmaReply reply replyLen haveHttpCode =
     (case reply of
        None \<Rightarrow> (mkError hipObjInvalidValue, None)
      | Some mem \<Rightarrow>
          if \<not> haveHttpCode then (mkError hipObjInvalidValue, None)
          else case parseRdmaReplyHttpCode (take (unat replyLen) mem) of
            None \<Rightarrow> (mkError hipObjInvalidValue, None)
          | Some code \<Rightarrow> (mkError hipObjSuccess, Some code))"

text \<open>\<open>nicIp\<close> is the memory that \<^verbatim>\<open>nicIp\<close> and \<^verbatim>\<open>nicIpLen\<close> describe.\<close>

definition hipObjTokenClientNic :: "string option \<Rightarrow> string option \<Rightarrow> hipObjError_t \<times> string option" where
  "hipObjTokenClientNic token nicIp =
     (case (token, nicIp) of
        (Some tok, Some mem) \<Rightarrow>
          if mem = [] then (mkError hipObjInvalidValue, nicIp)
          else (case parseClientNicFromTokenHex (cStringView tok (kRdmaTokenHexLen + 1)) mem of
            (ok, mem') \<Rightarrow> (mkError (if ok then hipObjSuccess else hipObjInvalidValue), Some mem'))
      | _ \<Rightarrow> (mkError hipObjInvalidValue, nicIp))"

definition hipObjGetVersionString :: string where
  "hipObjGetVersionString =
     (let text = to_string (int HIPOBJ_VERSION_MAJOR) @ ''.'' @ to_string (int HIPOBJ_VERSION_MINOR) @ ''.'' @
                 to_string (int HIPOBJ_VERSION_PATCH);
          buf = take (32 - 1) text @ replicate (32 - length (take (32 - 1) text)) NUL
      in cStringViewAll buf)"

definition hipObjGetVersion ::
  "bool \<Rightarrow> bool \<Rightarrow> bool \<Rightarrow> hipObjError_t \<times> nat option \<times> nat option \<times> nat option" where
  "hipObjGetVersion major minor patch =
     (mkError hipObjSuccess, if major then Some HIPOBJ_VERSION_MAJOR else None,
      if minor then Some HIPOBJ_VERSION_MINOR else None, if patch then Some HIPOBJ_VERSION_PATCH else None)"

subsection \<open>Initialization and registration\<close>

text \<open>
  \<open>system\<close> is what \<^verbatim>\<open>systemPlatform\<close> returns. The reference that the first check takes is given up at
  once, while the library holds the instance, so the check only looks.
\<close>

definition isInitialized :: "('e sys, bool) state" where
  "isInitialized = do { s \<leftarrow> State_Monad.get; State_Monad.return (current s \<noteq> None) }"

definition hipObjInit ::
  "'e Platform option \<Rightarrow> EnvLookup \<Rightarrow> hipObjConfig_t option \<Rightarrow> ('e sys, hipObjError_t outcome) state" where
  "hipObjInit system getenv config = catchO
     (case config of
        None \<Rightarrow> State_Monad.return (Return (mkError hipObjInvalidValue))
      | Some c \<Rightarrow>
          if config_flags c \<noteq> 0 \<or> config_gpuDevice c < -1
          then State_Monad.return (Return (mkError hipObjInvalidValue))
          else do {
            already \<leftarrow> isInitialized;
            if already then State_Monad.return (Return (mkError hipObjAlreadyInitialized))
            else case system of
              None \<Rightarrow> State_Monad.return (Return (mkError hipObjRdmaError))
            | Some P \<Rightarrow> liftO (initWith P c (parseOptions getenv))
          }) kExceptionError"

definition hipObjShutdown :: "'e Platform \<Rightarrow> ('e sys, hipObjError_t outcome) state" where
  "hipObjShutdown P = catchO (do {
     _ \<leftarrow> shutdownInstance P;
     State_Monad.return (Return (mkError hipObjSuccess))
   }) kExceptionError"

definition hipObjBufRegister :: "'e Platform \<Rightarrow> addr \<Rightarrow> size_t \<Rightarrow> ('e sys, hipObjError_t outcome) state" where
  "hipObjBufRegister P devPtr sz = catchO (withInstance P (\<lambda>err. err) (\<lambda>i.
     let err = checkRegistrationArgs devPtr sz in
     if opError err \<noteq> hipObjSuccess then State_Monad.return (Return err)
     else bindO (liftO (liftW (isValidDeviceRange (hip P) devPtr sz))) (\<lambda>valid.
       if \<not> valid then State_Monad.return (Return (mkError hipObjInvalidValue))
       else bindO (liftO (onInstance i (instRegisterBuffer P devPtr sz))) (\<lambda>r.
         State_Monad.return (Return (registrationError r)))))) kExceptionError"

definition hipObjBufRegisterHost :: "'e Platform \<Rightarrow> addr \<Rightarrow> size_t \<Rightarrow> ('e sys, hipObjError_t outcome) state" where
  "hipObjBufRegisterHost P hostPtr sz = catchO (withInstance P (\<lambda>err. err) (\<lambda>i.
     let err = checkRegistrationArgs hostPtr sz in
     if opError err \<noteq> hipObjSuccess then State_Monad.return (Return err)
     else bindO (liftO (onInstance i (instRegisterHostBuffer P hostPtr sz))) (\<lambda>r.
       State_Monad.return (Return (registrationError r))))) kExceptionError"

definition hipObjBufDeregister :: "'e Platform \<Rightarrow> addr \<Rightarrow> ('e sys, hipObjError_t outcome) state" where
  "hipObjBufDeregister P devPtr = catchO (withInstance P (\<lambda>err. err) (\<lambda>i.
     if devPtr = nullptr then State_Monad.return (Return (mkError hipObjInvalidValue))
     else bindO (liftO (onInstance i (instDeregisterBuffer P devPtr))) (\<lambda>r.
       State_Monad.return (Return (mkError (case r of
           Deregistered \<Rightarrow> hipObjSuccess
         | NotRegistered \<Rightarrow> hipObjBufNotRegistered
         | DeregisterBusy \<Rightarrow> hipObjBusy)))))) kExceptionError"

subsection \<open>Transfers\<close>

text \<open>
  What the functions that use a range of a registration do first: find it, check the arguments, and
  make sure that no staging copy that timed out still uses it.
\<close>

definition withCheckedBuffer ::
  "'e Platform \<Rightarrow> nat \<Rightarrow> addr \<Rightarrow> size_t \<Rightarrow> u64 \<Rightarrow> (hipObjError_t \<Rightarrow> 'a) \<Rightarrow> (nat \<Rightarrow> ('e sys, 'a outcome) state) \<Rightarrow>
   ('e sys, 'a outcome) state" where
  "withCheckedBuffer P i devPtr sz offset fail f = withBuffer P i devPtr (\<lambda>buf. do {
     inst \<leftarrow> readInstance i;
     let err = checkBufferArgs devPtr (map_option (bufAt inst) buf) sz offset;
     case buf of
       None \<Rightarrow> State_Monad.return (Return (fail err))
     | Some j \<Rightarrow>
         if opError err \<noteq> hipObjSuccess then State_Monad.return (Return (fail err))
         else bindO (liftO (onInstance i (checkNoAbandonedCopy P j))) (\<lambda>err'.
           if opError err' \<noteq> hipObjSuccess then State_Monad.return (Return (fail err'))
           else f j)
   })"

text \<open>The callbacks that a transfer needs, all of them there.\<close>

definition complete_ops :: "'e hipObjOps_t option \<Rightarrow> 'e hipObjOps_t option" where
  "complete_ops ops =
     (case ops of
        None \<Rightarrow> None
      | Some x \<Rightarrow> if sendRequest x = None \<or> recvReply x = None then None else Some x)"

definition hipObjGet ::
  "build_config \<Rightarrow> nat \<Rightarrow> 'e Platform \<Rightarrow> addr \<Rightarrow> size_t \<Rightarrow> u64 \<Rightarrow> 'e hipObjOps_t option \<Rightarrow>
   ('e sys, hipObjError_t outcome) state" where
  "hipObjGet B fuel P devPtr sz offset ops = catchO (withInstance P (\<lambda>err. err) (\<lambda>i.
     case complete_ops ops of
       None \<Rightarrow> State_Monad.return (Return (mkError hipObjInvalidValue))
     | Some x \<Rightarrow> withCheckedBuffer P i devPtr sz offset (\<lambda>err. err) (\<lambda>j.
         bindO (runRdmaTransfer B fuel P i j sz offset x) (\<lambda>err.
           if opError err \<noteq> hipObjSuccess then State_Monad.return (Return err)
           else onInstance i (stageToDevice fuel P devPtr j sz offset))))) kExceptionError"

definition hipObjPut ::
  "build_config \<Rightarrow> nat \<Rightarrow> 'e Platform \<Rightarrow> addr \<Rightarrow> size_t \<Rightarrow> u64 \<Rightarrow> 'e hipObjOps_t option \<Rightarrow>
   ('e sys, hipObjError_t outcome) state" where
  "hipObjPut B fuel P devPtr sz offset ops = catchO (withInstance P (\<lambda>err. err) (\<lambda>i.
     case complete_ops ops of
       None \<Rightarrow> State_Monad.return (Return (mkError hipObjInvalidValue))
     | Some x \<Rightarrow> withCheckedBuffer P i devPtr sz offset (\<lambda>err. err) (\<lambda>j.
         bindO (onInstance i (stageToHost fuel P devPtr j sz offset)) (\<lambda>err.
           if opError err \<noteq> hipObjSuccess then State_Monad.return (Return err)
           else runRdmaTransfer B fuel P i j sz offset x)))) kExceptionError"

definition HIPOBJ_SYNC_TO_HOST :: int where "HIPOBJ_SYNC_TO_HOST = 0"
definition HIPOBJ_SYNC_TO_DEVICE :: int where "HIPOBJ_SYNC_TO_DEVICE = 1"

definition hipObjBufSync ::
  "nat \<Rightarrow> 'e Platform \<Rightarrow> addr \<Rightarrow> size_t \<Rightarrow> u64 \<Rightarrow> int \<Rightarrow> ('e sys, hipObjError_t outcome) state" where
  "hipObjBufSync fuel P devPtr sz offset direction = catchO (withInstance P (\<lambda>err. err) (\<lambda>i.
     if direction \<noteq> HIPOBJ_SYNC_TO_HOST \<and> direction \<noteq> HIPOBJ_SYNC_TO_DEVICE
     then State_Monad.return (Return (mkError hipObjInvalidValue))
     else withCheckedBuffer P i devPtr sz offset (\<lambda>err. err) (\<lambda>j.
       if direction = HIPOBJ_SYNC_TO_DEVICE then onInstance i (stageToDevice fuel P devPtr j sz offset)
       else onInstance i (stageToHost fuel P devPtr j sz offset)))) kExceptionError"

subsection \<open>Tokens\<close>

text \<open>A token's memory, which the caller owns from then on: its cell in \<open>tokens\<close>.\<close>

definition allocateToken :: "string \<Rightarrow> ('e sys, nat) state" where
  "allocateToken contents = State (\<lambda>s. (length (tokens s), s\<lparr>tokens := tokens s @ [Some contents]\<rparr>))"

text \<open>The result and, when it is a success, what was written to \<^verbatim>\<open>*outToken\<close>.\<close>

definition hipObjGetRdmaToken ::
  "'e Platform \<Rightarrow> addr \<Rightarrow> size_t \<Rightarrow> int \<Rightarrow> bool \<Rightarrow> ('e sys, (hipObjError_t \<times> nat option) outcome) state" where
  "hipObjGetRdmaToken P devPtr sz op haveOutToken =
     catchO (withInstance P (\<lambda>err. (err, None)) (\<lambda>i.
       if \<not> haveOutToken \<or> (op \<noteq> HIPOBJ_RDMA_OP_PUT \<and> op \<noteq> HIPOBJ_RDMA_OP_GET)
       then State_Monad.return (Return (mkError hipObjInvalidValue, None))
       else withCheckedBuffer P i devPtr sz 0 (\<lambda>err. (err, None)) (\<lambda>j. do {
         inst \<leftarrow> readInstance i;
         case buildRdmaToken (inst_tokenConn inst) (bufAt inst j) sz 0 of
           None \<Rightarrow> State_Monad.return (Return (mkError hipObjRdmaError, None))
         | Some token \<Rightarrow> do {
             copy \<leftarrow> allocateToken (encodeRdmaTokenHex token);
             State_Monad.return (Return (mkError hipObjSuccess, Some copy))
           }
       }))) (kExceptionError, None)"

definition hipObjPutRdmaToken :: "nat option \<Rightarrow> ('e sys, hipObjError_t outcome) state" where
  "hipObjPutRdmaToken token = catchO
     (case token of
        None \<Rightarrow> State_Monad.return (Return (mkError hipObjInvalidValue))
      | Some p \<Rightarrow> do {
          s \<leftarrow> State_Monad.get;
          _ \<leftarrow> State_Monad.set (s\<lparr>tokens := (tokens s)[p := None]\<rparr>);
          State_Monad.return (Return (mkError hipObjSuccess))
        }) kExceptionError"

subsection \<open>Every function keeps the invariant\<close>

lemma sys_inv_tokens [simp]: "sys_inv H (s\<lparr>tokens := ts\<rparr>) \<longleftrightarrow> sys_inv H s"
proof -
  have "cell_ok H (s\<lparr>tokens := ts\<rparr>) i \<longleftrightarrow> cell_ok H s i" for i
    by (cases "entry_at (instances s) i") (auto simp: cell_ok_def)
  then show ?thesis
    by (simp add: sys_inv_def)
qed

lemma wp_isValidDeviceRange: "wp (isValidDeviceRange H p sz) (\<lambda>_ w'. log w' = log w \<and> serial w' = serial w) w"
  unfolding isValidDeviceRange_def by (auto intro!: wp_isDevicePointer wp_liftE)

lemma keeps_isValidDeviceRange: "call_ok (liftO (liftW (isValidDeviceRange H p sz)))"
  by (rule keepsI) (auto intro!: wp_conseq [OF wp_isValidDeviceRange] sys_inv_world simp: kept_def qps_same_def)

lemma keeps_allocateToken: "keeps pre (State_Monad.bind (allocateToken c) (\<lambda>p. State_Monad.return (Return (g p))))"
  by (rule keepsI) (simp add: allocateToken_def wp_def kept_def)

lemma keeps_register:
  "keeps (holds_instance i) (liftO (onInstance i (instRegisterBuffer P p sz)))"
  "keeps (holds_instance i) (liftO (onInstance i (instRegisterHostBuffer P p sz)))"
  "keeps (holds_instance i) (liftO (onInstance i (instDeregisterBuffer P p)))"
  by (rule keeps_onInstance_total, assumption,
      auto intro!: wp_conseq [OF wp_instRegisterBuffer] wp_conseq [OF wp_instRegisterHostBuffer]
        wp_conseq [OF wp_instDeregisterBuffer])+

lemma held_entry:
  assumes "inst_inv R Ls inst L w" "0 < R j"
  shows "\<exists>b k. entry_at (inst_heap inst) j = Some (b, k)"
proof -
  have "0 < use_count (inst_heap inst) j"
    using inst_buf(1) [OF assms(1)] assms(2) by (simp add: buf_inv_def with_copies_def)
  then show ?thesis
    by (auto simp: use_count_def split: option.splits)
qed

lemma keeps_stage:
  "keeps (holds_buffer i j) (onInstance i (stageToDevice fuel P p j sz offset))"
  "keeps (holds_buffer i j) (onInstance i (stageToHost fuel P p j sz offset))"
proof -
  have *: "keeps (holds_buffer i j) (onInstance i f)"
    if "\<And>R Ls inst L w b k. inst_inv R Ls inst L w \<Longrightarrow> entry_at (inst_heap inst) j = Some (b, k) \<Longrightarrow>
          wp (f inst) (stage_post R Ls j inst L w) w"
    for f :: "Instance \<Rightarrow> ('a world, hipObjError_t outcome \<times> Instance) state"
  proof (rule keeps_onInstance)
    fix H inst L and w :: "'a world"
    assume pre: "holds_buffer i j H" and inv: "inst_inv (h_entry H i) (h_lease H i) inst L w"
    obtain b k where "entry_at (inst_heap inst) j = Some (b, k)"
      using held_entry [OF inv] pre by blast
    then show "wp (f inst) (\<lambda>(r, inst') w'. r \<noteq> Block \<and> (ends r \<longrightarrow>
        inst_inv (h_entry H i) (h_lease H i) inst' L w' \<and> inst_frame inst w inst' w')) w"
      by (rule wp_conseq [OF that [OF inv]]) (auto simp: stage_post_def)
  qed simp
  show "keeps (holds_buffer i j) (onInstance i (stageToDevice fuel P p j sz offset))"
    by (rule *) (rule wp_stageToDevice)
  show "keeps (holds_buffer i j) (onInstance i (stageToHost fuel P p j sz offset))"
    by (rule *) (rule wp_stageToHost)
qed

lemma keeps_checkNoAbandonedCopy: "keeps (holds_buffer i j) (liftO (onInstance i (checkNoAbandonedCopy P j)))"
  by (rule keeps_onInstance_total, simp) (auto intro!: wp_conseq [OF wp_checkNoAbandonedCopy])

lemma keeps_mono: "keeps pre m \<Longrightarrow> (\<And>H. pre' H \<Longrightarrow> pre H) \<Longrightarrow> keeps pre' m"
  by (simp add: keeps_def)

lemma keeps_withCheckedBuffer:
  assumes "\<And>j. keeps (holds_buffer i j) (f j)"
  shows "keeps (holds_instance i) (withCheckedBuffer P i p sz offset fail f)"
  unfolding withCheckedBuffer_def
  by (rule keeps_withBuffer)
     (auto simp: Let_def intro!: keeps_read keeps_bindO keeps_checkNoAbandonedCopy assms)

lemma complete_ops_ok: "complete_ops ops = Some x \<Longrightarrow> \<forall>y. ops = Some y \<longrightarrow> callbacks_ok y \<Longrightarrow> callbacks_ok x"
  by (auto simp: complete_ops_def split: option.splits if_splits)

lemma keeps_init:
  assumes "\<forall>P. system = Some P \<longrightarrow> topology_ok (topology P)"
  shows "call_ok (hipObjInit system getenv config)"
  unfolding hipObjInit_def
  by (rule keeps_catchO, rule keepsI)
     (use assms in \<open>auto simp: isInitialized_def kept_def intro!: wp_conseq [OF wp_initWith] split: option.splits\<close>)

lemma keeps_shutdown: "call_ok (hipObjShutdown P)"
  unfolding hipObjShutdown_def
  by (rule keeps_catchO, rule keepsI) (auto simp: kept_def intro!: wp_conseq [OF wp_shutdownInstance])

lemma keeps_registration:
  "call_ok (hipObjBufRegister P p sz)" "call_ok (hipObjBufRegisterHost P p sz)" "call_ok (hipObjBufDeregister P p)"
  unfolding hipObjBufRegister_def hipObjBufRegisterHost_def hipObjBufDeregister_def Let_def
  by (auto intro!: keeps_catchO keeps_withInstance keeps_bindO keeps_register keeps_any [OF keeps_isValidDeviceRange])

lemma keeps_transfers:
  assumes "\<forall>x. ops = Some x \<longrightarrow> callbacks_ok x"
  shows "call_ok (hipObjGet B fuel P p sz offset ops)" "call_ok (hipObjPut B fuel P p sz offset ops)"
proof -
  have run: "keeps (holds_buffer i j) (runRdmaTransfer B fuel P i j sz offset x)" if "complete_ops ops = Some x" for i j x
    by (rule keeps_mono [OF keeps_runRdmaTransfer [OF complete_ops_ok [OF that assms]]]) simp
  show "call_ok (hipObjGet B fuel P p sz offset ops)" "call_ok (hipObjPut B fuel P p sz offset ops)"
    unfolding hipObjGet_def hipObjPut_def
    by (auto intro!: keeps_catchO keeps_withInstance keeps_withCheckedBuffer keeps_bindO keeps_stage run split: option.splits)
qed

lemma keeps_sync: "call_ok (hipObjBufSync fuel P p sz offset direction)"
  unfolding hipObjBufSync_def
  by (auto intro!: keeps_catchO keeps_withInstance keeps_withCheckedBuffer keeps_stage)

lemma keeps_tokens: "call_ok (hipObjGetRdmaToken P p sz op out)" "call_ok (hipObjPutRdmaToken token)"
proof -
  show "call_ok (hipObjGetRdmaToken P p sz op out)"
    unfolding hipObjGetRdmaToken_def
    by (auto intro!: keeps_catchO keeps_withInstance keeps_withCheckedBuffer keeps_read keeps_allocateToken split: option.splits)
  show "call_ok (hipObjPutRdmaToken token)"
    unfolding hipObjPutRdmaToken_def
    by (rule keeps_catchO, rule keepsI) (auto simp: kept_def split: option.splits)
qed

text \<open>What an application does on its own, next to its calls, is a step of the environment.\<close>

definition liftEnv :: "('e, 'a) state \<Rightarrow> ('e sys, 'a) state" where
  "liftEnv m = liftW (liftE m)"

lemma wp_liftEnv_iff:
  "wp (liftEnv m) Q s \<longleftrightarrow> wp m (\<lambda>r e. Q r (s\<lparr>sys_world := (sys_world s)\<lparr>env := e\<rparr>\<rparr>)) (env (sys_world s))"
  by (simp add: liftEnv_def liftE_def liftW_def wp_def split: prod.splits)

lemma wp_any: "wp m (\<lambda>_ _. True) s"
  by (simp add: wp_def)

lemma keeps_liftEnv: "keeps pre (liftO (liftEnv m))"
  by (rule keepsI)
     (auto simp: liftEnv_def liftE_def liftW_def wp_def [of "State _"] kept_def qps_same_def intro!: sys_inv_world
       split: prod.splits)

lemma keeps_finallyO:
  fixes m :: "('e sys, 'b outcome) state"
  assumes "keeps pre m" "keeps pre (liftO cleanup)"
  shows "keeps pre (finallyO m cleanup)"
proof (rule keepsI)
  fix H and s :: "'e sys" assume pre: "pre H" and inv: "sys_inv H s"
  show "wp (finallyO m cleanup) (kept H s) s"
  proof (rule wp_finallyO [OF keepsD [OF assms(1) pre inv]])
    fix r :: "'b outcome" and s' :: "'e sys" assume r: "ends r" and s': "kept H s r s'"
    then have "sys_inv H s'" "leasesHeld s' = leasesHeld s" "r \<noteq> Block"
      by (auto simp: kept_def)
    then show "wp cleanup (\<lambda>_. kept H s r) s'"
      using keepsD [OF assms(2) pre, of s'] by (auto simp: kept_def elim!: wp_conseq)
  qed (simp_all add: kept_def)
qed

subsection \<open>Sequences of calls\<close>

fun runCalls :: "('c \<Rightarrow> ('e sys, 'a outcome) state) \<Rightarrow> 'c list \<Rightarrow> ('e sys, 'a list outcome) state" where
  "runCalls call [] = State_Monad.return (Return [])"
| "runCalls call (c # cs) =
     bindO (call c) (\<lambda>r. bindO (runCalls call cs) (\<lambda>rs. State_Monad.return (Return (r # rs))))"

text \<open>
  The contract that the calls of an interface share, and what follows for a sequence of them: it
  keeps the invariant too, so it may itself be what a callback does.
\<close>

locale library_calls =
  fixes call :: "'c \<Rightarrow> ('e sys, hipObjError_t outcome) state" and allowed :: "'c \<Rightarrow> bool"
  assumes call_keeps: "allowed c \<Longrightarrow> call_ok (call c)"
begin

lemma runCalls_keeps: "\<forall>c\<in>set cs. allowed c \<Longrightarrow> call_ok (runCalls call cs)"
  by (induction cs) (auto intro!: keeps_bindO call_keeps)

lemma callbacks_of_calls:
  assumes "\<forall>token. \<forall>c\<in>set (send_calls token). allowed c" "\<forall>c\<in>set recv_calls. allowed c"
  shows "callbacks_ok \<lparr>sendRequest = Some (\<lambda>token. bindO (runCalls call (send_calls token)) (\<lambda>_. State_Monad.return (Return 0))),
     recvReply = Some (\<lambda>n. bindO (runCalls call recv_calls) (\<lambda>_. State_Monad.return (Return (0, reply n))))\<rparr>"
  using assms by (auto simp: callbacks_ok_def intro!: keeps_bindO runCalls_keeps)

end

text \<open>No exception leaves a public function.\<close>

definition nothrow :: "('e sys, 'a outcome) state \<Rightarrow> bool" where
  "nothrow m \<longleftrightarrow> (\<forall>s. wp m (\<lambda>r s'. r \<noteq> Throw) s)"

lemma nothrowD: "nothrow m \<Longrightarrow> wp m (\<lambda>r s'. r \<noteq> Throw) s"
  by (simp add: nothrow_def)

lemma nothrow_return: "r \<noteq> Throw \<Longrightarrow> nothrow (State_Monad.return r)"
  by (simp add: nothrow_def)

lemma nothrow_catchO: "nothrow (catchO m a)"
  unfolding nothrow_def catchO_def by (auto simp: wp_def split: prod.splits outcome.splits)

lemma nothrow_bindO: "nothrow m \<Longrightarrow> (\<And>a. nothrow (f a)) \<Longrightarrow> nothrow (bindO m f)"
  unfolding nothrow_def by (blast intro: wp_bindO)

text \<open>The public functions that work on the library, as data.\<close>

datatype 'e api_call =
  Init "'e Platform option" EnvLookup "hipObjConfig_t option"
| Shutdown
| BufRegister addr size_t
| BufRegisterHost addr size_t
| BufDeregister addr
| Get addr size_t u64 "'e hipObjOps_t option"
| Put addr size_t u64 "'e hipObjOps_t option"
| BufSync addr size_t u64 int
| GetRdmaToken addr size_t int bool
| PutRdmaToken "nat option"

fun runCall :: "build_config \<Rightarrow> nat \<Rightarrow> 'e Platform \<Rightarrow> 'e api_call \<Rightarrow> ('e sys, hipObjError_t outcome) state" where
  "runCall B fuel P (Init system getenv config) = hipObjInit system getenv config"
| "runCall B fuel P Shutdown = hipObjShutdown P"
| "runCall B fuel P (BufRegister p sz) = hipObjBufRegister P p sz"
| "runCall B fuel P (BufRegisterHost p sz) = hipObjBufRegisterHost P p sz"
| "runCall B fuel P (BufDeregister p) = hipObjBufDeregister P p"
| "runCall B fuel P (Get p sz offset ops) = hipObjGet B fuel P p sz offset ops"
| "runCall B fuel P (Put p sz offset ops) = hipObjPut B fuel P p sz offset ops"
| "runCall B fuel P (BufSync p sz offset direction) = hipObjBufSync fuel P p sz offset direction"
| "runCall B fuel P (GetRdmaToken p sz op out) =
     bindO (hipObjGetRdmaToken P p sz op out) (\<lambda>r. State_Monad.return (Return (fst r)))"
| "runCall B fuel P (PutRdmaToken token) = hipObjPutRdmaToken token"

text \<open>What the application must respect: the callbacks keep the library's invariant, as calls of it do.\<close>

fun call_allowed :: "'e api_call \<Rightarrow> bool" where
  "call_allowed (Init system getenv config) \<longleftrightarrow> (\<forall>P. system = Some P \<longrightarrow> topology_ok (topology P))"
| "call_allowed (Get p sz offset ops) \<longleftrightarrow> (\<forall>x. ops = Some x \<longrightarrow> callbacks_ok x)"
| "call_allowed (Put p sz offset ops) \<longleftrightarrow> (\<forall>x. ops = Some x \<longrightarrow> callbacks_ok x)"
| "call_allowed _ \<longleftrightarrow> True"

lemma runCall_keeps: "call_allowed c \<Longrightarrow> call_ok (runCall B fuel P c)"
  by (cases c) (auto intro!: keeps_init keeps_shutdown keeps_registration keeps_transfers keeps_sync keeps_tokens keeps_bindO)

lemma runCall_nothrow: "nothrow (runCall B fuel P c)"
  by (cases c) (auto simp: hipObjInit_def hipObjShutdown_def hipObjBufRegister_def hipObjBufRegisterHost_def
      hipObjBufDeregister_def hipObjGet_def hipObjPut_def hipObjBufSync_def hipObjGetRdmaToken_def hipObjPutRdmaToken_def
      intro!: nothrow_bindO nothrow_catchO nothrow_return)

lemma runCalls_nothrow: "nothrow (runCalls (runCall B fuel P) cs)"
  by (induction cs) (auto intro!: nothrow_bindO runCall_nothrow nothrow_return)

interpretation api: library_calls "runCall B fuel P" call_allowed for B fuel P
  by unfold_locales (rule runCall_keeps)

subsection \<open>Results on each branch\<close>

text \<open>A call that leaves the library as it was, from the inside of its scopes outwards.\<close>

lemma wp_withInstance_same:
  assumes inv: "sys_inv H s" and cur: "current s = Some i" and r: "ends r"
    and body: "wp (f i) (\<lambda>r' s'. r' = r \<and> s' = s\<lparr>instances := copy_ref i (instances s)\<rparr>) (s\<lparr>instances := copy_ref i (instances s)\<rparr>)"
  shows "wp (withInstance P fail f) (\<lambda>r' s'. r' = r \<and> s' = s) s"
proof -
  obtain inst n where cell: "entry_at (instances s) i = Some (inst, n)"
    using sys_inv_current [OF inv cur] by auto
  have n: "0 < n"
    using sys_inv_pos [OF inv cell] .
  have i: "i < length (instances s)" "instances s ! i = Some (inst, n)"
    using entry_at_bound [OF cell] by auto
  let ?s = "s\<lparr>instances := copy_ref i (instances s)\<rparr>"
  have "wp (finallyO (f i) (drop_instance P i)) (\<lambda>r' s'. r' = r \<and> s' = s) ?s"
    by (rule wp_finallyO [OF body])
       (use cell i n r in \<open>auto simp: drop_instance_def copy_ref_def entry_at_update list_update_same_conv\<close>)
  then show ?thesis
    by (simp add: withInstance_def currentInstance_def cur wp_def [of "State _"])
qed

lemma wp_onInstance_iff:
  assumes "entry_at (instances s) i = Some (inst, n)"
  shows "wp (onInstance i f) Q s \<longleftrightarrow>
     wp (f inst) (\<lambda>(r, inst') w'. Q r (s\<lparr>sys_world := w', instances := (instances s)[i := Some (inst', n)]\<rparr>)) (sys_world s)"
  using assms by (simp add: onInstance_def wp_def split: prod.splits)

lemma wp_withBuffer_same:
  assumes inv: "sys_inv H s" and cell: "entry_at (instances s) i = Some (inst, n)" and r: "ends r"
    and body: "\<And>inst'. bufAt inst' = bufAt inst \<Longrightarrow>
      wp (f (map_of (entries (inst_buffers inst)) p)) (\<lambda>r' s'. r' = r \<and> s' = s\<lparr>instances := (instances s)[i := Some (inst', n)]\<rparr>)
        (s\<lparr>instances := (instances s)[i := Some (inst', n)]\<rparr>)"
  shows "wp (withBuffer P i p f) (\<lambda>r' s'. r' = r \<and> s' = s) s"
proof -
  obtain L where L: "inst_inv (h_entry H i) (h_lease H i) inst L (sys_world s)"
    using sys_inv_cell(1) [OF inv cell] by auto
  have i: "i < length (instances s)" "instances s ! i = Some (inst, n)"
    using entry_at_bound [OF cell] by auto
  show ?thesis
  proof (cases "map_of (entries (inst_buffers inst)) p")
    case None
    have "(instances s)[i := Some (inst, n)] = instances s"
      using i by (metis list_update_id)
    then show ?thesis
      using None body [of inst] by (simp add: withBuffer_def wp_onInstance_iff [OF cell] instFind_def findBuffer_def)
  next
    case (Some j)
    obtain b k where e: "entry_at (inst_heap inst) j = Some (b, Suc k)"
      using entry_of_key [OF inst_buf(1) [OF L] Some] by blast
    let ?inst = "inst\<lparr>inst_heap := copy_ref j (inst_heap inst)\<rparr>"
    let ?s = "s\<lparr>instances := (instances s)[i := Some (?inst, n)]\<rparr>"
    have at: "bufAt ?inst = bufAt inst"
      using copy_ref_at [OF e] e by (auto simp: bufAt_def fun_eq_iff)
    have j: "j < length (inst_heap inst)" "inst_heap inst ! j = Some (b, Suc k)"
      using entry_at_bound [OF e] by auto
    have cells: "(inst_heap inst)[j := Some (b, Suc k)] = inst_heap inst" "(instances s)[i := Some (inst, n)] = instances s"
      using i j by (metis list_update_id)+
    have cell': "entry_at (instances ?s) i = Some (?inst, n)"
      using i by (simp add: entry_at_update)
    have drop: "wp (onInstance i (instDropRef P j)) (\<lambda>_ s'. s' = s) ?s"
      unfolding wp_onInstance_iff [OF cell'] using e j cells
      by (simp add: instDropRef_def drop_ref_def copy_ref_def entry_at_update)
    have "wp (finallyO (f (Some j)) (onInstance i (instDropRef P j))) (\<lambda>r' s'. r' = r \<and> s' = s) ?s"
      by (rule wp_finallyO [OF body [OF at, unfolded Some]]) (use drop r in auto)
    then show ?thesis
      by (simp add: withBuffer_def wp_onInstance_iff [OF cell] instFind_def findBuffer_def Some)
  qed
qed

lemma wp_readInstance: "wp (readInstance i) Q s \<longleftrightarrow> Q (fst (the (entry_at (instances s) i))) s"
  by (simp add: readInstance_def wp_def)

lemma wp_withCheckedBuffer_refused:
  assumes inv: "sys_inv H s" and cell: "entry_at (instances s) i = Some (inst, n)"
    and err: "checkBufferArgs p (map_option (bufAt inst) (map_of (entries (inst_buffers inst)) p)) sz offset = err"
      "opError err \<noteq> hipObjSuccess"
  shows "wp (withCheckedBuffer P i p sz offset fail f) (\<lambda>r' s'. r' = Return (fail err) \<and> s' = s) s"
  unfolding withCheckedBuffer_def
proof (rule wp_withBuffer_same [OF inv cell], goal_cases)
  case (2 inst')
  have i: "i < length (instances s)"
    using entry_at_bound [OF cell] by simp
  show ?case
    using err 2 i by (auto simp: wp_readInstance entry_at_update Let_def split: option.splits)
qed simp

subsection \<open>Properties\<close>

text \<open>C1. Every public function, on every branch and with callbacks that call the library themselves, keeps
  the library's invariant if it comes back, and no exception leaves it; and it never waits for
  another thread while its own thread holds a lease, so a transfer started from a callback cannot
  deadlock with the one it is started from. The same holds for every sequence of calls.\<close>

theorem api_calls_keep_invariant:
  assumes "sys_inv H s" "\<forall>c\<in>set cs. call_allowed c"
  shows "wp (runCalls (runCall B fuel P) cs) (\<lambda>r s'. r \<noteq> Throw \<and>
           (ends r \<longrightarrow> sys_inv H s' \<and> leasesHeld s' = leasesHeld s) \<and> (r = Block \<longrightarrow> leasesHeld s = 0)) s"
proof (rule wp_conseq [OF wp_conj])
  show "wp (runCalls (runCall B fuel P) cs) (kept H s) s"
    by (rule keepsD [OF api.runCalls_keeps [OF assms(2)] TrueI assms(1)])
  show "wp (runCalls (runCall B fuel P) cs) (\<lambda>r s'. r \<noteq> Throw) s"
    by (rule nothrowD [OF runCalls_nothrow])
qed (auto simp: kept_def)

text \<open>Once the library is shut down, it has no instance, and only what an abandoned copy may use is left.\<close>

lemma nothing_left:
  assumes inv: "sys_inv holds_nothing s" and cur: "current s = None"
  shows "(\<forall>i. entry_at (instances s) i = None) \<and> (\<exists>K. live (log (sys_world s)) = Some K \<and> (\<forall>x\<in>#K. leakable x))"
proof -
  have none: "entry_at (instances s) i = None" for i
    using sys_inv_cellD [OF inv, of i] cur
    by (cases "entry_at (instances s) i") (auto simp: cell_ok_def holds_nothing_def)
  then have "all_resources s = {#}"
    by (rule total_empty)
  then show ?thesis
    using inv none by (auto simp: sys_inv_def leaked_from_def)
qed


text \<open>
  An application on the sample platform whose callbacks call the library: the request callback
  stages the buffer and starts another transfer, and the reply callback deregisters the buffer.
\<close>

definition sample_build :: build_config where
  "sample_build = \<lparr>HIPOBJ_BNXT = True, HIPOBJ_IONIC = True\<rparr>"

definition plain_ops :: "int hipObjOps_t" where
  "plain_ops = \<lparr>sendRequest = Some (\<lambda>token. State_Monad.return (Return 0)),
     recvReply = Some (\<lambda>n. State_Monad.return (Return (0, ''200'', 3)))\<rparr>"

definition reentrant_ops :: "int hipObjOps_t" where
  "reentrant_ops =
    \<lparr>sendRequest = Some (\<lambda>token. bindO (runCalls (runCall sample_build 10 sample_platform)
       [BufSync 8192 1024 0 1, Get 8192 1024 0 (Some plain_ops)]) (\<lambda>_. State_Monad.return (Return 0))),
     recvReply = Some (\<lambda>n. bindO (runCalls (runCall sample_build 10 sample_platform) [BufDeregister 8192])
       (\<lambda>_. State_Monad.return (Return (0, ''200'', 3))))\<rparr>"

definition sample_calls :: "int api_call list" where
  "sample_calls = [Init (Some sample_platform) sample_lookup (Some sample_config), BufRegister 8192 1024,
     Get 8192 1024 0 (Some reentrant_ops), GetRdmaToken 8192 512 0 True]"

lemma plain_ops_ok: "callbacks_ok plain_ops"
  by (simp add: callbacks_ok_def plain_ops_def)

lemma reentrant_ops_ok: "callbacks_ok reentrant_ops"
  unfolding reentrant_ops_def by (rule api.callbacks_of_calls) (simp_all add: plain_ops_ok)

lemma sample_calls_allowed: "\<forall>c\<in>set sample_calls. call_allowed c"
  by (simp add: sample_calls_def reentrant_ops_ok sample_platform_topology)

theorem api_calls_keep_invariant_witness:
  "wp (runCalls (runCall sample_build 10 sample_platform) sample_calls) (\<lambda>r s'. r \<noteq> Throw \<and>
     (ends r \<longrightarrow> sys_inv holds_nothing s' \<and> leasesHeld s' = leasesHeld sample_sys) \<and>
     (r = Block \<longrightarrow> leasesHeld sample_sys = 0)) sample_sys"
  by (rule api_calls_keep_invariant [OF sample_sys_inv sample_calls_allowed])


fun needs_instance :: "'e api_call \<Rightarrow> bool" where
  "needs_instance (Init system getenv config) \<longleftrightarrow> False"
| "needs_instance Shutdown \<longleftrightarrow> False"
| "needs_instance (PutRdmaToken token) \<longleftrightarrow> False"
| "needs_instance _ \<longleftrightarrow> True"

text \<open>Without an instance, every function that needs one returns \<^verbatim>\<open>hipObjNotInitialized\<close>, whatever its
  arguments, and changes nothing.\<close>

theorem uninitialized_calls:
  assumes "current s = None" "needs_instance c"
  shows "run_state (runCall B fuel P c) s = (Return (mkError hipObjNotInitialized), s)"
  using assms
  by (cases c) (auto simp: hipObjBufRegister_def hipObjBufRegisterHost_def hipObjBufDeregister_def hipObjGet_def
      hipObjPut_def hipObjBufSync_def hipObjGetRdmaToken_def catchO_def bindO_def withInstance_def currentInstance_def
      State_Monad.bind_def State_Monad.return_def)

theorem uninitialized_calls_witness:
  "run_state (runCall sample_build 10 sample_platform (Get 8192 1024 0 (Some plain_ops))) sample_sys =
     (Return (mkError hipObjNotInitialized), sample_sys)"
  by (rule uninitialized_calls) (simp_all add: sample_sys_def)

text \<open>C8. A transfer whose arguments are refused returns the error of the check and leaves the library
  exactly as it was: no callback is called, no connection is leased and no reference is kept.\<close>

theorem refused_transfer_changes_nothing:
  assumes "sys_inv H s" "current s = Some i" "entry_at (instances s) i = Some (inst, n)"
    and "complete_ops ops = Some x"
    and "checkBufferArgs p (map_option (bufAt inst) (map_of (entries (inst_buffers inst)) p)) sz offset = err"
    and "opError err \<noteq> hipObjSuccess"
  shows "run_state (hipObjGet B fuel P p sz offset ops) s = (Return err, s) \<and>
         run_state (hipObjPut B fuel P p sz offset ops) s = (Return err, s)"
proof -
  let ?s = "s\<lparr>instances := copy_ref i (instances s)\<rparr>"
  have cell: "entry_at (instances ?s) i = Some (inst, Suc n)"
    using copy_ref_at [OF assms(3), of i] by simp
  note inv = sys_inv_copy [OF assms(1,3)]
  have refused: "wp (withInstance P (\<lambda>err. err) (\<lambda>i. case complete_ops ops of
        None \<Rightarrow> State_Monad.return (Return (mkError hipObjInvalidValue))
      | Some x \<Rightarrow> withCheckedBuffer P i p sz offset (\<lambda>err. err) (f i x))) (\<lambda>r s'. r = Return err \<and> s' = s) s" for f
    by (rule wp_withInstance_same [OF assms(1,2)])
       (use wp_withCheckedBuffer_refused [OF inv cell assms(5,6)] assms(4) in simp_all)
  have exact: "run_state (catchO m kExceptionError) s = (Return err, s)" if "wp m (\<lambda>r s'. r = Return err \<and> s' = s) s"
    for m :: "('a sys, hipObjError_t outcome) state"
    using that by (auto simp: catchO_def wp_def State_Monad.bind_def State_Monad.return_def split: prod.splits)
  show ?thesis
    unfolding hipObjGet_def hipObjPut_def by (intro conjI exact refused)
qed

text \<open>The library initialized on the sample platform, with the instance of theory \<^verbatim>\<open>Staging\<close>.\<close>

definition sample_running :: "int sys" where
  "sample_running =
    \<lparr>sys_world = sample_inst_world, instances = [Some (sample_inst, 1)], current = Some 0, leasesHeld = 0, tokens = []\<rparr>"

lemma sample_running_at: "entry_at (instances sample_running) i = (if i = 0 then Some (sample_inst, 1) else None)"
  by (simp add: sample_running_def entry_at_def)

lemma sample_running_inv: "sys_inv holds_nothing sample_running"
proof -
  have ok: "inst_ok (\<lambda>_. 0) [] sample_inst sample_inst_world" "legal_log (log sample_inst_world)"
      "live (log sample_inst_world) = Some (instance_resources sample_inst)"
    using sample_inst_inv by (simp_all add: inst_inv_def)
  have "cell_ok holds_nothing sample_running i" for i
    using ok(1) by (simp add: cell_ok_def sample_running_at holds_nothing_def) (simp add: sample_running_def)
  moreover have "apart (instances sample_running)"
    by (auto simp: apart_def sample_running_at split: if_splits)
  ultimately show ?thesis
    using ok by (simp add: sys_inv_def holds_ok_def holds_nothing_def) (simp add: sample_running_def)
qed

theorem refused_transfer_changes_nothing_witness:
  "run_state (hipObjGet sample_build 10 sample_platform 8192 1024 512 (Some plain_ops)) sample_running =
     (Return (mkError hipObjInvalidValue), sample_running) \<and>
   run_state (hipObjPut sample_build 10 sample_platform 8192 1024 512 (Some plain_ops)) sample_running =
     (Return (mkError hipObjInvalidValue), sample_running)"
  by (rule refused_transfer_changes_nothing [OF sample_running_inv _ sample_running_at [of 0, simplified]])
     (simp_all add: sample_running_def complete_ops_def plain_ops_def checkBufferArgs_def rangeInRegistration_iff
        sample_inst_def bufAt_def entry_at_def newBufEntry_def)

text \<open>C9. What a transfer does when every connection is leased, dropped, or the instance is shut down: a
  closed pool means that the library is no longer initialized, a pool that has lost its connections
  is an RDMA error, and otherwise a thread that holds no lease waits, while one that holds a lease
  gets \<^verbatim>\<open>hipObjBusy\<close>. None of them calls a callback or changes anything.\<close>

theorem transfer_without_connection:
  assumes "entry_at (instances s) i = Some (inst, n)" "free_slots (inst_pool inst) = [] \<or> closed (inst_pool inst)"
  shows "run_state (runRdmaTransfer B fuel P i j sz offset ops) s =
     (if closed (inst_pool inst) then Return (mkError hipObjNotInitialized)
      else if pool_live (inst_pool inst) = 0 then Return (mkError hipObjRdmaError)
      else if leasesHeld s = 0 then Block
      else Return (mkError hipObjBusy), s)"
proof -
  have same: "(instances s)[i := Some (inst, n)] = instances s"
    using entry_at_bound [OF assms(1)] by (metis list_update_id)
  show ?thesis
    using assms(2)
    by (auto simp: runRdmaTransfer_def acquireLease_def assms(1) acquire_def takeFree_def waitCondition_def same
        bindO_def State_Monad.bind_def State_Monad.return_def)
qed

theorem transfer_without_connection_witness:
  "run_state (runRdmaTransfer sample_build 10 sample_platform 0 0 1024 0 plain_ops)
     (sample_running\<lparr>instances := [Some (sample_inst\<lparr>inst_pool := (inst_pool sample_inst)\<lparr>free_slots := []\<rparr>\<rparr>, 2)], leasesHeld := 1\<rparr>) =
   (Return (mkError hipObjBusy),
    sample_running\<lparr>instances := [Some (sample_inst\<lparr>inst_pool := (inst_pool sample_inst)\<lparr>free_slots := []\<rparr>\<rparr>, 2)], leasesHeld := 1\<rparr>)"
  by (subst transfer_without_connection [where inst = "sample_inst\<lparr>inst_pool := (inst_pool sample_inst)\<lparr>free_slots := []\<rparr>\<rparr>" and n = 2])
     (simp_all add: entry_at_def sample_inst_def)

end
