(* ===== verification/Minio_Rdma.thy ===== *)
theory Minio_Rdma
  imports Api
begin

text \<open>
  The RDMA transfers of the minio-cpp integration, from \<^verbatim>\<open>integrations/minio-cpp/src/rdma.cpp\<close>,
  \<^verbatim>\<open>src/bytes-transferred.h\<close> and \<^verbatim>\<open>include/hipobj_minio/rdma.h\<close> and \<^verbatim>\<open>context.h\<close>: the S3 request that carries a
  token, what the response means, and the retries.

  minio-cpp is not part of the sources: what the code calls of it is a record of parameters. A
  request's headers and query are the sequence of the \<^verbatim>\<open>Add\<close> calls that built them, and a response's headers
  are only read through \<^verbatim>\<open>GetFront\<close> and \<^verbatim>\<open>Contains\<close>. Fetching credentials and executing a request may throw,
  which is \<open>None\<close>.
\<close>

subsection \<open>Constants and results\<close>

definition kUnsignedPayload :: string where "kUnsignedPayload = ''UNSIGNED-PAYLOAD''"
definition kAmzRdmaToken :: string where "kAmzRdmaToken = ''x-amz-rdma-token''"
definition kAmzRdmaReply :: string where "kAmzRdmaReply = ''x-amz-rdma-reply''"
definition kAmzRdmaBytesTransferred :: string where "kAmzRdmaBytesTransferred = ''x-amz-rdma-bytes-transferred''"

definition kRdmaReplySuccess :: int where "kRdmaReplySuccess = 200"
definition kRdmaReplyNoContent :: int where "kRdmaReplyNoContent = 204"
definition kRdmaReplyPartialContent :: int where "kRdmaReplyPartialContent = 206"
definition kRdmaReplyNotImplemented :: int where "kRdmaReplyNotImplemented = 501"
definition kRdmaConnectTimeoutSecs :: int where "kRdmaConnectTimeoutSecs = 5"
definition kRdmaTimeoutSecs :: int where "kRdmaTimeoutSecs = 10"
definition kRdmaMaxAttempts :: nat where "kRdmaMaxAttempts = 2"
text \<open>\<^verbatim>\<open>kHttpOk\<close> of \<^verbatim>\<open>rdma.cpp\<close>.\<close>

definition rdma_kHttpOk :: int where "rdma_kHttpOk = 200"
definition kMaxPartNumber :: u32 where "kMaxPartNumber = 10000"

lemmas reply_code_defs = kRdmaReplySuccess_def kRdmaReplyNoContent_def kRdmaReplyPartialContent_def kRdmaReplyNotImplemented_def

datatype RdmaStatus = RdmaOk | RdmaFailed | RdmaNotSupported

record RdmaResult =
  rdma_status :: RdmaStatus
  rdma_bytes :: size_t

definition failedResult :: RdmaResult where
  "failedResult = \<lparr>rdma_status = RdmaFailed, rdma_bytes = 0\<rparr>"

subsection \<open>What the code uses of minio-cpp\<close>

type_synonym Multimap = "(string \<times> string) list"
datatype Method = kGet | kPut

record BaseUrl =
  base_host :: string
  base_region :: string
  base_https :: bool

record Url =
  url_path :: string
  query_string :: string
  url_rest :: string

record Credentials =
  access_key :: string
  secret_key :: string
  session_token :: string

record Request =
  req_method :: Method
  req_url :: Url
  req_headers :: Multimap
  connect_timeout_secs :: int
  timeout_secs :: int
  nic_interface :: "string option"

record Response =
  res_error :: string
  status_code :: int
  res_headers :: Multimap

record 'e MinioHttp =
  mh_now :: "('e, int) state"
  mh_toAmzDate :: "int \<Rightarrow> string"
  mh_fetch :: "('e, Credentials option) state"
  mh_buildUrl :: "BaseUrl \<Rightarrow> Method \<Rightarrow> string \<Rightarrow> Multimap \<Rightarrow> string \<Rightarrow> string \<Rightarrow> Url option"
  mh_hostHeaderValue :: "Url \<Rightarrow> string"
  mh_signV4S3 :: "Method \<Rightarrow> string \<Rightarrow> string \<Rightarrow> Multimap \<Rightarrow> Multimap \<Rightarrow> string \<Rightarrow> string \<Rightarrow> string \<Rightarrow> int \<Rightarrow> Multimap"
  mh_toQueryString :: "Multimap \<Rightarrow> string"
  mh_execute :: "Request \<Rightarrow> ('e, Response option) state"
  mh_getFront :: "Multimap \<Rightarrow> string \<Rightarrow> string"
  mh_contains :: "Multimap \<Rightarrow> string \<Rightarrow> bool"
  mh_trim :: "string \<Rightarrow> char \<Rightarrow> string"

record S3RdmaContext =
  ctx_bucket :: string
  ctx_object :: string
  ctx_url :: BaseUrl
  ctx_region :: string
  uploadId :: string
  partNumber :: u32
  ctx_checksum :: string
  ctx_etag :: string

definition orThrow :: "('e, 'a option) state \<Rightarrow> ('e sys, 'a outcome) state" where
  "orThrow m = do {
     r \<leftarrow> liftEnv m;
     State_Monad.return (case r of None \<Rightarrow> Throw | Some a \<Rightarrow> Return a)
   }"

subsection \<open>Reading a response\<close>

definition parseBytesTransferred :: "string option \<Rightarrow> size_t \<Rightarrow> int option" where
  "parseBytesTransferred header ifAbsent =
     (case header of None \<Rightarrow> Some (uint ifAbsent) | Some v \<Rightarrow> parseNumber uint64_t v kDefaultNumberBase)"

definition parseRdmaReply :: "string \<Rightarrow> int option" where
  "parseRdmaReply rdma_reply =
     (if rdma_reply = [] then Some kRdmaReplyNotImplemented
      else case hipObjParseRdmaReply (Some rdma_reply) (of_nat (length rdma_reply)) True of
        (err, code) \<Rightarrow> if opError err \<noteq> hipObjSuccess then None else code)"

definition clientNicFromToken :: "string option \<Rightarrow> string" where
  "clientNicFromToken token =
     (case hipObjTokenClientNic token (Some (replicate INET_ADDRSTRLEN NUL)) of
        (err, nicIp) \<Rightarrow> if opError err \<noteq> hipObjSuccess then []
          else takeWhile (\<lambda>c. c \<noteq> NUL) (the nicIp))"

definition headerValue :: "'e MinioHttp \<Rightarrow> Multimap \<Rightarrow> string \<Rightarrow> string option" where
  "headerValue M headers name = (if \<not> mh_contains M headers name then None else Some (mh_getFront M headers name))"

text \<open>\<open>rdma_token\<close>: the text of the token, empty for a null pointer.\<close>

definition tokenText :: "string option \<Rightarrow> string" where
  "tokenText token = (case token of None \<Rightarrow> [] | Some mem \<Rightarrow> cStringViewAll mem)"

subsection \<open>One request\<close>

text \<open>What the response to a PUT means, and what it leaves in the context.\<close>

definition putResponse :: "'e MinioHttp \<Rightarrow> S3RdmaContext \<Rightarrow> size_t \<Rightarrow> Response \<Rightarrow> RdmaResult \<times> S3RdmaContext" where
  "putResponse M sctx sz res =
     (if res_error res \<noteq> [] then (failedResult, sctx)
      else
        let etag = mh_getFront M (res_headers res) ''etag'' in
        if status_code res = rdma_kHttpOk \<and> etag \<noteq> []
        then (\<lparr>rdma_status = RdmaOk, rdma_bytes = sz\<rparr>, sctx\<lparr>ctx_etag := mh_trim M etag (CHR 0x22)\<rparr>)
        else
          let reply_code = parseRdmaReply (mh_getFront M (res_headers res) kAmzRdmaReply) in
          if reply_code = Some kRdmaReplyNotImplemented
          then (\<lparr>rdma_status = RdmaNotSupported, rdma_bytes = 0\<rparr>, sctx)
          else if reply_code \<noteq> Some kRdmaReplySuccess \<and> reply_code \<noteq> Some kRdmaReplyNoContent
          then (failedResult, sctx)
          else
            let resp_checksum = mh_getFront M (res_headers res) ''x-amz-checksum-crc64nvme'';
                sctx = (if resp_checksum \<noteq> [] then sctx\<lparr>ctx_checksum := resp_checksum\<rparr> else sctx)
            in (\<lparr>rdma_status = RdmaOk, rdma_bytes = sz\<rparr>, sctx\<lparr>ctx_etag := mh_trim M etag (CHR 0x22)\<rparr>))"

definition getResponse :: "'e MinioHttp \<Rightarrow> size_t \<Rightarrow> Response \<Rightarrow> RdmaResult" where
  "getResponse M sz res =
     (if res_error res \<noteq> [] then failedResult
      else
        let reply_code = parseRdmaReply (mh_getFront M (res_headers res) kAmzRdmaReply) in
        if reply_code = Some kRdmaReplyNotImplemented then \<lparr>rdma_status = RdmaNotSupported, rdma_bytes = 0\<rparr>
        else if reply_code \<noteq> Some kRdmaReplySuccess \<and> reply_code \<noteq> Some kRdmaReplyPartialContent then failedResult
        else case parseBytesTransferred (headerValue M (res_headers res) kAmzRdmaBytesTransferred) sz of
            None \<Rightarrow> failedResult
          | Some bytes \<Rightarrow> if bytes > uint sz then failedResult
              else \<lparr>rdma_status = RdmaOk, rdma_bytes = word_of_int bytes\<rparr>)"

text \<open>The headers that both requests sign, and the ones that only a PUT has.\<close>

definition commonHeaders :: "'e MinioHttp \<Rightarrow> string \<Rightarrow> int \<Rightarrow> string \<Rightarrow> Multimap" where
  "commonHeaders M host date rdma_token =
     [(''Host'', host), (''x-amz-date'', mh_toAmzDate M date), (''x-amz-content-sha256'', kUnsignedPayload),
      (kAmzRdmaToken, rdma_token)]"

definition nicOfToken :: "string option \<Rightarrow> string option" where
  "nicOfToken token = (let client_nic = clientNicFromToken token in if client_nic \<noteq> [] then Some client_nic else None)"

definition putRequest ::
  "'e MinioHttp \<Rightarrow> S3RdmaContext \<Rightarrow> string option \<Rightarrow> int \<Rightarrow> Credentials \<Rightarrow> Request option" where
  "putRequest M sctx token date creds =
     (if uploadId sctx \<noteq> [] \<and> (partNumber sctx = 0 \<or> partNumber sctx > kMaxPartNumber) then None
      else
        let query_params = (if uploadId sctx \<noteq> []
              then [(''uploadId'', uploadId sctx), (''partNumber'', to_string (uint (partNumber sctx)))] else [])
        in case mh_buildUrl M (ctx_url sctx) kPut (ctx_region sctx) query_params (ctx_bucket sctx) (ctx_object sctx) of
            None \<Rightarrow> None
          | Some url \<Rightarrow>
              let sign_headers = commonHeaders M (mh_hostHeaderValue M url) date (tokenText token) @
                    [(''Content-Type'', ''application/octet-stream''), (''Content-Length'', ''0'')] @
                    (if ctx_checksum sctx \<noteq> [] then [(''x-amz-checksum-crc64nvme'', ctx_checksum sctx)] else []) @
                    (if session_token creds \<noteq> [] then [(''X-Amz-Security-Token'', session_token creds)] else []);
                  signed = mh_signV4S3 M kPut (url_path url) (ctx_region sctx) sign_headers query_params
                    (access_key creds) (secret_key creds) kUnsignedPayload date
              in Some \<lparr>req_method = kPut, req_url = url\<lparr>query_string := mh_toQueryString M query_params\<rparr>,
                   req_headers = signed, connect_timeout_secs = kRdmaConnectTimeoutSecs,
                   timeout_secs = kRdmaTimeoutSecs, nic_interface = nicOfToken token\<rparr>)"

definition getRequest ::
  "'e MinioHttp \<Rightarrow> S3RdmaContext \<Rightarrow> string option \<Rightarrow> int \<Rightarrow> Credentials \<Rightarrow> Request option" where
  "getRequest M sctx token date creds =
     (case mh_buildUrl M (ctx_url sctx) kGet (ctx_region sctx) [] (ctx_bucket sctx) (ctx_object sctx) of
        None \<Rightarrow> None
      | Some url \<Rightarrow>
          let sign_headers = commonHeaders M (mh_hostHeaderValue M url) date (tokenText token) @
                (if session_token creds \<noteq> [] then [(''X-Amz-Security-Token'', session_token creds)] else []);
              signed = mh_signV4S3 M kGet (url_path url) (ctx_region sctx) sign_headers []
                (access_key creds) (secret_key creds) kUnsignedPayload date
          in Some \<lparr>req_method = kGet, req_url = url, req_headers = signed,
               connect_timeout_secs = kRdmaConnectTimeoutSecs, timeout_secs = kRdmaTimeoutSecs,
               nic_interface = nicOfToken token\<rparr>)"

definition rdmaPut ::
  "'e MinioHttp \<Rightarrow> S3RdmaContext \<Rightarrow> string option \<Rightarrow> size_t \<Rightarrow> ('e sys, (RdmaResult \<times> S3RdmaContext) outcome) state" where
  "rdmaPut M sctx token sz =
     bindO (liftO (liftEnv (mh_now M))) (\<lambda>date.
     bindO (orThrow (mh_fetch M)) (\<lambda>creds.
       case putRequest M sctx token date creds of
         None \<Rightarrow> State_Monad.return (Return (failedResult, sctx))
       | Some req \<Rightarrow> bindO (orThrow (mh_execute M req)) (\<lambda>res.
           State_Monad.return (Return (putResponse M sctx sz res)))))"

definition rdmaGet ::
  "'e MinioHttp \<Rightarrow> S3RdmaContext \<Rightarrow> string option \<Rightarrow> size_t \<Rightarrow> ('e sys, RdmaResult outcome) state" where
  "rdmaGet M sctx token sz =
     bindO (liftO (liftEnv (mh_now M))) (\<lambda>date.
     bindO (orThrow (mh_fetch M)) (\<lambda>creds.
       case getRequest M sctx token date creds of
         None \<Rightarrow> State_Monad.return (Return failedResult)
       | Some req \<Rightarrow> bindO (orThrow (mh_execute M req)) (\<lambda>res.
           State_Monad.return (Return (getResponse M sz res)))))"

subsection \<open>Retries\<close>

text \<open>\<open>RdmaTokenDeleter\<close>, for a token that is not null, and the text that a token holds.\<close>

definition releaseToken :: "nat option \<Rightarrow> ('e sys, unit) state" where
  "releaseToken token =
     (case token of
        None \<Rightarrow> State_Monad.return ()
      | Some p \<Rightarrow> do { _ \<leftarrow> hipObjPutRdmaToken (Some p); State_Monad.return () })"

definition readToken :: "nat \<Rightarrow> ('e sys, string option) state" where
  "readToken p = State (\<lambda>s. (tokens s ! p, s))"

text \<open>One turn of a loop: whether the function returns, and what.\<close>

definition putAttempt ::
  "'e MinioHttp \<Rightarrow> nat \<Rightarrow> 'e Platform \<Rightarrow> addr \<Rightarrow> size_t \<Rightarrow> S3RdmaContext \<Rightarrow>
   ('e sys, (bool \<times> RdmaResult \<times> S3RdmaContext) outcome) state" where
  "putAttempt M fuel P buf sz ctx =
     bindO (hipObjGetRdmaToken P buf sz HIPOBJ_RDMA_OP_PUT True) (\<lambda>(terr, rawToken).
       finallyO
         (case rawToken of
            None \<Rightarrow> State_Monad.return (Return (True, failedResult, ctx))
          | Some p \<Rightarrow>
              if opError terr \<noteq> hipObjSuccess then State_Monad.return (Return (True, failedResult, ctx))
              else bindO (hipObjBufSync fuel P buf sz 0 HIPOBJ_SYNC_TO_HOST) (\<lambda>serr.
                if opError serr \<noteq> hipObjSuccess then State_Monad.return (Return (True, failedResult, ctx))
                else bindO (liftO (readToken p)) (\<lambda>token.
                  bindO (rdmaPut M ctx token sz) (\<lambda>(ret, ctx'). State_Monad.return (Return (
                    (rdma_status ret = RdmaOk \<and> rdma_bytes ret > 0) \<or> rdma_status ret = RdmaNotSupported, ret, ctx'))))))
         (releaseToken rawToken))"

definition getAttempt ::
  "'e MinioHttp \<Rightarrow> nat \<Rightarrow> 'e Platform \<Rightarrow> addr \<Rightarrow> size_t \<Rightarrow> S3RdmaContext \<Rightarrow>
   ('e sys, (bool \<times> RdmaResult \<times> S3RdmaContext) outcome) state" where
  "getAttempt M fuel P buf sz ctx =
     bindO (hipObjGetRdmaToken P buf sz HIPOBJ_RDMA_OP_GET True) (\<lambda>(terr, rawToken).
       finallyO
         (case rawToken of
            None \<Rightarrow> State_Monad.return (Return (True, failedResult, ctx))
          | Some p \<Rightarrow>
              if opError terr \<noteq> hipObjSuccess then State_Monad.return (Return (True, failedResult, ctx))
              else bindO (liftO (readToken p)) (\<lambda>token.
                bindO (rdmaGet M ctx token sz) (\<lambda>ret.
                  if rdma_status ret = RdmaOk \<and> rdma_bytes ret > 0
                  then bindO (hipObjBufSync fuel P buf sz 0 HIPOBJ_SYNC_TO_DEVICE) (\<lambda>serr.
                    State_Monad.return (Return (True,
                      if opError serr \<noteq> hipObjSuccess then failedResult else ret, ctx)))
                  else State_Monad.return (Return (rdma_status ret = RdmaNotSupported, ret, ctx)))))
         (releaseToken rawToken))"

fun attempts ::
  "(S3RdmaContext \<Rightarrow> ('e sys, (bool \<times> RdmaResult \<times> S3RdmaContext) outcome) state) \<Rightarrow> nat \<Rightarrow> RdmaResult \<Rightarrow>
   S3RdmaContext \<Rightarrow> ('e sys, (RdmaResult \<times> S3RdmaContext) outcome) state" where
  "attempts turn 0 ret ctx = State_Monad.return (Return (ret, ctx))"
| "attempts turn (Suc n) ret ctx =
     bindO (turn ctx) (\<lambda>(stop, ret', ctx').
       if stop then State_Monad.return (Return (ret', ctx')) else attempts turn n ret' ctx')"

definition rdmaPutWithRetry ::
  "'e MinioHttp \<Rightarrow> nat \<Rightarrow> 'e Platform \<Rightarrow> S3RdmaContext \<Rightarrow> addr \<Rightarrow> size_t \<Rightarrow>
   ('e sys, (RdmaResult \<times> S3RdmaContext) outcome) state" where
  "rdmaPutWithRetry M fuel P ctx buf sz = attempts (putAttempt M fuel P buf sz) kRdmaMaxAttempts failedResult ctx"

definition rdmaGetWithRetry ::
  "'e MinioHttp \<Rightarrow> nat \<Rightarrow> 'e Platform \<Rightarrow> S3RdmaContext \<Rightarrow> addr \<Rightarrow> size_t \<Rightarrow>
   ('e sys, (RdmaResult \<times> S3RdmaContext) outcome) state" where
  "rdmaGetWithRetry M fuel P ctx buf sz = attempts (getAttempt M fuel P buf sz) kRdmaMaxAttempts failedResult ctx"

subsection \<open>Tokens\<close>

text \<open>
  \<open>leaves part m\<close>: running \<open>m\<close> does not change \<open>part\<close> of the state. Of the parts that no change of an instance
  or of the world touches, the library's calls only change the tokens and the published instance, each
  in its own functions.
\<close>

definition leaves :: "('s \<Rightarrow> 'b) \<Rightarrow> ('s, 'a) state \<Rightarrow> bool" where
  "leaves part m \<longleftrightarrow> (\<forall>s. wp m (\<lambda>_ s'. part s' = part s) s)"

lemma leavesD: "leaves part m \<Longrightarrow> part s0 = part s \<Longrightarrow> wp m (\<lambda>_ s'. part s' = part s0) s"
  by (simp add: leaves_def)

lemma leaves_return: "leaves part (State_Monad.return a)"
  by (simp add: leaves_def)

lemma leaves_bind:
  assumes "leaves part m" "\<And>a. leaves part (f a)"
  shows "leaves part (State_Monad.bind m f)"
  unfolding leaves_def
proof
  fix s
  show "wp (State_Monad.bind m f) (\<lambda>_ s'. part s' = part s) s"
    by (rule wp_bindI [OF leavesD [OF assms(1) refl]]) (rule leavesD [OF assms(2)], simp)
qed

lemma leaves_outcomes:
  "leaves part m \<Longrightarrow> (\<And>a. leaves part (g a)) \<Longrightarrow> leaves part (bindO m g)"
  "leaves part m \<Longrightarrow> leaves part cleanup \<Longrightarrow> leaves part (finallyO m cleanup)"
  "leaves part m \<Longrightarrow> leaves part (catchO m a)"
  by (auto simp: bindO_def finallyO_def catchO_def intro!: leaves_bind leaves_return split: outcome.splits)

lemma leaves_liftO: "leaves part m \<Longrightarrow> leaves part (liftO m)"
  by (auto simp: liftO_def intro!: leaves_bind leaves_return)

locale public_part =
  fixes part :: "'e sys \<Rightarrow> 'b"
  assumes part_world: "part (s\<lparr>sys_world := w\<rparr>) = part s"
    and part_instances: "part (s\<lparr>instances := xs\<rparr>) = part s"
begin

lemma leaves_steps:
  "leaves part (onInstance i f)" "leaves part (liftW m)" "leaves part (readInstance i)" "leaves part currentInstance"
  "leaves part (drop_instance P i)" "leaves part (readToken p)"
  by (auto simp: leaves_def onInstance_def liftW_def readInstance_def currentInstance_def drop_instance_def
      readToken_def wp_def State_Monad.bind_def State_Monad.get_def State_Monad.set_def State_Monad.return_def
      part_world part_instances split: prod.splits option.splits if_splits)

lemma leaves_orThrow: "leaves part (orThrow m)"
  unfolding orThrow_def liftEnv_def by (intro leaves_bind leaves_steps leaves_return)

lemma leaves_withInstance: "(\<And>i. leaves part (f i)) \<Longrightarrow> leaves part (withInstance P fail f)"
  unfolding withInstance_def
  by (auto intro!: leaves_bind leaves_outcomes leaves_steps leaves_return split: option.splits)

lemma leaves_withCheckedBuffer:
  "(\<And>j. leaves part (f j)) \<Longrightarrow> leaves part (withCheckedBuffer P i p sz offset fail f)"
  unfolding withCheckedBuffer_def withBuffer_def Let_def
  by (auto intro!: leaves_bind leaves_outcomes leaves_liftO leaves_steps leaves_return split: option.splits)

lemma leaves_sync: "leaves part (hipObjBufSync fuel P p sz offset direction)"
  unfolding hipObjBufSync_def
  by (auto intro!: leaves_withInstance leaves_withCheckedBuffer leaves_outcomes leaves_steps leaves_return)

lemma leaves_register:
  "leaves part (hipObjBufRegister P p sz)" "leaves part (hipObjBufDeregister P p)"
  unfolding hipObjBufRegister_def hipObjBufDeregister_def Let_def
  by (auto intro!: leaves_withInstance leaves_outcomes leaves_liftO leaves_steps leaves_return)

lemma leaves_transfer: "leaves part (rdmaPut M ctx token sz)" "leaves part (rdmaGet M ctx token sz)"
  unfolding rdmaPut_def rdmaGet_def liftEnv_def
  by (auto intro!: leaves_outcomes leaves_liftO leaves_steps leaves_orThrow leaves_return split: option.splits)

end

interpretation tk: public_part tokens
  by unfold_locales simp_all

interpretation cur: public_part current
  by unfold_locales simp_all

abbreviation tokens_kept :: "('e sys, 'a) state \<Rightarrow> bool" where
  "tokens_kept m \<equiv> leaves tokens m"

text \<open>What minting does: a new cell that the result names, or nothing.\<close>

definition minted :: "string option list \<Rightarrow> (hipObjError_t \<times> nat option) outcome \<Rightarrow> 'e sys \<Rightarrow> bool" where
  "minted ts r s \<longleftrightarrow>
     (case r of
        Return (err, Some p) \<Rightarrow> p = length ts \<and> (\<exists>c. tokens s = ts @ [Some c])
      | _ \<Rightarrow> tokens s = ts)"

lemma minted_simps [simp]:
  "minted ts (Return (err, None)) s \<longleftrightarrow> tokens s = ts"
  "minted ts (Return (err, Some p)) s \<longleftrightarrow> p = length ts \<and> (\<exists>c. tokens s = ts @ [Some c])"
  "minted ts Throw s \<longleftrightarrow> tokens s = ts" "minted ts Block s \<longleftrightarrow> tokens s = ts" "minted ts Running s \<longleftrightarrow> tokens s = ts"
  by (simp_all add: minted_def)

lemma minted_tokens: "minted ts r s1 \<Longrightarrow> tokens s2 = tokens s1 \<Longrightarrow> minted ts r s2"
  by (auto simp: minted_def split: outcome.splits option.splits)

definition mints :: "('e sys, (hipObjError_t \<times> nat option) outcome) state \<Rightarrow> bool" where
  "mints m \<longleftrightarrow> (\<forall>s. wp m (minted (tokens s)) s)"

lemma mints_return: "mints (State_Monad.return (Return (err, None)))"
  by (simp add: mints_def)

lemma mints_bind:
  assumes "tokens_kept m" "\<And>a. mints (f a)"
  shows "mints (State_Monad.bind m f)"
  unfolding mints_def
proof
  fix s
  show "wp (State_Monad.bind m f) (minted (tokens s)) s"
    by (rule wp_bindI [OF leavesD [OF assms(1) refl]]) (metis assms(2) mints_def)
qed

lemma mints_bindO:
  assumes "tokens_kept m" "\<And>a. mints (f a)"
  shows "mints (bindO m f)"
  unfolding mints_def
proof
  fix s
  show "wp (bindO m f) (minted (tokens s)) s"
    by (rule wp_bindO [OF leavesD [OF assms(1) refl]]) (metis assms(2) mints_def | simp)+
qed

lemma mints_finallyO:
  assumes "mints m" "tokens_kept cleanup"
  shows "mints (finallyO m cleanup)"
  unfolding mints_def
proof
  fix s
  have "wp m (minted (tokens s)) s"
    using assms(1) by (simp add: mints_def)
  then show "wp (finallyO m cleanup) (minted (tokens s)) s"
    by (rule wp_finallyO) (auto intro!: wp_conseq [OF leavesD [OF assms(2) refl]] intro: minted_tokens)
qed

lemma mints_catchO:
  assumes "mints m"
  shows "mints (catchO m (err, None))"
  unfolding mints_def
proof
  fix s
  have "wp m (minted (tokens s)) s"
    using assms by (simp add: mints_def)
  then show "wp (catchO m (err, None)) (minted (tokens s)) s"
    by (rule wp_catchO) simp_all
qed

lemma mints_allocate: "mints (do { copy \<leftarrow> allocateToken c; State_Monad.return (Return (err, Some copy)) })"
  by (simp add: mints_def allocateToken_def wp_def)

lemma mints_GetRdmaToken: "mints (hipObjGetRdmaToken P p sz op out)"
  unfolding hipObjGetRdmaToken_def withInstance_def withCheckedBuffer_def withBuffer_def Let_def
  by (auto intro!: mints_catchO mints_bind mints_bindO mints_finallyO mints_return mints_allocate tk.leaves_steps
      leaves_liftO split: option.splits)

text \<open>
  \<open>released n ts\<close>: a call that came back has handed out at most \<open>n\<close> tokens since there were \<open>ts\<close>, and
  has taken back every one of them.
\<close>

definition released :: "nat \<Rightarrow> string option list \<Rightarrow> 'a outcome \<Rightarrow> 'e sys \<Rightarrow> bool" where
  "released n ts r s \<longleftrightarrow> (ends r \<longrightarrow> (\<exists>k\<le>n. tokens s = ts @ replicate k None))"

lemma released_none: "tokens s = ts \<Longrightarrow> released n ts r s"
  unfolding released_def by (intro impI exI [of _ 0]) simp

lemma released_waiting [simp]: "released n ts Block s" "released n ts Running s"
  by (simp_all add: released_def)

lemma released_throw: "released m ts Throw s \<Longrightarrow> m \<le> n \<Longrightarrow> released n ts Throw s"
  by (auto simp: released_def)

lemma wp_releaseToken:
  "tokens s = ts @ [Some c] \<Longrightarrow> wp (releaseToken (Some (length ts))) (\<lambda>_ s'. tokens s' = ts @ [None]) s"
  by (simp add: releaseToken_def hipObjPutRdmaToken_def wp_def catchO_def State_Monad.bind_def State_Monad.get_def
      State_Monad.set_def State_Monad.return_def)

lemma wp_with_token:
  fixes s :: "'e sys"
  assumes none: "\<And>terr. tokens_kept (body terr None)" and some: "\<And>terr p. tokens_kept (body terr (Some p))"
  shows "wp (bindO (hipObjGetRdmaToken P buf sz op out) (\<lambda>(terr, raw). finallyO (body terr raw) (releaseToken raw)))
    (released 1 (tokens s)) s"
proof (rule wp_bindO [where P = "minted (tokens s)"], goal_cases)
  case 1
  show ?case
    by (rule spec [OF mints_GetRdmaToken [unfolded mints_def]])
next
  case (2 a s1)
  obtain terr raw where a: "a = (terr, raw)"
    by (cases a)
  show ?case
  proof (cases raw)
    case None
    then have "tokens s1 = tokens s"
      using 2 a by simp
    then show ?thesis
      unfolding a None prod.case
      by (intro wp_finallyO [OF leavesD [OF none refl]]) (auto simp: releaseToken_def intro: released_none)
  next
    case (Some p)
    then obtain c where p: "p = length (tokens s)" and s1: "tokens s1 = tokens s @ [Some c]"
      using 2 a by auto
    show ?thesis
      unfolding a Some prod.case
    proof (rule wp_finallyO [OF leavesD [OF some refl]], goal_cases)
      case (1 r s2)
      then show ?case
        unfolding p by (intro wp_conseq [OF wp_releaseToken]) (auto simp: s1 released_def intro!: exI [of _ 1])
    qed simp_all
  qed
qed (auto intro: released_none)

lemma wp_putAttempt: "wp (putAttempt M fuel P buf sz ctx) (released 1 (tokens s)) s"
  unfolding putAttempt_def
  by (rule wp_with_token)
     (auto intro!: leaves_return leaves_outcomes tk.leaves_sync leaves_liftO tk.leaves_steps
       tk.leaves_transfer split: prod.splits)

lemma wp_getAttempt: "wp (getAttempt M fuel P buf sz ctx) (released 1 (tokens s)) s"
  unfolding getAttempt_def
  by (rule wp_with_token)
     (auto intro!: leaves_return leaves_outcomes tk.leaves_sync leaves_liftO tk.leaves_steps
       tk.leaves_transfer split: prod.splits)

lemma wp_attempts:
  fixes s :: "'e sys"
  assumes turn: "\<And>ctx s. wp (turn ctx) (released 1 (tokens s)) s"
  shows "wp (attempts turn n ret ctx) (released n (tokens s)) s"
proof (induction n arbitrary: ret ctx s)
  case 0
  show ?case by (simp add: released_none)
next
  case (Suc n)
  show ?case
    unfolding attempts.simps
  proof (rule wp_bindO [OF turn], goal_cases)
    case (1 a s1)
    obtain stop ret' ctx' where a: "a = (stop, ret', ctx')"
      by (cases a)
    from 1 obtain k where k: "k \<le> 1" "tokens s1 = tokens s @ replicate k None"
      by (auto simp: released_def)
    show ?case
    proof (cases stop)
      case True
      then show ?thesis
        using k by (auto simp: a released_def intro!: exI [of _ k])
    next
      case False
      have "released (Suc n) (tokens s) r s2" if "released n (tokens s1) r s2" for r and s2 :: "'e sys"
        unfolding released_def
      proof
        assume "ends r"
        with that obtain l where "l \<le> n" "tokens s2 = tokens s @ replicate (k + l) None"
          by (auto simp: released_def k replicate_add)
        with k show "\<exists>k\<le>Suc n. tokens s2 = tokens s @ replicate k None"
          by (intro exI [of _ "k + l"]) simp
      qed
      with False show ?thesis
        unfolding a by (simp, intro wp_conseq [OF Suc.IH]) blast
    qed
  qed (simp_all add: released_throw [where m = "Suc 0"])
qed

lemma retries_released:
  "wp (rdmaPutWithRetry M fuel P ctx buf sz) (released 2 (tokens s)) s"
  "wp (rdmaGetWithRetry M fuel P ctx buf sz) (released 2 (tokens s)) s"
  unfolding rdmaPutWithRetry_def rdmaGetWithRetry_def kRdmaMaxAttempts_def
  by (intro wp_attempts wp_putAttempt wp_getAttempt)+

subsection \<open>What a transfer reports\<close>

text \<open>A result that is well formed for a transfer of \<open>sz\<close> bytes.\<close>

definition result_ok :: "size_t \<Rightarrow> RdmaResult \<Rightarrow> bool" where
  "result_ok sz ret \<longleftrightarrow> rdma_bytes ret \<le> sz \<and> (rdma_status ret \<noteq> RdmaOk \<longrightarrow> rdma_bytes ret = 0)"

lemma result_ok_failed [simp]: "result_ok sz failedResult"
  by (simp add: result_ok_def failedResult_def)

definition put_result_ok :: "size_t \<Rightarrow> RdmaResult \<Rightarrow> bool" where
  "put_result_ok sz ret \<longleftrightarrow> rdma_bytes ret = (if rdma_status ret = RdmaOk then sz else 0)"

lemma put_result_ok_failed [simp]: "put_result_ok sz failedResult"
  by (simp add: put_result_ok_def failedResult_def)

lemma put_result_ok: "put_result_ok sz (fst (putResponse M ctx sz res))"
  by (simp add: putResponse_def Let_def put_result_ok_def failedResult_def)

lemma parseBytesTransferred_range:
  assumes "parseBytesTransferred h d = Some n"
  shows "0 \<le> n \<and> n < 2 ^ 64"
proof (cases h)
  case None
  then show ?thesis
    using assms uint_lt2p [of d] by (auto simp: parseBytesTransferred_def)
next
  case (Some v)
  then show ?thesis
    using assms parseNumber_range [of uint64_t v kDefaultNumberBase n] by (simp add: parseBytesTransferred_def uint64_t_def)
qed


lemma result_ok_get: "result_ok sz (getResponse M sz res)"
proof -
  have "word_of_int n \<le> sz" if "parseBytesTransferred h d = Some n" "n \<le> uint sz" for n h d
    using parseBytesTransferred_range [OF that(1)] that(2)
    by (simp add: word_le_def uint_word_of_int_eq take_bit_int_eq_self)
  then show ?thesis
    by (auto simp: getResponse_def Let_def result_ok_def failedResult_def split: option.splits)
qed

text \<open>\<open>gives Q m\<close>: when \<open>m\<close> returns, its result satisfies \<open>Q\<close>.\<close>

definition gives :: "('a \<Rightarrow> bool) \<Rightarrow> ('s, 'a outcome) state \<Rightarrow> bool" where
  "gives Q m \<longleftrightarrow> (\<forall>s. wp m (\<lambda>r _. \<forall>a. r = Return a \<longrightarrow> Q a) s)"

lemma gives_return [simp]: "gives Q (State_Monad.return (Return a)) \<longleftrightarrow> Q a"
  by (simp add: gives_def)

lemma gives_bindO:
  assumes "\<And>a. gives Q (f a)"
  shows "gives Q (bindO m f)"
  unfolding gives_def
  by (intro allI wp_bindO [where P = "\<lambda>_ _. True"]) (use assms in \<open>auto simp: gives_def wp_def\<close>)

lemma gives_bindO_of:
  assumes "gives R m" "\<And>a. R a \<Longrightarrow> gives Q (f a)"
  shows "gives Q (bindO m f)"
  unfolding gives_def
  by (intro allI wp_bindO [OF spec [OF assms(1) [unfolded gives_def]]]) (use assms(2) in \<open>auto simp: gives_def\<close>)

lemma gives_finallyO:
  assumes "gives Q m"
  shows "gives Q (finallyO m cleanup)"
  unfolding gives_def
  by (intro allI wp_finallyO [OF spec [OF assms [unfolded gives_def]]]) (auto simp: wp_def)

lemma gives_rdma:
  "gives (\<lambda>(ret, _). put_result_ok sz ret) (rdmaPut M ctx token sz)" "gives (result_ok sz) (rdmaGet M ctx token sz)"
  unfolding rdmaPut_def rdmaGet_def
  by (auto intro!: gives_bindO simp: put_result_ok result_ok_get split_beta split: option.splits)

lemma gives_putAttempt: "gives (\<lambda>(_, ret, _). put_result_ok sz ret) (putAttempt M fuel P buf sz ctx)"
  unfolding putAttempt_def
  by (auto intro!: gives_bindO gives_finallyO gives_bindO_of [OF gives_rdma(1)] split: prod.splits option.splits)

lemma gives_getAttempt: "gives (\<lambda>(_, ret, _). result_ok sz ret) (getAttempt M fuel P buf sz ctx)"
  unfolding getAttempt_def
  by (auto intro!: gives_bindO gives_finallyO gives_bindO_of [OF gives_rdma(2)] split: prod.splits option.splits)

lemma gives_attempts:
  assumes "\<And>ctx. gives (\<lambda>(_, ret, _). Q ret) (turn ctx)" "Q ret"
  shows "gives (\<lambda>(ret, _). Q ret) (attempts turn n ret ctx)"
  using assms(2) by (induction n arbitrary: ret ctx) (auto intro!: gives_bindO_of [OF assms(1)] split: prod.splits)

lemma gives_retries:
  "gives (\<lambda>(ret, _). put_result_ok sz ret) (rdmaPutWithRetry M fuel P ctx buf sz)"
  "gives (\<lambda>(ret, _). result_ok sz ret) (rdmaGetWithRetry M fuel P ctx buf sz)"
  unfolding rdmaPutWithRetry_def rdmaGetWithRetry_def
  by (intro gives_attempts gives_putAttempt gives_getAttempt result_ok_failed put_result_ok_failed)+

subsection \<open>The library's invariant\<close>

lemma keeps_orThrow: "keeps pre (orThrow m)"
  by (rule keepsI)
     (auto simp: orThrow_def liftEnv_def liftE_def liftW_def wp_def kept_def qps_same_def State_Monad.bind_def
       State_Monad.return_def intro!: sys_inv_world split: prod.splits option.splits)

lemma keeps_token_access: "keeps pre (liftO (releaseToken t))" "keeps pre (liftO (readToken p))"
  by (rule keepsI; auto simp: releaseToken_def readToken_def hipObjPutRdmaToken_def catchO_def kept_def
      wp_def [of "State _"] split: option.splits)+

lemmas keeps_minio = keeps_bindO keeps_finallyO keeps_liftEnv keeps_orThrow keeps_token_access
  keeps_any [OF keeps_tokens(1)] keeps_any [OF keeps_sync]

lemma keeps_rdma: "keeps pre (rdmaPut M ctx token sz)" "keeps pre (rdmaGet M ctx token sz)"
  unfolding rdmaPut_def rdmaGet_def by (auto intro!: keeps_minio split: option.splits)

lemma keeps_attempt: "keeps pre (putAttempt M fuel P buf sz ctx)" "keeps pre (getAttempt M fuel P buf sz ctx)"
  unfolding putAttempt_def getAttempt_def by (auto intro!: keeps_minio keeps_rdma split: prod.splits option.splits)

lemma keeps_attempts: "(\<And>ctx. keeps pre (turn ctx)) \<Longrightarrow> keeps pre (attempts turn n ret ctx)"
  by (induction n arbitrary: ret ctx) (auto intro!: keeps_bindO split: prod.splits)

lemma keeps_retries:
  "call_ok (rdmaPutWithRetry M fuel P ctx buf sz)" "call_ok (rdmaGetWithRetry M fuel P ctx buf sz)"
  unfolding rdmaPutWithRetry_def rdmaGetWithRetry_def by (intro keeps_attempts keeps_attempt)+

subsection \<open>The published instance\<close>

lemma current_tokens: "leaves current (hipObjGetRdmaToken P p sz op out)" "leaves current (releaseToken t)"
proof -
  have "leaves current (allocateToken c)" for c
    by (simp add: leaves_def allocateToken_def wp_def)
  then show "leaves current (hipObjGetRdmaToken P p sz op out)"
    unfolding hipObjGetRdmaToken_def
    by (auto intro!: cur.leaves_withInstance cur.leaves_withCheckedBuffer cur.leaves_steps leaves_bind leaves_outcomes
        leaves_return split: option.splits)
  show "leaves current (releaseToken t)"
    by (auto simp: leaves_def releaseToken_def hipObjPutRdmaToken_def catchO_def split: option.splits)
qed

lemma current_attempts:
  "(\<And>ctx. leaves current (turn ctx)) \<Longrightarrow> leaves current (attempts turn n ret ctx)"
  by (induction n arbitrary: ret ctx) (auto intro!: leaves_outcomes leaves_return split: prod.splits)

lemma current_retries:
  "leaves current (rdmaPutWithRetry M fuel P ctx buf sz)" "leaves current (rdmaGetWithRetry M fuel P ctx buf sz)"
  unfolding rdmaPutWithRetry_def rdmaGetWithRetry_def putAttempt_def getAttempt_def
  by (auto intro!: current_attempts current_tokens leaves_outcomes leaves_liftO leaves_return cur.leaves_steps
      cur.leaves_sync cur.leaves_transfer split: prod.splits option.splits)

subsection \<open>Properties\<close>

text \<open>A server's side for the witnesses: it answers every request with the headers given.\<close>

definition sample_http :: "Multimap \<Rightarrow> 'e MinioHttp" where
  "sample_http headers =
    \<lparr>mh_now = State_Monad.return 0, mh_toAmzDate = (\<lambda>t. ''20250101T000000Z''),
     mh_fetch = State_Monad.return (Some \<lparr>access_key = ''access'', secret_key = ''secret'', session_token = []\<rparr>),
     mh_buildUrl = (\<lambda>base m region query bucket obj.
       Some \<lparr>url_path = bucket @ ''/'' @ obj, query_string = [], url_rest = base_host base\<rparr>),
     mh_hostHeaderValue = url_rest, mh_signV4S3 = (\<lambda>m path region hs query access secret payload t. hs),
     mh_toQueryString = (\<lambda>query. []),
     mh_execute = (\<lambda>req. State_Monad.return (Some \<lparr>res_error = [], status_code = 200, res_headers = headers\<rparr>)),
     mh_getFront = (\<lambda>hs name. case map_of hs name of None \<Rightarrow> [] | Some v \<Rightarrow> v),
     mh_contains = (\<lambda>hs name. name \<in> fst ` set hs), mh_trim = (\<lambda>text c. filter (\<lambda>x. x \<noteq> c) text)\<rparr>"

definition sample_ctx :: S3RdmaContext where
  "sample_ctx =
    \<lparr>ctx_bucket = ''bucket'', ctx_object = ''object'',
     ctx_url = \<lparr>base_host = ''localhost'', base_region = [], base_https = False\<rparr>, ctx_region = [],
     uploadId = [], partNumber = 0, ctx_checksum = [], ctx_etag = []\<rparr>"

text \<open>
  C6. However an RDMA transfer of the minio-cpp integration comes back, by returning or because
  fetching credentials or sending a request threw, every token that it got from the library has been
  given back, and there were at most two of them.
\<close>

theorem rdma_retries_release_tokens:
  "wp (rdmaPutWithRetry M fuel P ctx buf sz) (\<lambda>r s'. ends r \<longrightarrow> (\<exists>k\<le>2. tokens s' = tokens s @ replicate k None)) s \<and>
   wp (rdmaGetWithRetry M fuel P ctx buf sz) (\<lambda>r s'. ends r \<longrightarrow> (\<exists>k\<le>2. tokens s' = tokens s @ replicate k None)) s"
  using retries_released [of M fuel P ctx buf sz s] by (auto simp: released_def elim!: wp_conseq)

theorem rdma_retries_release_tokens_witness:
  "wp (rdmaPutWithRetry (sample_http []) 10 sample_platform sample_ctx 8192 512)
     (\<lambda>r s'. ends r \<longrightarrow> (\<exists>k\<le>2. tokens s' = tokens sample_running @ replicate k None)) sample_running \<and>
   wp (rdmaGetWithRetry (sample_http []) 10 sample_platform sample_ctx 8192 512)
     (\<lambda>r s'. ends r \<longrightarrow> (\<exists>k\<le>2. tokens s' = tokens sample_running @ replicate k None)) sample_running"
  by (rule rdma_retries_release_tokens)

text \<open>
  What an RDMA transfer reports is within the buffer: never more than the size asked for, all of it for a PUT
  that succeeded, and no bytes at all unless it succeeded.
\<close>

theorem rdma_result_bounds:
  "wp (rdmaPutWithRetry M fuel P ctx buf sz) (\<lambda>r _. \<forall>ret ctx'. r = Return (ret, ctx') \<longrightarrow>
     rdma_bytes ret = (if rdma_status ret = RdmaOk then sz else 0)) s \<and>
   wp (rdmaGetWithRetry M fuel P ctx buf sz) (\<lambda>r _. \<forall>ret ctx'. r = Return (ret, ctx') \<longrightarrow>
     rdma_bytes ret \<le> sz \<and> (rdma_status ret \<noteq> RdmaOk \<longrightarrow> rdma_bytes ret = 0)) s"
  using gives_retries(1) [of sz M fuel P ctx buf] gives_retries(2) [of sz M fuel P ctx buf]
  by (auto simp: gives_def result_ok_def put_result_ok_def elim!: wp_conseq dest!: spec [where x = s])

theorem rdma_result_bounds_witness:
  "wp (rdmaPutWithRetry (sample_http []) 10 sample_platform sample_ctx 8192 512)
     (\<lambda>r _. \<forall>ret ctx'. r = Return (ret, ctx') \<longrightarrow>
       rdma_bytes ret = (if rdma_status ret = RdmaOk then 512 else 0)) sample_running \<and>
   wp (rdmaGetWithRetry (sample_http []) 10 sample_platform sample_ctx 8192 512)
     (\<lambda>r _. \<forall>ret ctx'. r = Return (ret, ctx') \<longrightarrow>
       rdma_bytes ret \<le> 512 \<and> (rdma_status ret \<noteq> RdmaOk \<longrightarrow> rdma_bytes ret = 0)) sample_running"
  by (rule rdma_result_bounds)

lemma parseBytesTransferred_iff:
  "parseBytesTransferred h d = Some n \<longleftrightarrow>
     (case h of
        None \<Rightarrow> n = uint d
      | Some v \<Rightarrow> v \<noteq> [] \<and> (\<forall>c\<in>set v. is_base_digit 10 c) \<and> n = int (digits_value 10 0 v) \<and> n < 2 ^ 64)"
  by (auto simp: parseBytesTransferred_def parseNumber_unsigned_iff uint64_t_def kDefaultNumberBase_def split: option.splits)

lemma counted_bytes_iff:
  "(\<exists>k. parseBytesTransferred h sz = Some k \<and> k \<le> uint sz \<and> n = word_of_int k) \<longleftrightarrow>
     (case h of
        None \<Rightarrow> n = sz
      | Some v \<Rightarrow> v \<noteq> [] \<and> list_all (is_base_digit 10) v \<and> digits_value 10 0 v \<le> unat sz \<and> unat n = digits_value 10 0 v)"
proof (cases h)
  case (Some v)
  have le: "int (digits_value 10 0 v) \<le> uint sz \<longleftrightarrow> digits_value 10 0 v \<le> unat sz"
    by (subst uint_nat) (rule of_nat_le_iff)
  have fits: "int (digits_value 10 0 v) < 2 ^ 64 \<and> (n = word_of_int (int (digits_value 10 0 v)) \<longleftrightarrow> unat n = digits_value 10 0 v)"
    if "digits_value 10 0 v \<le> unat sz"
  proof -
    have "digits_value 10 0 v < 2 ^ 64"
      using that unsigned_less [of sz, where ?'a = nat] by simp
    then show ?thesis
      by (auto simp: word_unat_eq_iff unat_of_nat take_bit_nat_eq_self)
  qed
  show ?thesis
    unfolding parseBytesTransferred_iff Some option.case list_all_iff using fits le by blast
qed (simp add: parseBytesTransferred_def)

text \<open>
  C19. A GET counts as done by RDMA exactly when the HTTP exchange worked, the reply says 200 or 206, and the
  count of bytes is absent, which means the whole buffer, or a plain decimal number that fits the buffer. A reply of
  501, or none at all, means that the server does not support RDMA.
\<close>

theorem getResponse_exact:
  "(getResponse M sz res = \<lparr>rdma_status = RdmaOk, rdma_bytes = n\<rparr> \<longleftrightarrow>
      res_error res = [] \<and>
      parseRdmaReply (mh_getFront M (res_headers res) kAmzRdmaReply) \<in> {Some 200, Some 206} \<and>
      (case headerValue M (res_headers res) kAmzRdmaBytesTransferred of
         None \<Rightarrow> n = sz
       | Some v \<Rightarrow> v \<noteq> [] \<and> list_all (is_base_digit 10) v \<and> digits_value 10 0 v \<le> unat sz \<and>
           unat n = digits_value 10 0 v)) \<and>
   (rdma_status (getResponse M sz res) = RdmaNotSupported \<longleftrightarrow>
      res_error res = [] \<and> parseRdmaReply (mh_getFront M (res_headers res) kAmzRdmaReply) = Some 501) \<and>
   parseRdmaReply [] = Some 501"
proof (intro conjI)
  show "getResponse M sz res = \<lparr>rdma_status = RdmaOk, rdma_bytes = n\<rparr> \<longleftrightarrow>
      res_error res = [] \<and>
      parseRdmaReply (mh_getFront M (res_headers res) kAmzRdmaReply) \<in> {Some 200, Some 206} \<and>
      (case headerValue M (res_headers res) kAmzRdmaBytesTransferred of
         None \<Rightarrow> n = sz
       | Some v \<Rightarrow> v \<noteq> [] \<and> list_all (is_base_digit 10) v \<and> digits_value 10 0 v \<le> unat sz \<and>
           unat n = digits_value 10 0 v)"
    unfolding counted_bytes_iff [symmetric]
    by (auto simp: getResponse_def Let_def failedResult_def reply_code_defs not_less split: option.splits)
  show "rdma_status (getResponse M sz res) = RdmaNotSupported \<longleftrightarrow>
      res_error res = [] \<and> parseRdmaReply (mh_getFront M (res_headers res) kAmzRdmaReply) = Some 501"
    by (auto simp: getResponse_def Let_def failedResult_def reply_code_defs split: option.splits)
  show "parseRdmaReply [] = Some 501"
    by (simp add: parseRdmaReply_def reply_code_defs)
qed



end
