(* ===== verification/Minio_Client.thy ===== *)
theory Minio_Client
  imports Minio_Rdma
begin

text \<open>
  The client of the minio-cpp integration, from \<^verbatim>\<open>integrations/minio-cpp/src/client.cpp\<close> and
  \<^verbatim>\<open>include/hipobj_minio/client.h\<close>: PUT and GET of an object by RDMA, with the fallback to HTTP, the runtime that
  initializes hipObject on demand, and the counters of transfers.

  The state is the library's together with the process-wide runtime and counters. The runtime's mutex
  makes its operations atomic. What the code uses of minio-cpp, and the host's memory, are a record of
  parameters: an HTTP GET gives the chunks that it hands to the data function, in order, next to its
  response, and a call that throws has no response. Running out of memory is not modelled.
\<close>

subsection \<open>Counters\<close>

record TransferStats =
  rdmaPuts :: u64
  rdmaGets :: u64
  httpPuts :: u64
  httpGets :: u64
  rdmaBytes :: u64
  httpBytes :: u64

definition CountRdmaPut :: "size_t \<Rightarrow> TransferStats \<Rightarrow> TransferStats" where
  "CountRdmaPut n t = t\<lparr>rdmaPuts := rdmaPuts t + 1, rdmaBytes := rdmaBytes t + n\<rparr>"

definition CountRdmaGet :: "size_t \<Rightarrow> TransferStats \<Rightarrow> TransferStats" where
  "CountRdmaGet n t = t\<lparr>rdmaGets := rdmaGets t + 1, rdmaBytes := rdmaBytes t + n\<rparr>"

definition CountHttpPut :: "size_t \<Rightarrow> TransferStats \<Rightarrow> TransferStats" where
  "CountHttpPut n t = t\<lparr>httpPuts := httpPuts t + 1, httpBytes := httpBytes t + n\<rparr>"

definition CountHttpGet :: "size_t \<Rightarrow> TransferStats \<Rightarrow> TransferStats" where
  "CountHttpGet n t = t\<lparr>httpGets := httpGets t + 1, httpBytes := httpBytes t + n\<rparr>"

definition TransferStatsReset :: "TransferStats \<Rightarrow> TransferStats" where
  "TransferStatsReset t =
    \<lparr>rdmaPuts = 0, rdmaGets = 0, httpPuts = 0, httpGets = 0, rdmaBytes = 0, httpBytes = 0\<rparr>"

definition TransferStatsLine :: "TransferStats \<Rightarrow> string" where
  "TransferStatsLine t =
     ''hipobj-stats: rdma_put='' @ to_string (uint (rdmaPuts t)) @ '' rdma_get='' @ to_string (uint (rdmaGets t)) @
     '' http_put='' @ to_string (uint (httpPuts t)) @ '' http_get='' @ to_string (uint (httpGets t)) @
     '' rdma_bytes='' @ to_string (uint (rdmaBytes t)) @ '' http_bytes='' @ to_string (uint (httpBytes t))"

subsection \<open>State\<close>

record HipObjRuntime =
  rt_initialized :: bool
  rt_active_key :: string
  rt_endpoint_storage :: string
  rt_nic_hint_storage :: string

record 'e app =
  app_sys :: "'e sys"
  runtime :: HipObjRuntime
  stats :: TransferStats

subsection \<open>What the code uses of minio-cpp\<close>

text \<open>The fields that the code does not touch are one opaque value. A null \<^verbatim>\<open>stream\<close> is \<open>None\<close>, and a stream is
  what can be read from it.\<close>

record ObjectArgs =
  arg_bucket :: string
  arg_object :: string
  arg_region :: string
  arg_buf :: addr
  arg_size :: "size_t option"
  arg_rest :: string

record PutObjectArgs = ObjectArgs +
  arg_stream :: "string option"
  object_size :: int
  part_size :: size_t

datatype DataFunction = CallerFunction string | ChunkFunction

record GetObjectArgs = ObjectArgs +
  datafunc :: DataFunction

record ObjectResponse =
  resp_error :: "string option"
  resp_etag :: string
  resp_rest :: string

record 'e MinioClient =
  mc_http :: "'e MinioHttp"
  mc_validatePut :: "PutObjectArgs \<Rightarrow> string option \<times> PutObjectArgs"
  mc_validateGet :: "GetObjectArgs \<Rightarrow> string option \<times> GetObjectArgs"
  mc_putObject :: "PutObjectArgs \<Rightarrow> ('e, ObjectResponse option) state"
  mc_getObject :: "GetObjectArgs \<Rightarrow> ('e, string list \<times> ObjectResponse option) state"
  mc_getRegion :: "string \<Rightarrow> string \<Rightarrow> ('e, (string + string) option) state"

text \<open>
  The process: the platform that the library finds, the environment, the host's memory, and what the
  C++ implementation leaves open: what a string stream holds after \<^verbatim>\<open>pubsetbuf\<close>, the longest string and the
  longest \<^verbatim>\<open>long\<close>.
\<close>

record 'e HostMemory =
  mem_peek :: "'e \<Rightarrow> addr \<Rightarrow> char"
  mem_poke :: "addr \<Rightarrow> char \<Rightarrow> 'e \<Rightarrow> 'e"

record 'e Process =
  pr_platform :: "'e Platform"
  pr_system :: "'e Platform option"
  pr_getenv :: EnvLookup
  pr_fuel :: nat
  pr_hipGetLastError :: "('e, unit) state"
  pr_memory :: "'e HostMemory"
  pr_pubsetbuf :: "string \<Rightarrow> string"
  pr_stringMax :: nat
  pr_longMax :: int

definition liftS :: "('e sys, 'a) state \<Rightarrow> ('e app, 'a) state" where
  "liftS m = State (\<lambda>a. case run_state m (app_sys a) of (r, s) \<Rightarrow> (r, a\<lparr>app_sys := s\<rparr>))"

definition countTransfer :: "(TransferStats \<Rightarrow> TransferStats) \<Rightarrow> ('e app, unit) state" where
  "countTransfer f = State (\<lambda>a. ((), a\<lparr>stats := f (stats a)\<rparr>))"

definition TransferStatsSnapshot :: "('e app, TransferStats) state" where
  "TransferStatsSnapshot = State (\<lambda>a. (stats a, a))"

subsection \<open>The host's memory\<close>

definition peeks :: "'e HostMemory \<Rightarrow> addr \<Rightarrow> nat \<Rightarrow> 'e \<Rightarrow> string" where
  "peeks M p n e = map (\<lambda>i. mem_peek M e (p + of_nat i)) [0..<n]"

fun pokes :: "'e HostMemory \<Rightarrow> addr \<Rightarrow> string \<Rightarrow> 'e \<Rightarrow> 'e" where
  "pokes M p [] e = e"
| "pokes M p (c # cs) e = pokes M (p + 1) cs (mem_poke M p c e)"

definition readHost :: "'e Process \<Rightarrow> addr \<Rightarrow> size_t \<Rightarrow> ('e app, string) state" where
  "readHost R p sz = liftS (liftEnv (State (\<lambda>e. (peeks (pr_memory R) p (unat sz) e, e))))"

definition onHost :: "('e \<Rightarrow> 'e) \<Rightarrow> ('e app, unit) state" where
  "onHost f = liftS (liftEnv (State (\<lambda>e. ((), f e))))"

subsection \<open>Helpers\<close>

definition IsDevicePointer :: "'e Process \<Rightarrow> addr \<Rightarrow> ('e app, bool) state" where
  "IsDevicePointer R p = do {
     (err, type) \<leftarrow> liftS (liftEnv (hip_pointerGetAttributes (hip (pr_platform R)) p));
     if err \<noteq> hipSuccess then do {
       _ \<leftarrow> liftS (liftEnv (pr_hipGetLastError R));
       State_Monad.return False
     }
     else State_Monad.return (type = hipMemoryTypeDevice)
   }"

definition DescribeFailure :: "RdmaResult \<Rightarrow> string" where
  "DescribeFailure result =
     (case rdma_status result of
        RdmaNotSupported \<Rightarrow> ''not supported''
      | RdmaFailed \<Rightarrow> ''error''
      | RdmaOk \<Rightarrow> ''no bytes transferred'')"

definition errorResponse :: "string \<Rightarrow> ObjectResponse" where
  "errorResponse text = \<lparr>resp_error = Some text, resp_etag = [], resp_rest = []\<rparr>"

definition RdmaResponse :: "string \<Rightarrow> ObjectResponse" where
  "RdmaResponse etag = \<lparr>resp_error = None, resp_etag = etag, resp_rest = []\<rparr>"

subsection \<open>\<^verbatim>\<open>HipObjRuntime\<close>\<close>

definition runtimeKey :: "BaseUrl \<Rightarrow> string" where
  "runtimeKey base_url = base_host base_url @ '':'' @ base_region base_url"

definition setRuntime :: "(HipObjRuntime \<Rightarrow> HipObjRuntime) \<Rightarrow> ('e app, unit) state" where
  "setRuntime f = State (\<lambda>a. ((), a\<lparr>runtime := f (runtime a)\<rparr>))"

definition getRuntime :: "('e app, HipObjRuntime) state" where
  "getRuntime = State (\<lambda>a. (runtime a, a))"

text \<open>The configuration, from the URL and \<^verbatim>\<open>HIPOBJ_NIC_HINT\<close>.\<close>

definition nicHintOf :: "EnvLookup \<Rightarrow> string option" where
  "nicHintOf getenv = (let hint = lookupValue getenv ''HIPOBJ_NIC_HINT'' in if hint \<noteq> [] then Some hint else None)"

definition endpointOf :: "BaseUrl \<Rightarrow> string" where
  "endpointOf base_url = (if base_https base_url then ''https://'' else ''http://'') @ base_host base_url"

definition runtimeConfig :: "EnvLookup \<Rightarrow> BaseUrl \<Rightarrow> hipObjConfig_t" where
  "runtimeConfig getenv base_url =
    \<lparr>endpoint = Some (endpointOf base_url), region = Some (base_region base_url), accessKey = None, secretKey = None,
     config_flags = 0, config_gpuDevice = -1, config_nicHint = nicHintOf getenv\<rparr>"

definition EnsureInit :: "'e Process \<Rightarrow> BaseUrl \<Rightarrow> ('e app, hipObjError_t outcome) state" where
  "EnsureInit R base_url = do {
     rt \<leftarrow> getRuntime;
     let key = runtimeKey base_url;
     if rt_initialized rt \<and> key = rt_active_key rt then State_Monad.return (Return (mkError hipObjSuccess))
     else bindO
       (if rt_initialized rt
        then bindO (liftS (hipObjShutdown (pr_platform R))) (\<lambda>_. liftO (setRuntime (\<lambda>r. r\<lparr>rt_initialized := False\<rparr>)))
        else State_Monad.return (Return ())) (\<lambda>_.
       bindO (liftO (setRuntime (\<lambda>r. r\<lparr>rt_endpoint_storage := endpointOf base_url,
           rt_nic_hint_storage := (case nicHintOf (pr_getenv R) of None \<Rightarrow> rt_nic_hint_storage r | Some h \<Rightarrow> h)\<rparr>))) (\<lambda>_.
       bindO (liftS (hipObjInit (pr_system R) (pr_getenv R) (Some (runtimeConfig (pr_getenv R) base_url)))) (\<lambda>err.
         if opError err = hipObjSuccess
         then bindO (liftO (setRuntime (\<lambda>r. r\<lparr>rt_initialized := True, rt_active_key := key\<rparr>))) (\<lambda>_.
           State_Monad.return (Return err))
         else State_Monad.return (Return err))))
   }"

definition IsReady :: "('e app, bool) state" where
  "IsReady = do { rt \<leftarrow> getRuntime; State_Monad.return (rt_initialized rt) }"

definition RdmaAvailable :: "('e app, bool) state" where
  "RdmaAvailable = IsReady"

subsection \<open>Transfers\<close>

text \<open>\<^verbatim>\<open>BufDeregisterer\<close>, and the scope in which it owns the registration that was made here.\<close>

definition BufDeregisterer :: "'e Process \<Rightarrow> addr \<Rightarrow> ('e app, unit) state" where
  "BufDeregisterer R p = do { _ \<leftarrow> liftS (hipObjBufDeregister (pr_platform R) p); State_Monad.return () }"

definition withRegistration ::
  "'e Process \<Rightarrow> addr \<Rightarrow> size_t \<Rightarrow> ('e app, ObjectResponse outcome) state \<Rightarrow> ('e app, ObjectResponse outcome) state" where
  "withRegistration R p sz body =
     bindO (liftS (hipObjBufRegister (pr_platform R) p sz)) (\<lambda>reg_err.
       if opError reg_err \<noteq> hipObjSuccess \<and> opError reg_err \<noteq> hipObjBufAlreadyRegistered
       then State_Monad.return (Return (errorResponse
         (''hipObjBufRegister failed: '' @ hipObjGetErrorString (opError reg_err))))
       else finallyO body
         (if opError reg_err = hipObjSuccess then BufDeregisterer R p else State_Monad.return ()))"

definition withRegion ::
  "'e MinioClient \<Rightarrow> string \<Rightarrow> string \<Rightarrow> (string \<Rightarrow> ('e app, ObjectResponse outcome) state) \<Rightarrow>
   ('e app, ObjectResponse outcome) state" where
  "withRegion C bucket reg f =
     bindO (liftS (orThrow (mc_getRegion C bucket reg))) (\<lambda>resp.
       case resp of
         Inl err \<Rightarrow> State_Monad.return (Return (errorResponse err))
       | Inr reg' \<Rightarrow> f reg')"

definition rdmaContext :: "BaseUrl \<Rightarrow> string \<Rightarrow> string \<Rightarrow> string \<Rightarrow> S3RdmaContext" where
  "rdmaContext base_url bucket obj reg =
    \<lparr>ctx_bucket = bucket, ctx_object = obj, ctx_url = base_url, ctx_region = reg, uploadId = [], partNumber = 0,
     ctx_checksum = [], ctx_etag = []\<rparr>"

definition httpPutArgs :: "PutObjectArgs \<Rightarrow> string \<Rightarrow> size_t \<Rightarrow> PutObjectArgs" where
  "httpPutArgs args content sz =
     args\<lparr>arg_stream := Some content, arg_buf := nullptr, arg_size := None, object_size := uint sz, part_size := 0\<rparr>"

definition httpGetArgs :: "GetObjectArgs \<Rightarrow> GetObjectArgs" where
  "httpGetArgs args = args\<lparr>datafunc := ChunkFunction, arg_buf := nullptr, arg_size := None\<rparr>"

text \<open>\<^verbatim>\<open>PutObject\<close> from the RDMA transfer on.\<close>

definition putByRdma ::
  "'e Process \<Rightarrow> 'e MinioClient \<Rightarrow> BaseUrl \<Rightarrow> PutObjectArgs \<Rightarrow> size_t \<Rightarrow> string \<Rightarrow> ('e app, ObjectResponse outcome) state" where
  "putByRdma R C base_url args sz reg =
     bindO (liftS (rdmaPutWithRetry (mc_http C) (pr_fuel R) (pr_platform R)
         (rdmaContext base_url (arg_bucket args) (arg_object args) reg) (arg_buf args) sz)) (\<lambda>(ret, put_ctx).
       if rdma_status ret = RdmaOk \<and> rdma_bytes ret > 0
       then bindO (liftO (countTransfer (CountRdmaPut (rdma_bytes ret)))) (\<lambda>_.
         State_Monad.return (Return (RdmaResponse (ctx_etag put_ctx))))
       else bindO (liftO (IsDevicePointer R (arg_buf args))) (\<lambda>dev.
         if dev then State_Monad.return (Return (errorResponse (''RDMA PUT failed ('' @ DescribeFailure ret @
           '') and the payload is device memory; no HTTP fallback is possible'')))
         else bindO (liftO (countTransfer (CountHttpPut sz))) (\<lambda>_.
           bindO (liftO (readHost R (arg_buf args) sz)) (\<lambda>content.
           liftS (orThrow (mc_putObject C (httpPutArgs args (pr_pubsetbuf R content) sz)))))))"

definition PutObject ::
  "'e Process \<Rightarrow> 'e MinioClient \<Rightarrow> BaseUrl \<Rightarrow> PutObjectArgs \<Rightarrow> ('e app, ObjectResponse outcome) state" where
  "PutObject R C base_url args0 =
     (case mc_validatePut C args0 of
        (Some err, args) \<Rightarrow> State_Monad.return (Return (errorResponse err))
      | (None, args) \<Rightarrow>
          if arg_buf args = nullptr then liftS (orThrow (mc_putObject C args))
          else case arg_size args of
            None \<Rightarrow> State_Monad.return (Return (errorResponse ''size must be set when buf is set''))
          | Some sz \<Rightarrow>
              if uint sz > pr_longMax R then State_Monad.return (Return (errorResponse ''object size is too large''))
              else bindO (EnsureInit R base_url) (\<lambda>init_err.
                if opError init_err \<noteq> hipObjSuccess
                then bindO (liftO (readHost R (arg_buf args) sz)) (\<lambda>content.
                  bindO (liftO (countTransfer (CountHttpPut sz))) (\<lambda>_.
                  liftS (orThrow (mc_putObject C (httpPutArgs args content sz)))))
                else withRegistration R (arg_buf args) sz (withRegion C (arg_bucket args) (arg_region args)
                  (putByRdma R C base_url args sz))))"

text \<open>What the data function of the fallback does with the chunks that it gets.\<close>

fun copyChunks :: "'e HostMemory \<Rightarrow> addr \<Rightarrow> nat \<Rightarrow> nat \<Rightarrow> string list \<Rightarrow> 'e \<Rightarrow> 'e" where
  "copyChunks M p sz offset [] e = e"
| "copyChunks M p sz offset (chunk # chunks) e =
     (let data = take (sz - offset) chunk
      in copyChunks M p sz (offset + length data) chunks (pokes M (p + of_nat offset) data e))"

definition HttpGetIntoBuffer ::
  "'e Process \<Rightarrow> 'e MinioClient \<Rightarrow> GetObjectArgs \<Rightarrow> size_t \<Rightarrow> ('e app, ObjectResponse outcome) state" where
  "HttpGetIntoBuffer R C args sz =
     (if unat sz > pr_stringMax R then State_Monad.return Throw
      else bindO (liftO (liftS (liftEnv (mc_getObject C (httpGetArgs args))))) (\<lambda>(chunks, resp).
        case resp of
          None \<Rightarrow> State_Monad.return Throw
        | Some r \<Rightarrow>
            bindO (if resp_error r = None then liftO (onHost (pokes (pr_memory R) (arg_buf args) (take (unat sz) (concat chunks))))
                   else State_Monad.return (Return ())) (\<lambda>_.
            bindO (liftO (countTransfer (CountHttpGet sz))) (\<lambda>_.
            State_Monad.return (Return r)))))"

text \<open>\<^verbatim>\<open>GetObject\<close> from the RDMA transfer on.\<close>

definition getByRdma ::
  "'e Process \<Rightarrow> 'e MinioClient \<Rightarrow> BaseUrl \<Rightarrow> GetObjectArgs \<Rightarrow> size_t \<Rightarrow> string \<Rightarrow> ('e app, ObjectResponse outcome) state" where
  "getByRdma R C base_url args sz reg =
     bindO (liftS (rdmaGetWithRetry (mc_http C) (pr_fuel R) (pr_platform R)
         (rdmaContext base_url (arg_bucket args) (arg_object args) reg) (arg_buf args) sz)) (\<lambda>(ret, get_ctx).
       if rdma_status ret = RdmaOk \<and> rdma_bytes ret > 0
       then bindO (liftO (countTransfer (CountRdmaGet (rdma_bytes ret)))) (\<lambda>_.
         State_Monad.return (Return (RdmaResponse (ctx_etag get_ctx))))
       else bindO (liftO (IsDevicePointer R (arg_buf args))) (\<lambda>dev.
         if dev then State_Monad.return (Return (errorResponse (''RDMA GET failed ('' @ DescribeFailure ret @
           '') and the destination is device memory; no HTTP fallback is possible'')))
         else bindO (liftO (countTransfer (CountHttpGet sz))) (\<lambda>_.
           bindO (liftO (liftS (liftEnv (mc_getObject C (httpGetArgs args))))) (\<lambda>(chunks, resp).
           bindO (liftO (onHost (copyChunks (pr_memory R) (arg_buf args) (unat sz) 0 chunks))) (\<lambda>_.
           State_Monad.return (case resp of None \<Rightarrow> Throw | Some r \<Rightarrow> Return r))))))"

definition GetObject ::
  "'e Process \<Rightarrow> 'e MinioClient \<Rightarrow> BaseUrl \<Rightarrow> GetObjectArgs \<Rightarrow> ('e app, ObjectResponse outcome) state" where
  "GetObject R C base_url args0 =
     (case mc_validateGet C args0 of
        (Some err, args) \<Rightarrow> State_Monad.return (Return (errorResponse err))
      | (None, args) \<Rightarrow>
          if arg_buf args = nullptr
          then bindO (liftO (liftS (liftEnv (mc_getObject C args)))) (\<lambda>(_, resp).
            State_Monad.return (case resp of None \<Rightarrow> Throw | Some r \<Rightarrow> Return r))
          else case arg_size args of
            None \<Rightarrow> State_Monad.return (Return (errorResponse ''size must be set when buf is set''))
          | Some sz \<Rightarrow>
              bindO (EnsureInit R base_url) (\<lambda>init_err.
                if opError init_err \<noteq> hipObjSuccess then HttpGetIntoBuffer R C args sz
                else withRegistration R (arg_buf args) sz (withRegion C (arg_bucket args) (arg_region args)
                  (getByRdma R C base_url args sz))))"

subsection \<open>Relations that calls obey\<close>

text \<open>
  \<open>obeys R m\<close>: a call of \<open>m\<close> that comes back leaves a state related to the one it started from. For a relation
  that is reflexive and transitive this goes through sequences and scopes.
\<close>

definition obeys :: "('s \<Rightarrow> 's \<Rightarrow> bool) \<Rightarrow> ('s, 'a outcome) state \<Rightarrow> bool" where
  "obeys R m \<longleftrightarrow> (\<forall>s. wp m (\<lambda>r s'. ends r \<longrightarrow> R s s') s)"

lemma obeysD: "obeys R m \<Longrightarrow> wp m (\<lambda>r s'. ends r \<longrightarrow> R s s') s"
  by (simp add: obeys_def)

locale call_relation =
  fixes Rel :: "'s \<Rightarrow> 's \<Rightarrow> bool"
  assumes rel_refl: "Rel s s" and rel_trans: "Rel s t \<Longrightarrow> Rel t u \<Longrightarrow> Rel s u"
begin

lemma obeys_return: "obeys Rel (State_Monad.return r)"
  by (simp add: obeys_def rel_refl)

lemma obeys_bindO:
  fixes m :: "('s, 'a outcome) state"
  assumes "obeys Rel m" "\<And>a. obeys Rel (f a)"
  shows "obeys Rel (bindO m f)"
  unfolding obeys_def
proof
  fix s
  show "wp (bindO m f) (\<lambda>r s'. ends r \<longrightarrow> Rel s s') s"
  proof (rule wp_bindO [OF obeysD [OF assms(1)]])
    fix a :: 'a and s' assume "ends (Return a) \<longrightarrow> Rel s s'"
    then have "Rel s s'" by simp
    then show "wp (f a) (\<lambda>r t. ends r \<longrightarrow> Rel s t) s'"
      by (intro wp_conseq [OF obeysD [OF assms(2)]]) (auto intro: rel_trans)
  qed simp_all
qed

lemma obeys_finallyO:
  assumes "obeys Rel m" "obeys Rel (liftO cleanup)"
  shows "obeys Rel (finallyO m cleanup)"
  unfolding obeys_def
proof
  fix s
  have step: "wp cleanup (\<lambda>_ t. Rel s' t) s'" for s'
    using obeysD [OF assms(2), of s'] by simp
  show "wp (finallyO m cleanup) (\<lambda>r s'. ends r \<longrightarrow> Rel s s') s"
    by (rule wp_finallyO [OF obeysD [OF assms(1)]]) (auto intro!: wp_conseq [OF step] intro: rel_trans)
qed

lemmas obeys_rules = obeys_return obeys_bindO obeys_finallyO

end

text \<open>
  What a call leaves alone is such a relation. So is what the client's calls keep, provided that the
  platform's topology is one the library can rely on: the library's invariant, the tokens, all of which are given
  back, and that when the runtime says that it initialized the library, the library has an instance.
\<close>

interpretation same: call_relation "\<lambda>s s'. part s' = part s" for part :: "'s \<Rightarrow> 'b"
  by unfold_locales simp_all

definition runtime_ok :: "'e app \<Rightarrow> bool" where
  "runtime_ok a \<longleftrightarrow> (rt_initialized (runtime a) \<longrightarrow> current (app_sys a) \<noteq> None)"

definition client_inv :: "holds \<Rightarrow> 'e app \<Rightarrow> bool" where
  "client_inv H a \<longleftrightarrow> sys_inv H (app_sys a) \<and> runtime_ok a"

definition system_ok :: "'e Process \<Rightarrow> bool" where
  "system_ok R \<longleftrightarrow> (case pr_system R of None \<Rightarrow> True | Some P \<Rightarrow> topology_ok (topology P))"

definition given_back :: "'e sys \<Rightarrow> 'e sys \<Rightarrow> bool" where
  "given_back s s' \<longleftrightarrow> (\<exists>k. tokens s' = tokens s @ replicate k None)"

lemma given_back_same: "tokens s' = tokens s \<Longrightarrow> given_back s s'"
  unfolding given_back_def by (rule exI [of _ 0]) simp

lemma given_back_trans: "given_back s t \<Longrightarrow> given_back t u \<Longrightarrow> given_back s u"
  by (auto simp: given_back_def replicate_add [symmetric])

definition client_kept :: "'e Process \<Rightarrow> holds \<Rightarrow> 'e app \<Rightarrow> 'e app \<Rightarrow> bool" where
  "client_kept R H a a' \<longleftrightarrow> (system_ok R \<and> client_inv H a \<longrightarrow>
     client_inv H a' \<and> leasesHeld (app_sys a') = leasesHeld (app_sys a) \<and> given_back (app_sys a) (app_sys a'))"

interpretation kept: call_relation "client_kept R H" for R H
  by unfold_locales (auto simp: client_kept_def given_back_same intro: given_back_trans)

text \<open>A call of the library, and the steps that do not touch it.\<close>

lemma wp_liftS [simp]: "wp (liftS m) Q a \<longleftrightarrow> wp m (\<lambda>r s. Q r (a\<lparr>app_sys := s\<rparr>)) (app_sys a)"
  by (simp add: liftS_def wp_def split: prod.splits)

lemma wp_steps [simp]:
  "wp (countTransfer f) Q a \<longleftrightarrow> Q () (a\<lparr>stats := f (stats a)\<rparr>)"
  "wp (setRuntime g) Q' a \<longleftrightarrow> Q' () (a\<lparr>runtime := g (runtime a)\<rparr>)"
  "wp getRuntime Q'' a \<longleftrightarrow> Q'' (runtime a) a"
  by (simp_all add: countTransfer_def setRuntime_def getRuntime_def wp_def)

lemma wp_liftEnv: "(\<And>r e. Q r (s\<lparr>sys_world := (sys_world s)\<lparr>env := e\<rparr>\<rparr>)) \<Longrightarrow> wp (liftEnv m) Q s"
  by (simp add: liftEnv_def liftE_def liftW_def wp_def split: prod.splits)

lemma client_call:
  fixes m :: "('e sys, 'b outcome) state"
  assumes "call_ok m" "leaves current m" "\<And>s. wp m (\<lambda>r s'. ends r \<longrightarrow> given_back s s') s"
  shows "obeys (client_kept R H) (liftS m)"
  unfolding obeys_def client_kept_def
proof (simp, intro allI)
  fix a :: "'e app"
  show "wp m (\<lambda>r s. ends r \<longrightarrow> system_ok R \<and> client_inv H a \<longrightarrow> client_inv H (a\<lparr>app_sys := s\<rparr>) \<and>
    leasesHeld s = leasesHeld (app_sys a) \<and> given_back (app_sys a) s) (app_sys a)"
  proof (cases "client_inv H a")
    case True
    then have "wp m (\<lambda>r s. (kept H (app_sys a) r s \<and> current s = current (app_sys a)) \<and>
        (ends r \<longrightarrow> given_back (app_sys a) s)) (app_sys a)"
      by (intro wp_conj keepsD [OF assms(1)] leavesD [OF assms(2)] assms(3)) (simp_all add: client_inv_def)
    then show ?thesis
      using True by (auto simp: client_inv_def runtime_ok_def kept_def elim!: wp_conseq)
  qed (simp add: wp_def)
qed

lemma client_call_tokens_kept:
  assumes "call_ok m" "leaves current m" "tokens_kept m"
  shows "obeys (client_kept R H) (liftS m)"
  by (rule client_call [OF assms(1,2)]) (rule wp_conseq [OF leavesD [OF assms(3) refl]], simp add: given_back_same)

text \<open>Deregistering a buffer always comes back.\<close>

definition comes_back :: "('s, 'a outcome) state \<Rightarrow> bool" where
  "comes_back m \<longleftrightarrow> (\<forall>s. wp m (\<lambda>r _. ends r) s)"

lemma comes_backD: "comes_back m \<Longrightarrow> wp m (\<lambda>r _. ends r) s"
  by (simp add: comes_back_def)

lemma comes_back_bindO:
  assumes "comes_back m" "\<And>a. comes_back (f a)"
  shows "comes_back (bindO m f)"
  unfolding comes_back_def
  by (intro allI wp_bindO [OF comes_backD [OF assms(1)]]) (use comes_backD [OF assms(2)] in auto)

lemma comes_back_finallyO:
  assumes "comes_back m"
  shows "comes_back (finallyO m cleanup)"
  unfolding comes_back_def by (intro allI wp_finallyO [OF comes_backD [OF assms]]) (auto simp: wp_def)

lemma comes_back_catchO:
  assumes "comes_back m"
  shows "comes_back (catchO m a)"
  unfolding comes_back_def by (intro allI wp_catchO [OF comes_backD [OF assms]]) auto

lemma comes_back_lift: "comes_back (liftO m)" "ends r \<Longrightarrow> comes_back (State_Monad.return r)"
  by (simp_all add: comes_back_def) (simp add: wp_def)

lemma deregister_comes_back: "comes_back (hipObjBufDeregister P p)"
  unfolding hipObjBufDeregister_def withInstance_def
proof (rule comes_back_catchO, unfold comes_back_def, intro allI wp_bindI [where P = "\<lambda>_ _. True"], goal_cases)
  case (2 s i s')
  show ?case
    by (cases i) (auto intro!: comes_backD comes_back_finallyO comes_back_bindO comes_back_lift)
qed (simp add: wp_def)

lemma obeys_BufDeregisterer:
  assumes "obeys Rel (liftS (hipObjBufDeregister (pr_platform R) p))"
  shows "obeys Rel (liftO (BufDeregisterer R p))"
  unfolding obeys_def BufDeregisterer_def
proof
  fix a
  have "wp (hipObjBufDeregister (pr_platform R) p) (\<lambda>r s. (ends r \<longrightarrow> Rel a (a\<lparr>app_sys := s\<rparr>)) \<and> ends r) (app_sys a)"
    using obeysD [OF assms, of a] by (intro wp_conj comes_backD deregister_comes_back) simp
  then show "wp (liftO (do { _ \<leftarrow> liftS (hipObjBufDeregister (pr_platform R) p); State_Monad.return () }))
      (\<lambda>r a'. ends r \<longrightarrow> Rel a a') a"
    by simp (erule wp_conseq, simp)
qed

text \<open>
  A relation that the client's calls obey when the steps they are made of do: counting, whatever the
  environment does, and the calls of the library.
\<close>

locale client_relation = call_relation Rel for Rel :: "'e app \<Rightarrow> 'e app \<Rightarrow> bool" +
  fixes R :: "'e Process"
  assumes rel_count: "Rel a (a\<lparr>stats := t\<rparr>)"
    and rel_env: "Rel a (a\<lparr>app_sys := (app_sys a)\<lparr>sys_world := (sys_world (app_sys a))\<lparr>env := e\<rparr>\<rparr>\<rparr>)"
    and rel_init: "obeys Rel (EnsureInit R url)"
    and rel_register: "obeys Rel (liftS (hipObjBufRegister (pr_platform R) p sz))"
    and rel_deregister: "obeys Rel (liftO (BufDeregisterer R p))"
    and rel_put: "obeys Rel (liftS (rdmaPutWithRetry M (pr_fuel R) (pr_platform R) ctx p sz))"
    and rel_get: "obeys Rel (liftS (rdmaGetWithRetry M (pr_fuel R) (pr_platform R) ctx p sz))"
begin

lemma obeys_count: "obeys Rel (liftO (countTransfer f))"
  by (simp add: obeys_def rel_count)

lemma obeys_env: "obeys Rel (liftO (liftS (liftEnv m)))"
  unfolding obeys_def by (simp, intro allI wp_liftEnv rel_env)

lemma obeys_orThrow: "obeys Rel (liftS (orThrow m))"
  unfolding obeys_def orThrow_def
  by (simp, intro allI wp_liftEnv) (auto simp: rel_env)

lemma obeys_host: "obeys Rel (liftO (readHost R p sz))" "obeys Rel (liftO (onHost f))"
  unfolding readHost_def onHost_def by (rule obeys_env)+

lemma obeys_IsDevicePointer: "obeys Rel (liftO (IsDevicePointer R p))"
proof -
  have env2: "Rel a (a\<lparr>app_sys := (app_sys a)\<lparr>sys_world := w\<rparr>\<rparr>)"
    if "w = (sys_world (app_sys a))\<lparr>env := e\<rparr>" for a w e
    using rel_env [of a e] that by simp
  show ?thesis
    unfolding obeys_def IsDevicePointer_def
    by (auto simp: split_beta intro!: wp_liftEnv env2 [where e = e for e])
qed

lemma obeys_nothing: "obeys Rel (liftO (State_Monad.return x))"
  by (simp add: obeys_def rel_refl)

lemmas obeys_steps = obeys_rules obeys_count obeys_env obeys_orThrow obeys_host obeys_IsDevicePointer
  obeys_nothing rel_deregister rel_init rel_register rel_put rel_get

lemma obeys_withRegistration:
  assumes "obeys Rel body"
  shows "obeys Rel (withRegistration R p sz body)"
  unfolding withRegistration_def using assms by (auto intro!: obeys_steps)

lemma obeys_withRegion:
  assumes "\<And>reg. obeys Rel (f reg)"
  shows "obeys Rel (withRegion C bucket reg f)"
  unfolding withRegion_def using assms by (auto intro!: obeys_steps split: sum.splits)

lemma obeys_PutObject: "obeys Rel (PutObject R C url args)"
  unfolding PutObject_def putByRdma_def
  by (auto intro!: obeys_withRegistration obeys_withRegion obeys_steps split: prod.splits option.splits)

lemma obeys_HttpGetIntoBuffer: "obeys Rel (HttpGetIntoBuffer R C args sz)"
  unfolding HttpGetIntoBuffer_def by (auto intro!: obeys_steps split: prod.splits option.splits)

lemma obeys_GetObject: "obeys Rel (GetObject R C url args)"
  unfolding GetObject_def getByRdma_def
  by (auto intro!: obeys_withRegistration obeys_withRegion obeys_HttpGetIntoBuffer obeys_steps
      split: prod.splits option.splits)

end

subsection \<open>The client and the library\<close>

lemma wp_hipObjShutdown:
  assumes "sys_inv H s"
  shows "wp (hipObjShutdown P) (\<lambda>r s'. r = Return (mkError hipObjSuccess) \<and> sys_inv H s' \<and> current s' = None \<and>
    leasesHeld s' = leasesHeld s \<and> tokens s' = tokens s) s"
  unfolding hipObjShutdown_def
  by (rule wp_catchO, rule wp_bindI [OF wp_shutdownInstance [OF assms]]) auto

lemma wp_hipObjInit:
  assumes "sys_inv H s" "\<forall>P. system = Some P \<longrightarrow> topology_ok (topology P)"
  shows "wp (hipObjInit system getenv config) (\<lambda>r s'. \<exists>err. r = Return err \<and> sys_inv H s' \<and> leasesHeld s' = leasesHeld s \<and>
    tokens s' = tokens s \<and> (opError err = hipObjSuccess \<longrightarrow> current s' \<noteq> None)) s"
  unfolding hipObjInit_def
  by (rule wp_catchO [where P = "\<lambda>r s'. \<exists>err. r = Return err \<and> sys_inv H s' \<and> leasesHeld s' = leasesHeld s \<and>
        tokens s' = tokens s \<and> (opError err = hipObjSuccess \<longrightarrow> current s' \<noteq> None)"])
     (use assms in \<open>auto simp: isInitialized_def initialized_def intro!: wp_conseq [OF wp_initWith]
        split: option.splits if_splits\<close>)

text \<open>What \<^verbatim>\<open>EnsureInit\<close> leaves behind.\<close>

definition ensured :: "BaseUrl \<Rightarrow> holds \<Rightarrow> 'e app \<Rightarrow> hipObjError_t outcome \<Rightarrow> 'e app \<Rightarrow> bool" where
  "ensured url H a r a' \<longleftrightarrow> (\<exists>err. r = Return err \<and> client_inv H a' \<and>
     leasesHeld (app_sys a') = leasesHeld (app_sys a) \<and> tokens (app_sys a') = tokens (app_sys a) \<and> stats a' = stats a \<and>
     rt_initialized (runtime a') = (opError err = hipObjSuccess) \<and>
     (opError err = hipObjSuccess \<longrightarrow> rt_active_key (runtime a') = runtimeKey url))"

text \<open>The two halves: the library is shut down if the runtime had initialized it, and initialized anew.\<close>

definition shut_down :: "holds \<Rightarrow> 'e app \<Rightarrow> 'e app \<Rightarrow> bool" where
  "shut_down H a a1 \<longleftrightarrow> sys_inv H (app_sys a1) \<and> leasesHeld (app_sys a1) = leasesHeld (app_sys a) \<and>
    tokens (app_sys a1) = tokens (app_sys a) \<and> stats a1 = stats a \<and> \<not> rt_initialized (runtime a1)"

lemma wp_runtime_down:
  assumes "client_inv H a"
  shows "wp (if rt_initialized (runtime a)
        then bindO (liftS (hipObjShutdown (pr_platform R))) (\<lambda>_. liftO (setRuntime (\<lambda>r. r\<lparr>rt_initialized := False\<rparr>)))
        else State_Monad.return (Return ())) (\<lambda>r a1. r = Return () \<and> shut_down H a a1) a"
proof (cases "rt_initialized (runtime a)")
  case True
  have "wp (liftS (hipObjShutdown (pr_platform R))) (\<lambda>r a1. r = Return (mkError hipObjSuccess) \<and>
      sys_inv H (app_sys a1) \<and> leasesHeld (app_sys a1) = leasesHeld (app_sys a) \<and>
      tokens (app_sys a1) = tokens (app_sys a) \<and> stats a1 = stats a) a"
    using assms by (auto simp: client_inv_def intro: wp_conseq [OF wp_hipObjShutdown])
  then show ?thesis
    unfolding if_P [OF True] by (rule wp_bindO) (auto simp: shut_down_def)
qed (use assms in \<open>simp add: client_inv_def shut_down_def\<close>)

lemma wp_runtime_up:
  assumes "shut_down H a a1" "system_ok R"
  shows "wp (bindO (liftS (hipObjInit (pr_system R) (pr_getenv R) config)) (\<lambda>err.
         if opError err = hipObjSuccess
         then bindO (liftO (setRuntime (\<lambda>r. r\<lparr>rt_initialized := True, rt_active_key := runtimeKey url\<rparr>))) (\<lambda>_.
           State_Monad.return (Return err))
         else State_Monad.return (Return err))) (ensured url H a) a1"
proof (rule wp_bindO [where P = "\<lambda>r a2. \<exists>err. r = Return err \<and> sys_inv H (app_sys a2) \<and>
      leasesHeld (app_sys a2) = leasesHeld (app_sys a) \<and> tokens (app_sys a2) = tokens (app_sys a) \<and> stats a2 = stats a \<and>
      runtime a2 = runtime a1 \<and> (opError err = hipObjSuccess \<longrightarrow> current (app_sys a2) \<noteq> None)"], goal_cases)
  case 1
  have "\<forall>P. pr_system R = Some P \<longrightarrow> topology_ok (topology P)"
    using assms(2) by (simp add: system_ok_def split: option.splits)
  with assms show ?case
    using wp_hipObjInit [of H "app_sys a1" "pr_system R"] by (auto simp: shut_down_def elim!: wp_conseq)
next
  case (2 err a2)
  with assms show ?case
    by (auto simp: ensured_def client_inv_def runtime_ok_def shut_down_def bindO_def)
qed simp_all

lemma wp_EnsureInit:
  assumes "client_inv H a" "system_ok R"
  shows "wp (EnsureInit R url) (ensured url H a) a"
  unfolding EnsureInit_def Let_def
proof (rule wp_bindI [where P = "\<lambda>rt a1. rt = runtime a \<and> a1 = a"], goal_cases)
  case (2 rt a1)
  have store: "wp (bindO (liftO (setRuntime (\<lambda>r. r\<lparr>rt_endpoint_storage := e, rt_nic_hint_storage := h r\<rparr>))) (\<lambda>_. m))
      (ensured url H a) a2"
    if "shut_down H a a2" "\<And>a3. shut_down H a a3 \<Longrightarrow> wp m (ensured url H a) a3" for e h m a2
    by (rule wp_bindO [where P = "\<lambda>r a3. r = Return () \<and> shut_down H a a3"]) (use that in \<open>auto simp: shut_down_def\<close>)
  show ?case
  proof (cases "rt_initialized (runtime a) \<and> runtimeKey url = rt_active_key (runtime a)")
    case True
    with 2 assms(1) show ?thesis
      by (simp add: ensured_def)
  next
    case False
    have "wp (bindO (if rt_initialized (runtime a)
        then bindO (liftS (hipObjShutdown (pr_platform R))) (\<lambda>_. liftO (setRuntime (\<lambda>r. r\<lparr>rt_initialized := False\<rparr>)))
        else State_Monad.return (Return ())) m) (ensured url H a) a"
      if "\<And>a2. shut_down H a a2 \<Longrightarrow> wp (m ()) (ensured url H a) a2" for m
      by (rule wp_bindO [OF wp_runtime_down [OF assms(1)]]) (auto intro: that)
    note down = this
    show ?thesis
      unfolding conjunct1 [OF 2] conjunct2 [OF 2] if_not_P [OF False]
      by (rule down, rule store, assumption, rule wp_runtime_up [OF _ assms(2)])
  qed
qed simp

interpretation client: client_relation "client_kept R H" R for R H
proof unfold_locales
  fix a :: "'e app" and R :: "'e Process" and H t e
  show "client_kept R H a (a\<lparr>stats := t\<rparr>)"
    by (simp add: client_kept_def client_inv_def runtime_ok_def given_back_same)
  show "client_kept R H a (a\<lparr>app_sys := (app_sys a)\<lparr>sys_world := (sys_world (app_sys a))\<lparr>env := e\<rparr>\<rparr>\<rparr>)"
    by (simp add: client_kept_def client_inv_def runtime_ok_def given_back_same sys_inv_world qps_same_def)
next
  fix R :: "'e Process" and H url
  have "wp (EnsureInit R url) (\<lambda>r a'. ends r \<longrightarrow> client_kept R H a a') a" for a
  proof (cases "client_inv H a \<and> system_ok R")
    case True
    then show ?thesis
      by (auto simp: client_kept_def ensured_def given_back_same intro!: wp_conseq [OF wp_EnsureInit])
  qed (auto simp: client_kept_def wp_def)
  then show "obeys (client_kept R H) (EnsureInit R url)"
    by (simp add: obeys_def)
next
  fix R :: "'e Process" and H p sz M ctx
  show "obeys (client_kept R H) (liftS (hipObjBufRegister (pr_platform R) p sz))"
    by (intro client_call_tokens_kept keeps_registration cur.leaves_register tk.leaves_register)
  show "obeys (client_kept R H) (liftO (BufDeregisterer R p))"
    by (intro obeys_BufDeregisterer client_call_tokens_kept keeps_registration cur.leaves_register tk.leaves_register)
  have freed: "wp m (\<lambda>r s'. ends r \<longrightarrow> given_back s s') s"
    if "wp m (released 2 (tokens s)) s" for m :: "('e sys, (RdmaResult \<times> S3RdmaContext) outcome) state" and s
    using that by (auto simp: released_def given_back_def elim!: wp_conseq)
  show "obeys (client_kept R H) (liftS (rdmaPutWithRetry M (pr_fuel R) (pr_platform R) ctx p sz))"
    by (intro client_call keeps_retries current_retries freed retries_released)
  show "obeys (client_kept R H) (liftS (rdmaGetWithRetry M (pr_fuel R) (pr_platform R) ctx p sz))"
    by (intro client_call keeps_retries current_retries freed retries_released)
qed

subsection \<open>Counting\<close>

text \<open>
  \<open>settles K m t\<close>: from counters \<open>t\<close>, the outcome of \<open>m\<close> and the counters that it leaves satisfy \<open>K\<close>. Only counting
  changes the counters.
\<close>

definition settles :: "('a outcome \<Rightarrow> TransferStats \<Rightarrow> bool) \<Rightarrow> ('e app, 'a outcome) state \<Rightarrow> TransferStats \<Rightarrow> bool" where
  "settles K m t \<longleftrightarrow> (\<forall>a. stats a = t \<longrightarrow> wp m (\<lambda>r a'. K r (stats a')) a)"

lemma stats_liftS: "leaves stats (liftS m)"
  by (simp add: leaves_def wp_def split: prod.splits) (auto simp: liftS_def split: prod.splits)

lemma stats_steps:
  "leaves stats (setRuntime f)" "leaves stats getRuntime" "leaves stats (readHost R p sz)" "leaves stats (onHost g)"
  by (simp_all add: leaves_def readHost_def onHost_def) (simp_all add: wp_def)

lemma stats_EnsureInit: "leaves stats (EnsureInit R url)"
  unfolding EnsureInit_def Let_def
  by (auto intro!: leaves_bind leaves_outcomes leaves_liftO leaves_return stats_steps stats_liftS)

lemma stats_IsDevicePointer: "leaves stats (IsDevicePointer R p)"
  unfolding IsDevicePointer_def by (auto intro!: leaves_bind leaves_return stats_liftS)

lemma stats_BufDeregisterer: "leaves stats (BufDeregisterer R p)"
  unfolding BufDeregisterer_def by (intro leaves_bind leaves_return stats_liftS)

lemma settles_return: "K r t \<Longrightarrow> settles K (State_Monad.return r) t"
  by (simp add: settles_def)

lemma settles_last: "leaves stats m \<Longrightarrow> (\<And>r. K r t) \<Longrightarrow> settles K m t"
  unfolding settles_def by (auto intro: wp_conseq [OF leavesD [OF _ refl]])

lemma settles_bindO_of:
  fixes m :: "('e app, 'b outcome) state"
  assumes "leaves stats m" "gives G m" "K Throw t" "K Block t" "K Running t" "\<And>x. G x \<Longrightarrow> settles K (f x) t"
  shows "settles K (bindO m f) t"
  unfolding settles_def
proof (intro allI impI)
  fix a :: "'e app" assume a: "stats a = t"
  have "wp m (\<lambda>r a'. stats a' = stats a \<and> (\<forall>x. r = Return x \<longrightarrow> G x)) a"
    using assms(1,2) by (intro wp_conj) (simp_all add: leaves_def gives_def)
  then show "wp (bindO m f) (\<lambda>r a'. K r (stats a')) a"
    by (rule wp_bindO) (use assms(3-) a in \<open>auto simp: settles_def\<close>)
qed

lemma settles_bindO:
  assumes "leaves stats m" "K Throw t" "K Block t" "K Running t" "\<And>x. settles K (f x) t"
  shows "settles K (bindO m f) t"
  by (rule settles_bindO_of [OF assms(1), where G = "\<lambda>_. True"]) (simp_all add: gives_def wp_def assms)

lemma settles_count: "settles K m (g t) \<Longrightarrow> settles K (bindO (liftO (countTransfer g)) (\<lambda>_. m)) t"
  unfolding settles_def
  by (intro allI impI, rule wp_bindO [where P = "\<lambda>r a. r = Return () \<and> stats a = g t"]) auto

lemma settles_finallyO:
  fixes m :: "('e app, 'b outcome) state"
  assumes "settles K m t" "leaves stats cleanup"
  shows "settles K (finallyO m cleanup) t"
  unfolding settles_def
proof (intro allI impI)
  fix a :: "'e app" assume "stats a = t"
  then have "wp m (\<lambda>r a'. K r (stats a')) a"
    using assms(1) by (simp add: settles_def)
  then show "wp (finallyO m cleanup) (\<lambda>r a'. K r (stats a')) a"
    by (rule wp_finallyO) (use assms(2) in \<open>auto simp: leaves_def wp_def split: prod.splits\<close>)
qed

lemmas settles_rules = settles_return settles_count settles_finallyO settles_bindO

lemmas stats_rules = stats_liftS stats_steps stats_EnsureInit stats_IsDevicePointer stats_BufDeregisterer
  leaves_liftO leaves_return

definition succeeded :: "ObjectResponse outcome \<Rightarrow> bool" where
  "succeeded r \<longleftrightarrow> (case r of Return resp \<Rightarrow> resp_error resp = None | _ \<Rightarrow> False)"

lemma succeeded_simps [simp]:
  "\<not> succeeded Throw" "\<not> succeeded Block" "\<not> succeeded Running" "\<not> succeeded (Return (errorResponse err))"
  by (simp_all add: succeeded_def errorResponse_def)

text \<open>
  What a transfer of \<open>sz\<close> bytes may do to the counters: nothing, unless it succeeded, count one HTTP transfer of all the bytes, or
  count one RDMA transfer and return its response.
\<close>

definition settled ::
  "(size_t \<Rightarrow> TransferStats \<Rightarrow> TransferStats) \<Rightarrow> (size_t \<Rightarrow> TransferStats \<Rightarrow> TransferStats) \<Rightarrow> (size_t \<Rightarrow> bool) \<Rightarrow>
   size_t \<Rightarrow> TransferStats \<Rightarrow> ObjectResponse outcome \<Rightarrow> TransferStats \<Rightarrow> bool" where
  "settled http rdma moved sz t r t' \<longleftrightarrow>
     t' = t \<and> \<not> succeeded r \<or> t' = http sz t \<or> (\<exists>n etag. moved n \<and> t' = rdma n t \<and> r = Return (RdmaResponse etag))"

lemma settled_failed [simp]: "\<not> succeeded r \<Longrightarrow> settled http rdma moved sz t r t"
  by (simp add: settled_def)

lemma settled_http [simp]: "settled http rdma moved sz t r (http sz t)"
  by (simp add: settled_def)

lemma settled_rdma: "moved n \<Longrightarrow> settled http rdma moved sz t (Return (RdmaResponse etag)) (rdma n t)"
  by (auto simp: settled_def)

lemma gives_liftS: "gives G m \<Longrightarrow> gives G (liftS m)"
  by (simp add: gives_def)

lemma settles_putByRdma:
  "settles (settled CountHttpPut CountRdmaPut (\<lambda>n. n = sz \<and> 0 < n) sz t) (putByRdma R C url args sz reg) t"
  unfolding putByRdma_def
proof (rule settles_bindO_of [OF stats_liftS gives_liftS [OF gives_retries(1)]], goal_cases)
  case (4 x)
  obtain ret ctx where x: "x = (ret, ctx)"
    by (cases x)
  with 4 show ?case
    by (auto simp: put_result_ok_def intro!: settles_rules stats_rules settled_rdma settles_last [OF stats_liftS])
qed simp_all

lemma settles_PutObject:
  assumes "mc_validatePut C args0 = (None, args)" "arg_buf args \<noteq> nullptr" "arg_size args = Some sz"
  shows "settles (settled CountHttpPut CountRdmaPut (\<lambda>n. n = sz \<and> 0 < n) sz t) (PutObject R C url args0) t"
  unfolding PutObject_def assms(1) prod.case withRegistration_def withRegion_def
  using assms(2,3)
  by (auto intro!: settles_rules stats_rules settles_putByRdma settles_last [OF stats_liftS] split: sum.splits)

lemma settles_getByRdma:
  "settles (settled CountHttpGet CountRdmaGet (\<lambda>n. n \<le> sz \<and> 0 < n) sz t) (getByRdma R C url args sz reg) t"
  unfolding getByRdma_def
proof (rule settles_bindO_of [OF stats_liftS gives_liftS [OF gives_retries(2)]], goal_cases)
  case (4 x)
  obtain ret ctx where x: "x = (ret, ctx)"
    by (cases x)
  with 4 show ?case
    by (auto simp: result_ok_def split_beta intro!: settles_rules stats_rules settled_rdma)
qed simp_all

lemma settles_HttpGetIntoBuffer:
  "settles (settled CountHttpGet CountRdmaGet moved sz t) (HttpGetIntoBuffer R C args sz) t"
  unfolding HttpGetIntoBuffer_def
  by (auto intro!: settles_rules stats_rules split: prod.splits option.splits)

lemma settles_GetObject:
  assumes "mc_validateGet C args0 = (None, args)" "arg_buf args \<noteq> nullptr" "arg_size args = Some sz"
  shows "settles (settled CountHttpGet CountRdmaGet (\<lambda>n. n \<le> sz \<and> 0 < n) sz t) (GetObject R C url args0) t"
  unfolding GetObject_def assms(1) prod.case withRegistration_def withRegion_def
  using assms(2,3)
  by (auto intro!: settles_rules stats_rules settles_getByRdma settles_HttpGetIntoBuffer split: sum.splits)

subsection \<open>Memory\<close>

text \<open>What the code relies on: writing a byte changes that byte and no other.\<close>

definition memory_ok :: "'e HostMemory \<Rightarrow> bool" where
  "memory_ok M \<longleftrightarrow> (\<forall>e p c q. mem_peek M (mem_poke M p c e) q = (if q = p then c else mem_peek M e q))"

lemma pokes_append: "pokes M p (xs @ ys) e = pokes M (p + of_nat (length xs)) ys (pokes M p xs e)"
  by (induction xs arbitrary: p e) (simp_all add: ac_simps)

lemma peek_pokes:
  assumes "memory_ok M" "length cs \<le> 2 ^ 64"
  shows "mem_peek M (pokes M p cs e) q = (if unat (q - p) < length cs then cs ! unat (q - p) else mem_peek M e q)"
  using assms(2)
proof (induction cs arbitrary: p e)
  case (Cons c cs)
  have step: "unat (q - p) = Suc (unat (q - (p + 1)))" if "q \<noteq> p"
  proof -
    have "unat (q - p - 1) = unat (q - p) - 1" "unat (q - p) \<noteq> 0"
      using that by (simp_all add: unat_minus_one unat_eq_0)
    then show ?thesis
      by (simp add: algebra_simps)
  qed
  have wrap: "\<not> unat (p - (p + 1)) < length cs"
  proof -
    have "unat (p - (p + 1)) = 2 ^ 64 - 1"
      by (simp add: unsigned_minus_1_eq_mask mask_eq_exp_minus_1)
    with Cons.prems show ?thesis
      by simp
  qed
  show ?case
    using Cons step wrap assms(1) by (cases "q = p") (auto simp: memory_ok_def)
qed simp

lemma copyChunks_pokes:
  "copyChunks M p sz offset chunks e = pokes M (p + of_nat offset) (take (sz - offset) (concat chunks)) e"
proof (induction chunks arbitrary: offset e)
  case (Cons chunk chunks)
  show ?case
    by (simp add: Let_def Cons.IH pokes_append ac_simps) (simp add: min_def)
qed simp

subsection \<open>The statistics line\<close>

lemma to_string_no_space: "0 \<le> i \<Longrightarrow> CHR '' '' \<notin> set (to_string i)"
proof -
  have "\<not> is_base_digit 10 (CHR '' '')"
    by (simp add: is_base_digit_def digit_value_def)
  then show "0 \<le> i \<Longrightarrow> CHR '' '' \<notin> set (to_string i)"
    using show_nat_digits [of "nat i"] by (auto simp: to_string_def)
qed

lemma to_string_inj: "to_string (uint (v :: u64)) = to_string (uint w) \<longleftrightarrow> v = w"
proof
  assume eq: "to_string (uint v) = to_string (uint w)"
  have "digits_value 10 0 (to_string (uint x)) = nat (uint x)" for x :: u64
    by (simp add: to_string_def digits_value_show_nat)
  with eq have "nat (uint v) = nat (uint w)"
    by metis
  then show "v = w"
    by (simp add: word_unat_eq_iff)
qed simp

lemma append_space_inj:
  assumes "CHR '' '' \<notin> set xs" "CHR '' '' \<notin> set ys" "xs @ CHR '' '' # us = ys @ CHR '' '' # vs"
  shows "xs = ys \<and> us = vs"
proof -
  have "takeWhile (\<lambda>c. c \<noteq> CHR '' '') (xs @ CHR '' '' # us) = xs" if "CHR '' '' \<notin> set xs" for xs us
    using that by (subst takeWhile_append2) auto
  from this [OF assms(1), of us] this [OF assms(2), of vs] assms(3) show ?thesis
    by (metis same_append_eq list.inject)
qed

lemma field_inj:
  "to_string (uint (v :: u64)) @ CHR '' '' # us = to_string (uint (w :: u64)) @ CHR '' '' # vs \<longleftrightarrow> v = w \<and> us = vs"
  using append_space_inj [of "to_string (uint v)" "to_string (uint w)" us vs] to_string_no_space [of "uint v"]
    to_string_no_space [of "uint w"] to_string_inj [of v w]
  by auto

subsection \<open>Properties\<close>

text \<open>A process on the sample platform, where every pointer is device memory, without a NIC that the library finds.\<close>

definition sample_process :: "int Process" where
  "sample_process =
    \<lparr>pr_platform = sample_platform, pr_system = None, pr_getenv = sample_lookup, pr_fuel = 10,
     pr_hipGetLastError = State_Monad.return (), pr_memory = \<lparr>mem_peek = (\<lambda>e p. CHR ''x''), mem_poke = (\<lambda>p c e. e)\<rparr>,
     pr_pubsetbuf = (\<lambda>content. content), pr_stringMax = 2 ^ 62, pr_longMax = 2 ^ 63 - 1\<rparr>"

definition sample_client :: "int MinioClient" where
  "sample_client =
    \<lparr>mc_http = sample_http [], mc_validatePut = (\<lambda>args. (None, args)), mc_validateGet = (\<lambda>args. (None, args)),
     mc_putObject = (\<lambda>args. State_Monad.return (Some \<lparr>resp_error = None, resp_etag = ''tag'', resp_rest = []\<rparr>)),
     mc_getObject = (\<lambda>args. State_Monad.return ([''ab'', ''cd''], Some \<lparr>resp_error = None, resp_etag = ''tag'', resp_rest = []\<rparr>)),
     mc_getRegion = (\<lambda>bucket reg. State_Monad.return (Some (Inr ''us-east-1'')))\<rparr>"

definition sample_url :: BaseUrl where
  "sample_url = \<lparr>base_host = ''localhost'', base_region = ''us-east-1'', base_https = False\<rparr>"

definition sample_put :: PutObjectArgs where
  "sample_put = \<lparr>arg_bucket = ''bucket'', arg_object = ''object'', arg_region = [], arg_buf = 8192, arg_size = Some 3,
     arg_rest = [], arg_stream = None, object_size = -1, part_size = 0\<rparr>"

definition sample_get :: GetObjectArgs where
  "sample_get = \<lparr>arg_bucket = ''bucket'', arg_object = ''object'', arg_region = [], arg_buf = 8192, arg_size = Some 3,
     arg_rest = [], datafunc = CallerFunction []\<rparr>"

definition sample_app :: "int app" where
  "sample_app =
    \<lparr>app_sys = sample_sys,
     runtime = \<lparr>rt_initialized = False, rt_active_key = [], rt_endpoint_storage = [], rt_nic_hint_storage = []\<rparr>,
     stats = \<lparr>rdmaPuts = 0, rdmaGets = 0, httpPuts = 0, httpGets = 0, rdmaBytes = 0, httpBytes = 0\<rparr>\<rparr>"

lemma sample_app_inv: "client_inv holds_nothing sample_app" "system_ok sample_process"
  using sample_sys_inv by (simp_all add: client_inv_def runtime_ok_def sample_app_def system_ok_def sample_process_def)

text \<open>
  C5. Whatever a PUT or a GET of the client does, when it comes back, by returning or by an exception, the
  library's invariant holds as before, every token has been given back, and the runtime does not
  claim an initialized library that is not there.
\<close>

theorem client_calls_keep_library:
  assumes "system_ok R" "client_inv H a"
  shows "wp (PutObject R C url pargs) (\<lambda>r a'. ends r \<longrightarrow> client_inv H a' \<and>
      leasesHeld (app_sys a') = leasesHeld (app_sys a) \<and> (\<exists>k. tokens (app_sys a') = tokens (app_sys a) @ replicate k None)) a \<and>
    wp (GetObject R C url gargs) (\<lambda>r a'. ends r \<longrightarrow> client_inv H a' \<and>
      leasesHeld (app_sys a') = leasesHeld (app_sys a) \<and> (\<exists>k. tokens (app_sys a') = tokens (app_sys a) @ replicate k None)) a"
  using obeysD [OF client.obeys_PutObject [of R H C url pargs], of a] obeysD [OF client.obeys_GetObject [of R H C url gargs], of a]
    assms
  by (auto simp: client_kept_def given_back_def elim!: wp_conseq)

theorem client_calls_keep_library_witness:
  "wp (PutObject sample_process sample_client sample_url sample_put) (\<lambda>r a'. ends r \<longrightarrow> client_inv holds_nothing a' \<and>
      leasesHeld (app_sys a') = leasesHeld (app_sys sample_app) \<and>
      (\<exists>k. tokens (app_sys a') = tokens (app_sys sample_app) @ replicate k None)) sample_app \<and>
   wp (GetObject sample_process sample_client sample_url sample_get) (\<lambda>r a'. ends r \<longrightarrow> client_inv holds_nothing a' \<and>
      leasesHeld (app_sys a') = leasesHeld (app_sys sample_app) \<and>
      (\<exists>k. tokens (app_sys a') = tokens (app_sys sample_app) @ replicate k None)) sample_app"
  by (rule client_calls_keep_library [OF sample_app_inv(2,1)])

text \<open>
  \<^verbatim>\<open>EnsureInit\<close> returns success exactly when the runtime then claims the library, for this URL, and the library
  has an instance. It counts nothing and hands out no token. A runtime that is ready for the URL is left as it is.
\<close>

theorem ensure_init_contract:
  assumes "system_ok R" "client_inv H a"
  shows "wp (EnsureInit R url) (\<lambda>r a'. \<exists>err. r = Return err \<and> client_inv H a' \<and> stats a' = stats a \<and>
      tokens (app_sys a') = tokens (app_sys a) \<and> rt_initialized (runtime a') = (opError err = hipObjSuccess) \<and>
      (opError err = hipObjSuccess \<longrightarrow>
         rt_active_key (runtime a') = base_host url @ '':'' @ base_region url \<and> current (app_sys a') \<noteq> None)) a \<and>
    (rt_initialized (runtime a) \<and> rt_active_key (runtime a) = base_host url @ '':'' @ base_region url \<longrightarrow>
      run_state (EnsureInit R url) a = (Return (mkError hipObjSuccess), a))"
proof (intro conjI impI)
  show "wp (EnsureInit R url) (\<lambda>r a'. \<exists>err. r = Return err \<and> client_inv H a' \<and> stats a' = stats a \<and>
      tokens (app_sys a') = tokens (app_sys a) \<and> rt_initialized (runtime a') = (opError err = hipObjSuccess) \<and>
      (opError err = hipObjSuccess \<longrightarrow>
         rt_active_key (runtime a') = base_host url @ '':'' @ base_region url \<and> current (app_sys a') \<noteq> None)) a"
    by (rule wp_conseq [OF wp_EnsureInit [OF assms(2,1)]])
       (auto simp: ensured_def runtimeKey_def client_inv_def runtime_ok_def)
qed (simp add: EnsureInit_def getRuntime_def runtimeKey_def State_Monad.bind_def State_Monad.return_def)

theorem ensure_init_contract_witness:
  "wp (EnsureInit sample_process sample_url) (\<lambda>r a'. \<exists>err. r = Return err \<and> client_inv holds_nothing a' \<and>
      stats a' = stats sample_app \<and>
      tokens (app_sys a') = tokens (app_sys sample_app) \<and> rt_initialized (runtime a') = (opError err = hipObjSuccess) \<and>
      (opError err = hipObjSuccess \<longrightarrow>
         rt_active_key (runtime a') = ''localhost:us-east-1'' \<and> current (app_sys a') \<noteq> None)) sample_app"
  using ensure_init_contract [OF sample_app_inv(2,1), of sample_url] by (simp add: sample_url_def)




lemma sample_init_fails:
  "run_state (EnsureInit sample_process sample_url) sample_app =
    (Return (mkError hipObjRdmaError), sample_app\<lparr>runtime := \<lparr>rt_initialized = False, rt_active_key = [],
       rt_endpoint_storage = ''http://localhost'',
       rt_nic_hint_storage = (case nicHintOf sample_lookup of None \<Rightarrow> [] | Some h \<Rightarrow> h)\<rparr>\<rparr>)"
  by (simp add: EnsureInit_def sample_app_def sample_process_def sample_url_def getRuntime_def setRuntime_def bindO_def
      liftO_def liftS_def State_Monad.bind_def State_Monad.return_def hipObjInit_def catchO_def isInitialized_def
      State_Monad.get_def runtimeConfig_def sample_sys_def endpointOf_def split: option.splits)


text \<open>
  When the RDMA transfer did not move the data and the buffer is device memory, the client returns an
  error that says why, and the host touches neither the buffer nor the server.
\<close>

theorem device_memory_has_no_fallback:
  assumes "run_state (liftS (rdmaPutWithRetry (mc_http C) (pr_fuel R) (pr_platform R)
        (rdmaContext url (arg_bucket pargs) (arg_object pargs) reg) (arg_buf pargs) sz)) a = (Return (ret, ctx), a1)"
    and "\<not> (rdma_status ret = RdmaOk \<and> rdma_bytes ret > 0)"
    and "run_state (IsDevicePointer R (arg_buf pargs)) a1 = (True, a2)"
    and "run_state (liftS (rdmaGetWithRetry (mc_http C) (pr_fuel R) (pr_platform R)
        (rdmaContext url (arg_bucket gargs) (arg_object gargs) reg) (arg_buf gargs) sz)) b = (Return (ret', ctx'), b1)"
    and "\<not> (rdma_status ret' = RdmaOk \<and> rdma_bytes ret' > 0)"
    and "run_state (IsDevicePointer R (arg_buf gargs)) b1 = (True, b2)"
  shows "run_state (putByRdma R C url pargs sz reg) a =
      (Return (errorResponse (''RDMA PUT failed ('' @ DescribeFailure ret @
        '') and the payload is device memory; no HTTP fallback is possible'')), a2) \<and>
    run_state (getByRdma R C url gargs sz reg) b =
      (Return (errorResponse (''RDMA GET failed ('' @ DescribeFailure ret' @
        '') and the destination is device memory; no HTTP fallback is possible'')), b2)"
  using assms
  by (auto simp: putByRdma_def getByRdma_def bindO_def liftO_def State_Monad.bind_def State_Monad.return_def)

text \<open>A library that is not initialized gives no token.\<close>

lemma sample_rdma_fails:
  "run_state (liftS (rdmaPutWithRetry (sample_http []) 10 sample_platform ctx 8192 3)) sample_app =
     (Return (failedResult, ctx), sample_app)"
  "run_state (liftS (rdmaGetWithRetry (sample_http []) 10 sample_platform ctx 8192 3)) sample_app =
     (Return (failedResult, ctx), sample_app)"
  by (simp_all add: liftS_def rdmaPutWithRetry_def rdmaGetWithRetry_def putAttempt_def getAttempt_def kRdmaMaxAttempts_def
      numeral_2_eq_2 hipObjGetRdmaToken_def withInstance_def currentInstance_def sample_app_def sample_sys_def bindO_def
      catchO_def finallyO_def releaseToken_def State_Monad.bind_def State_Monad.return_def)

theorem device_memory_has_no_fallback_witness:
  "run_state (putByRdma sample_process sample_client sample_url sample_put 3 []) sample_app =
      (Return (errorResponse (''RDMA PUT failed (error'' @
        '') and the payload is device memory; no HTTP fallback is possible'')), sample_app) \<and>
   run_state (getByRdma sample_process sample_client sample_url sample_get 3 []) sample_app =
      (Return (errorResponse (''RDMA GET failed (error'' @
        '') and the destination is device memory; no HTTP fallback is possible'')), sample_app)"
proof -
  have dev: "run_state (IsDevicePointer sample_process 8192) sample_app = (True, sample_app)"
    by (simp add: IsDevicePointer_def liftS_def liftEnv_def liftW_def liftE_def State_Monad.bind_def State_Monad.return_def
        sample_process_def sample_platform_def sample_hip_def)
  show ?thesis
    using device_memory_has_no_fallback [where C = sample_client and R = sample_process and url = sample_url and
        pargs = sample_put and gargs = sample_get and reg = "[]" and sz = 3 and a = sample_app and ?a1.0 = sample_app and
        ?a2.0 = sample_app and b = sample_app and ?b1.0 = sample_app and ?b2.0 = sample_app and ret = failedResult and
        ret' = failedResult and ctx = "rdmaContext sample_url ''bucket'' ''object'' []" and
        ctx' = "rdmaContext sample_url ''bucket'' ''object'' []"] dev sample_rdma_fails
    by (simp add: sample_put_def sample_get_def sample_client_def sample_process_def failedResult_def DescribeFailure_def)
qed

text \<open>
  The two ways in which a GET falls back to HTTP leave the same bytes in the buffer: copying every chunk
  as it comes in, up to the end of the buffer, is the same as collecting the object and copying its
  beginning.
\<close>

theorem chunked_copy_equals_buffered_copy:
  "copyChunks M p sz 0 chunks e = pokes M p (take sz (concat chunks)) e"
  by (simp add: copyChunks_pokes)

text \<open>
  C20. That copy writes the beginning of the object to the buffer, byte for byte, and nothing outside of it.
\<close>

theorem fallback_copy_stays_inside:
  assumes "memory_ok M"
  shows "mem_peek M (copyChunks M p (unat (sz :: size_t)) 0 chunks e) q =
    (if unat (q - p) < unat sz \<and> unat (q - p) < length (concat chunks) then concat chunks ! unat (q - p)
     else mem_peek M e q)"
proof -
  have "length (take (unat sz) (concat chunks)) \<le> 2 ^ 64"
    using unsigned_less [of sz, where ?'a = nat] by simp
  from peek_pokes [OF assms this, of p e q] show ?thesis
    by (simp add: copyChunks_pokes)
qed

text \<open>An environment that is the memory.\<close>

definition sample_memory :: "(addr \<Rightarrow> char) HostMemory" where
  "sample_memory = \<lparr>mem_peek = (\<lambda>e p. e p), mem_poke = (\<lambda>p c e. e(p := c))\<rparr>"

theorem fallback_copy_stays_inside_witness:
  "map (mem_peek sample_memory (copyChunks sample_memory 8192 (unat (3 :: size_t)) 0 [''ab'', ''cd''] (\<lambda>_. CHR ''x'')))
     [8191, 8192, 8193, 8194, 8195] = ''xabcx''"
proof -
  have "memory_ok sample_memory"
    by (simp add: memory_ok_def sample_memory_def)
  from fallback_copy_stays_inside [OF this, of 8192 3 "[''ab'', ''cd'']" "\<lambda>_. CHR ''x''"] show ?thesis
    by (simp add: sample_memory_def)
qed

text \<open>The line of statistics determines every counter.\<close>

theorem stats_line_injective: "TransferStatsLine t = TransferStatsLine t' \<longleftrightarrow> t = t'"
  unfolding TransferStatsLine_def
  by (cases t, cases t') (simp add: field_inj to_string_inj)

end
