(* ===== verification/Getput_Rdma.thy ===== *)
theory Getput_Rdma
  imports Minio_Client
begin

text \<open>
  \<^verbatim>\<open>integrations/minio-cpp/examples/getput-rdma.cpp\<close>: a program that puts a pattern, clobbers the buffer, gets the object back
  and compares. The program is what its \<^verbatim>\<open>main\<close> does with its arguments, up to its exit status; what it prints is
  not modelled. The buffer's owner is a scope, which an exception leaves too.

  What it calls of HIP, the system and minio-cpp beside the client is a record of parameters.
\<close>

subsection \<open>The pattern\<close>

definition kDefaultBufSize :: size_t where "kDefaultBufSize = 10 * 1024 * 1024"
definition kClobberByte :: char where "kClobberByte = char_of (0x55 :: nat)"
definition kLcgMultiplier :: u64 where "kLcgMultiplier = 6364136223846793005"
definition kMixMultiplier :: u64 where "kMixMultiplier = 0xff51afd7ed558ccd"
definition kMixShift :: nat where "kMixShift = 33"

text \<open>The mixing of \<^verbatim>\<open>PatternByte\<close>, before the low byte is taken.\<close>

definition patternWord :: "u64 \<Rightarrow> u32 \<Rightarrow> u64" where
  "patternWord offset seed =
     (let x = (offset + 1) * kLcgMultiplier + ucast seed;
          x = x XOR drop_bit kMixShift x;
          x = x * kMixMultiplier
      in x XOR drop_bit kMixShift x)"

definition PatternByte :: "u64 \<Rightarrow> u32 \<Rightarrow> u8" where
  "PatternByte offset seed = ucast (patternWord offset seed)"

definition patternChar :: "nat \<Rightarrow> u32 \<Rightarrow> char" where
  "patternChar i seed = char_of (unat (PatternByte (of_nat i) seed))"

fun fillFrom :: "nat \<Rightarrow> string \<Rightarrow> u32 \<Rightarrow> string" where
  "fillFrom i [] seed = []"
| "fillFrom i (c # cs) seed = patternChar i seed # fillFrom (Suc i) cs seed"

definition FillPattern :: "string \<Rightarrow> u32 \<Rightarrow> string" where
  "FillPattern buf seed = fillFrom 0 buf seed"

fun mismatchFrom :: "nat \<Rightarrow> string \<Rightarrow> u32 \<Rightarrow> nat" where
  "mismatchFrom i [] seed = i"
| "mismatchFrom i (c # cs) seed = (if (of_char c :: u8) \<noteq> PatternByte (of_nat i) seed then i else mismatchFrom (Suc i) cs seed)"

definition FirstMismatch :: "string \<Rightarrow> u32 \<Rightarrow> nat" where
  "FirstMismatch buf seed = mismatchFrom 0 buf seed"

subsection \<open>The program\<close>

text \<open>\<open>gp_vectorMax\<close> is the length of the longest vector.\<close>

record 'e GetputHost =
  gp_getpid :: "('e, u32) state"
  gp_time :: "('e, u32) state"
  gp_vectorMax :: nat
  gp_baseUrl :: "string \<Rightarrow> bool \<Rightarrow> string \<Rightarrow> BaseUrl"
  gp_client :: "BaseUrl \<Rightarrow> string \<Rightarrow> string \<Rightarrow> 'e MinioClient"
  gp_putArgs :: PutObjectArgs
  gp_getArgs :: GetObjectArgs
  gp_hipMalloc :: "size_t \<Rightarrow> ('e, hipError_t \<times> addr) state"
  gp_hipFree :: "addr \<Rightarrow> ('e, unit) state"
  gp_hipMemcpyToDevice :: "addr \<Rightarrow> string \<Rightarrow> ('e, hipError_t) state"
  gp_hipMemcpyToHost :: "addr \<Rightarrow> size_t \<Rightarrow> ('e, hipError_t \<times> string) state"
  gp_hipMemset :: "addr \<Rightarrow> char \<Rightarrow> size_t \<Rightarrow> ('e, unit) state"
  gp_hipDeviceSynchronize :: "('e, unit) state"
  gp_pagesize :: "('e, int) state"
  gp_new :: "size_t \<Rightarrow> size_t \<Rightarrow> ('e, addr) state"
  gp_delete :: "addr \<Rightarrow> size_t \<Rightarrow> ('e, unit) state"
  gp_openOutput :: "('e, bool) state"
  gp_writeOutput :: "string \<Rightarrow> ('e, unit) state"

definition callHost :: "('e, 'a) state \<Rightarrow> ('e app, 'a outcome) state" where
  "callHost m = liftO (liftS (liftEnv m))"

text \<open>\<^verbatim>\<open>BufferDeleter\<close>, which the owner calls on a pointer that is not null.\<close>

definition BufferDeleter :: "'e GetputHost \<Rightarrow> bool \<Rightarrow> size_t \<Rightarrow> addr \<Rightarrow> ('e app, unit) state" where
  "BufferDeleter G onGpu alignment p =
     (if p = nullptr then State_Monad.return ()
      else if onGpu then liftS (liftEnv (gp_hipFree G p)) else liftS (liftEnv (gp_delete G p alignment)))"

definition withGpuBuffer ::
  "'e GetputHost \<Rightarrow> size_t \<Rightarrow> string \<Rightarrow> (addr \<Rightarrow> ('e app, int outcome) state) \<Rightarrow> ('e app, int outcome) state" where
  "withGpuBuffer G bufsize expected body =
     bindO (callHost (gp_hipMalloc G bufsize)) (\<lambda>(err, dev_ptr).
       if err \<noteq> hipSuccess then State_Monad.return (Return 1)
       else finallyO
         (bindO (callHost (gp_hipMemcpyToDevice G dev_ptr expected)) (\<lambda>err.
            if err \<noteq> hipSuccess then State_Monad.return (Return 1)
            else bindO (callHost (gp_hipDeviceSynchronize G)) (\<lambda>_. body dev_ptr)))
         (BufferDeleter G True 0 dev_ptr))"

definition withHostBuffer ::
  "'e Process \<Rightarrow> 'e GetputHost \<Rightarrow> size_t \<Rightarrow> string \<Rightarrow> (addr \<Rightarrow> ('e app, int outcome) state) \<Rightarrow> ('e app, int outcome) state" where
  "withHostBuffer R G bufsize expected body =
     bindO (callHost (gp_pagesize G)) (\<lambda>pagesize.
       if pagesize \<le> 0 then State_Monad.return (Return 1)
       else let alignment = of_int pagesize in
       bindO (callHost (gp_new G bufsize alignment)) (\<lambda>bufptr.
         if bufptr = nullptr then State_Monad.return (Return 1)
         else finallyO
           (bindO (liftO (onHost (pokes (pr_memory R) bufptr expected))) (\<lambda>_. body bufptr))
           (BufferDeleter G False alignment bufptr)))"

text \<open>The buffer between the PUT and the GET, and what it holds after the GET.\<close>

definition clobberBuffer :: "'e Process \<Rightarrow> 'e GetputHost \<Rightarrow> bool \<Rightarrow> addr \<Rightarrow> size_t \<Rightarrow> ('e app, unit outcome) state" where
  "clobberBuffer R G gpu p bufsize =
     (if gpu then bindO (callHost (gp_hipMemset G p kClobberByte bufsize)) (\<lambda>_. callHost (gp_hipDeviceSynchronize G))
      else liftO (onHost (pokes (pr_memory R) p (replicate (unat bufsize) kClobberByte))))"

definition readBack :: "'e Process \<Rightarrow> 'e GetputHost \<Rightarrow> bool \<Rightarrow> addr \<Rightarrow> size_t \<Rightarrow> ('e app, (hipError_t \<times> string) outcome) state" where
  "readBack R G gpu p bufsize =
     (if gpu then bindO (callHost (gp_hipMemcpyToHost G p bufsize)) (\<lambda>(err, data).
        State_Monad.return (Return (err, writtenBuffer (unat bufsize) data)))
      else bindO (liftO (readHost R p bufsize)) (\<lambda>data. State_Monad.return (Return (hipSuccess, data))))"

definition checkReadBack :: "'e GetputHost \<Rightarrow> size_t \<Rightarrow> u32 \<Rightarrow> string \<Rightarrow> ('e app, int outcome) state" where
  "checkReadBack G bufsize seed hostbuf =
     bindO (callHost (gp_openOutput G)) (\<lambda>opened.
       if \<not> opened then State_Monad.return (Return 1)
       else bindO (callHost (gp_writeOutput G hostbuf)) (\<lambda>_.
         let bad = FirstMismatch hostbuf seed; ok = (bad = unat bufsize)
         in State_Monad.return (Return (if ok then 0 else 1))))"

definition putAndGet ::
  "'e Process \<Rightarrow> 'e GetputHost \<Rightarrow> 'e MinioClient \<Rightarrow> BaseUrl \<Rightarrow> bool \<Rightarrow> size_t \<Rightarrow> u32 \<Rightarrow> addr \<Rightarrow> ('e app, int outcome) state" where
  "putAndGet R G C url gpu bufsize seed p =
     bindO (PutObject R C url ((gp_putArgs G)\<lparr>arg_buf := p, arg_size := Some bufsize, arg_bucket := ''hipobj-test'',
         arg_object := ''my-object''\<rparr>)) (\<lambda>presp.
       if resp_error presp \<noteq> None then State_Monad.return (Return 1)
       else bindO (clobberBuffer R G gpu p bufsize) (\<lambda>_.
         bindO (GetObject R C url ((gp_getArgs G)\<lparr>arg_buf := p, arg_size := Some bufsize, arg_bucket := ''hipobj-test'',
             arg_object := ''my-object''\<rparr>)) (\<lambda>gresp.
           if resp_error gresp \<noteq> None then State_Monad.return (Return 1)
           else bindO (readBack R G gpu p bufsize) (\<lambda>(err, hostbuf).
             if err \<noteq> hipSuccess then State_Monad.return (Return 1)
             else checkReadBack G bufsize seed hostbuf))))"

text \<open>The arguments: the size of the object, unless it is not a size, and whether to use a GPU.\<close>

definition getputSize :: "string list \<Rightarrow> size_t option" where
  "getputSize args =
     (if length args > 4 then map_option of_int (parseNumber uint64_t (args ! 4) kDefaultNumberBase) else Some kDefaultBufSize)"

definition getputGpu :: "string list \<Rightarrow> bool" where
  "getputGpu args = (if length args > 5 then args ! 5 = ''gpu'' else True)"

definition getputMain :: "'e Process \<Rightarrow> 'e GetputHost \<Rightarrow> int \<Rightarrow> string list \<Rightarrow> ('e app, int outcome) state" where
  "getputMain R G argc argv =
     (let args = argSpan argc argv in
      if length args < 4 then State_Monad.return (Return 1)
      else case getputSize args of
        None \<Rightarrow> State_Monad.return (Return 1)
      | Some bufsize \<Rightarrow>
          bindO (callHost (gp_getpid G)) (\<lambda>pid. bindO (callHost (gp_time G)) (\<lambda>time.
            let seed = pid XOR time; gpu = getputGpu args in
            if unat bufsize > gp_vectorMax G then State_Monad.return Throw
            else
              let expected = FillPattern (replicate (unat bufsize) NUL) seed;
                  url = gp_baseUrl G (args ! 1) False ''us-east-1'';
                  C = gp_client G url (args ! 2) (args ! 3);
                  body = putAndGet R G C url gpu bufsize seed
              in if gpu then withGpuBuffer G bufsize expected body else withHostBuffer R G bufsize expected body)))"

subsection \<open>The pattern finds every difference\<close>

lemma of_char_eq_byte: "(of_char c :: u8) = b \<longleftrightarrow> c = char_of (unat b)"
proof
  assume "(of_char c :: u8) = b"
  then have "b = of_nat (of_char c)"
    by (simp add: of_nat_of_char)
  then have "unat b = (of_char c :: nat)"
    by (simp only: unat_of_nat) (simp add: of_char_mod_256)
  then show "c = char_of (unat b)"
    by simp
next
  assume "c = char_of (unat b)"
  then have "(of_char c :: nat) = unat b"
    using unsigned_less [of b, where ?'a = nat] by (simp add: take_bit_nat_eq_self)
  then show "(of_char c :: u8) = b"
    by (metis of_nat_of_char of_nat_unat ucast_id)
qed

lemma fillFrom_nth: "length (fillFrom i buf seed) = length buf \<and> (\<forall>k<length buf. fillFrom i buf seed ! k = patternChar (i + k) seed)"
  by (induction buf arbitrary: i) (auto simp: nth_Cons split: nat.splits)

lemma mismatchFrom_spec:
  "i \<le> mismatchFrom i buf seed \<and> mismatchFrom i buf seed \<le> i + length buf \<and>
   (\<forall>k. i + k < mismatchFrom i buf seed \<longrightarrow> buf ! k = patternChar (i + k) seed) \<and>
   (mismatchFrom i buf seed < i + length buf \<longrightarrow>
     buf ! (mismatchFrom i buf seed - i) \<noteq> patternChar (mismatchFrom i buf seed) seed)"
proof (induction buf arbitrary: i)
  case (Cons c buf)
  show ?case
  proof (cases "(of_char c :: u8) = PatternByte (of_nat i) seed")
    case True
    then have "c = patternChar i seed"
      by (simp add: of_char_eq_byte patternChar_def)
    then show ?thesis
      using True Cons.IH [of "Suc i"] by (auto simp: nth_Cons diff_Suc split: nat.splits)
  next
    case False
    then have "c \<noteq> patternChar i seed"
      by (simp add: of_char_eq_byte patternChar_def)
    then show ?thesis
      using False by simp
  qed
qed simp

text \<open>Mixing loses nothing: a shift by more than half the width and an odd factor can both be undone.\<close>

lemma shift_xor_undo:
  fixes x :: u64
  shows "(x XOR drop_bit 33 x) XOR drop_bit 33 (x XOR drop_bit 33 x) = x"
  by (rule bit_word_eqI) (auto simp: bit_simps)

lemma shift_xor_eq: "(x :: u64) XOR drop_bit 33 x = y XOR drop_bit 33 y \<longleftrightarrow> x = y"
  by (metis shift_xor_undo)

lemma multiplier_inverses:
  "kLcgMultiplier * 0xc097ef87329e28a5 = 1" "kMixMultiplier * 0x4f74430c22a54005 = 1"
  by (simp_all add: kLcgMultiplier_def kMixMultiplier_def)

lemma times_eq:
  assumes "k * k' = (1 :: u64)"
  shows "x * k = y * k \<longleftrightarrow> x = y"
proof
  assume "x * k = y * k"
  then have "x * (k * k') = y * (k * k')"
    by (simp only: mult.assoc [symmetric])
  then show "x = y"
    by (simp add: assms)
qed simp

lemma seed_eq: "(ucast (s :: u32) :: u64) = ucast s' \<longleftrightarrow> s = s'"
proof
  assume eq: "(ucast s :: u64) = ucast s'"
  show "s = s'"
  proof (rule bit_word_eqI)
    fix n assume "n < LENGTH(32)"
    then show "bit s n = bit s' n"
      using arg_cong [OF eq, of "\<lambda>w. bit w n"] by (simp add: bit_simps)
  qed
qed simp

lemma patternWord_eq:
  "patternWord x seed = patternWord y seed' \<longleftrightarrow>
     (x + 1) * kLcgMultiplier + ucast seed = (y + 1) * kLcgMultiplier + ucast seed'"
  by (simp add: patternWord_def Let_def kMixShift_def shift_xor_eq times_eq [OF multiplier_inverses(2)])

subsection \<open>What the program does with the library\<close>

context client_relation
begin

lemma obeys_callHost: "obeys Rel (callHost m)"
  unfolding callHost_def by (rule obeys_env)

lemma obeys_BufferDeleter: "obeys Rel (liftO (BufferDeleter G gpu al p))"
  unfolding BufferDeleter_def by (auto intro!: obeys_nothing obeys_env)

lemma obeys_putAndGet: "obeys Rel (putAndGet R G C url gpu n seed p)"
  unfolding putAndGet_def clobberBuffer_def readBack_def checkReadBack_def Let_def
  by (auto intro!: obeys_PutObject obeys_GetObject obeys_callHost obeys_steps split: prod.splits)

lemma obeys_getputMain: "obeys Rel (getputMain R G argc argv)"
  unfolding getputMain_def withGpuBuffer_def withHostBuffer_def Let_def
  by (auto intro!: obeys_putAndGet obeys_BufferDeleter obeys_callHost obeys_steps split: prod.splits option.splits)

end

text \<open>The counters after a call whose own counting is known.\<close>

lemma settles_seq:
  fixes m :: "('e app, 'b outcome) state"
  assumes "settles K' m t" "\<And>t'. K Throw t'" "\<And>t'. K Block t'" "\<And>t'. K Running t'"
    and "\<And>x t'. K' (Return x) t' \<Longrightarrow> settles K (f x) t'"
  shows "settles K (bindO m f) t"
  unfolding settles_def
proof (intro allI impI)
  fix a :: "'e app" assume "stats a = t"
  then have "wp m (\<lambda>r a'. K' r (stats a')) a"
    using assms(1) by (simp add: settles_def)
  then show "wp (bindO m f) (\<lambda>r a'. K r (stats a')) a"
    by (rule wp_bindO) (use assms(2-) in \<open>auto simp: settles_def\<close>)
qed

text \<open>What the program's exit status says of the counters.\<close>

definition put_once :: "size_t \<Rightarrow> TransferStats \<Rightarrow> TransferStats \<Rightarrow> bool" where
  "put_once n t t' \<longleftrightarrow> t' = CountHttpPut n t \<or> t' = CountRdmaPut n t"

definition get_once :: "size_t \<Rightarrow> TransferStats \<Rightarrow> TransferStats \<Rightarrow> bool" where
  "get_once n t t' \<longleftrightarrow> t' = CountHttpGet n t \<or> (\<exists>m. 0 < m \<and> m \<le> n \<and> t' = CountRdmaGet m t)"

definition counted :: "size_t \<Rightarrow> TransferStats \<Rightarrow> int outcome \<Rightarrow> TransferStats \<Rightarrow> bool" where
  "counted n t r t' \<longleftrightarrow> (r = Return 0 \<longrightarrow> (\<exists>t1. put_once n t t1 \<and> get_once n t1 t'))"

lemma counted_failed [simp]: "r \<noteq> Return 0 \<Longrightarrow> counted n t r t'"
  by (simp add: counted_def)

text \<open>What the program relies on: minio-cpp's check of the arguments keeps the buffer.\<close>

definition validate_ok :: "'e MinioClient \<Rightarrow> bool" where
  "validate_ok C \<longleftrightarrow>
     (\<forall>args args'. mc_validatePut C args = (None, args') \<longrightarrow> arg_buf args' = arg_buf args \<and> arg_size args' = arg_size args) \<and>
     (\<forall>args args'. mc_validateGet C args = (None, args') \<longrightarrow> arg_buf args' = arg_buf args \<and> arg_size args' = arg_size args)"

lemma settles_failed_put:
  "mc_validatePut C args0 = (Some err, args) \<Longrightarrow> settles (settled h m P n t) (PutObject R C url args0) t"
  by (simp add: PutObject_def settles_return)

lemma settles_failed_get:
  "mc_validateGet C args0 = (Some err, args) \<Longrightarrow> settles (settled h m P n t) (GetObject R C url args0) t"
  by (simp add: GetObject_def settles_return)

lemma settles_put:
  assumes "validate_ok C" "arg_buf args \<noteq> nullptr" "arg_size args = Some n"
  shows "settles (settled CountHttpPut CountRdmaPut (\<lambda>k. k = n \<and> 0 < k) n t) (PutObject R C url args) t"
proof (cases "mc_validatePut C args")
  case (Pair e args')
  then show ?thesis
    using assms by (cases e) (auto simp: validate_ok_def intro: settles_failed_put settles_PutObject)
qed

lemma settles_get:
  assumes "validate_ok C" "arg_buf args \<noteq> nullptr" "arg_size args = Some n"
  shows "settles (settled CountHttpGet CountRdmaGet (\<lambda>k. k \<le> n \<and> 0 < k) n t) (GetObject R C url args) t"
proof (cases "mc_validateGet C args")
  case (Pair e args')
  then show ?thesis
    using assms by (cases e) (auto simp: validate_ok_def intro: settles_failed_get settles_GetObject)
qed

lemma stats_callHost: "leaves stats (callHost m)"
  unfolding callHost_def by (intro leaves_liftO stats_liftS)

lemma stats_buffers: "leaves stats (clobberBuffer R G gpu p n)" "leaves stats (readBack R G gpu p n)"
    "leaves stats (BufferDeleter G gpu al p)"
  unfolding clobberBuffer_def readBack_def BufferDeleter_def
  by (auto intro!: leaves_outcomes stats_callHost stats_rules split: prod.splits)

lemma settles_checkReadBack: "(\<And>r. K r t) \<Longrightarrow> settles K (checkReadBack G n seed buf) t"
  unfolding checkReadBack_def Let_def by (auto intro!: settles_bindO settles_return stats_callHost)

lemma counted_stopped: "counted n t Throw t'" "counted n t Block t'" "counted n t Running t'"
  by simp_all

text \<open>From the GET on, when the PUT has been counted.\<close>

lemma settles_getAndCheck:
  assumes "validate_ok C" "put_once n t t1" "arg_buf args \<noteq> nullptr" "arg_size args = Some n"
  shows "settles (counted n t) (bindO (GetObject R C url args) (\<lambda>gresp.
     if resp_error gresp \<noteq> None then State_Monad.return (Return 1)
     else bindO (readBack R G gpu p n) (\<lambda>(err, hostbuf).
       if err \<noteq> hipSuccess then State_Monad.return (Return 1) else checkReadBack G n seed hostbuf))) t1"
proof (rule settles_seq [OF settles_get [OF assms(1,3,4)]], goal_cases)
  case (4 gresp t2)
  then have "resp_error gresp = None \<longrightarrow> (\<forall>r. counted n t r t2)"
    using assms(2) by (auto simp: settled_def succeeded_def get_once_def counted_def)
  then show ?case
    by (auto intro!: settles_bindO settles_return settles_checkReadBack stats_buffers split: prod.splits)
qed simp_all

lemma settles_putAndGet:
  assumes "validate_ok C" "p \<noteq> nullptr"
  shows "settles (counted n t) (putAndGet R G C url gpu n seed p) t"
  unfolding putAndGet_def
proof (rule settles_seq [OF settles_put [OF assms(1), where n = n]], goal_cases)
  case (6 presp t1)
  show ?case
  proof (cases "resp_error presp \<noteq> None")
    case False
    then have "put_once n t t1"
      using 6 by (auto simp: settled_def succeeded_def put_once_def)
    note rest = settles_getAndCheck [OF assms(1) this]
    show ?thesis
      unfolding if_not_P [OF False]
      by (intro settles_bindO stats_buffers counted_stopped rest) (simp_all add: assms(2))
  qed (simp add: settles_return)
qed (simp_all add: assms(2))

subsection \<open>A run over HTTP\<close>

text \<open>
  A host on which the program can work without RDMA: the library finds no NIC, memory and allocation work, and the
  store behind the client gives back what was put last. \<open>stored\<close> is what the store holds.
\<close>

definition http_store :: "('e \<Rightarrow> string) \<Rightarrow> 'e MinioClient \<Rightarrow> bool" where
  "http_store stored C \<longleftrightarrow>
     (\<forall>args. mc_validatePut C args = (None, args)) \<and> (\<forall>args. mc_validateGet C args = (None, args)) \<and>
     (\<forall>args content e. arg_stream args = Some content \<longrightarrow>
        wp (mc_putObject C args) (\<lambda>r e'. (\<exists>resp. r = Some resp \<and> resp_error resp = None) \<and> stored e' = content) e) \<and>
     (\<forall>args e. wp (mc_getObject C args) (\<lambda>r e'. concat (fst r) = stored e \<and> (\<exists>resp. snd r = Some resp \<and> resp_error resp = None)) e)"

definition host_works :: "('e \<Rightarrow> string) \<Rightarrow> 'e Process \<Rightarrow> 'e GetputHost \<Rightarrow> size_t \<Rightarrow> bool" where
  "host_works stored R G n \<longleftrightarrow>
     pr_system R = None \<and> memory_ok (pr_memory R) \<and> (\<forall>p c e. stored (mem_poke (pr_memory R) p c e) = stored e) \<and>
     uint n \<le> pr_longMax R \<and> unat n \<le> pr_stringMax R \<and> unat n \<le> gp_vectorMax G \<and>
     (\<forall>e. wp (gp_pagesize G) (\<lambda>r _. 0 < r) e) \<and> (\<forall>al e. wp (gp_new G n al) (\<lambda>p _. p \<noteq> nullptr) e) \<and>
     (\<forall>e. wp (gp_openOutput G) (\<lambda>opened _. opened) e)"

abbreviation app_env :: "'e app \<Rightarrow> 'e" where
  "app_env a \<equiv> env (sys_world (app_sys a))"

lemma wp_callHost:
  assumes "wp m (\<lambda>r _. P r) (app_env a)"
    and "\<And>r e. P r \<Longrightarrow> wp (f r) Q (a\<lparr>app_sys := (app_sys a)\<lparr>sys_world := (sys_world (app_sys a))\<lparr>env := e\<rparr>\<rparr>\<rparr>)"
  shows "wp (bindO (callHost m) f) Q a"
  by (auto simp: callHost_def bindO_def wp_liftEnv_iff intro!: wp_conseq [OF assms(1)] assms(2))

lemma wp_hostMemory:
  "wp (readHost R p n) Q a \<longleftrightarrow> Q (peeks (pr_memory R) p (unat n) (app_env a)) a"
  "wp (onHost f) Q' a \<longleftrightarrow> Q' () (a\<lparr>app_sys := (app_sys a)\<lparr>sys_world := (sys_world (app_sys a))\<lparr>env := f (app_env a)\<rparr>\<rparr>\<rparr>)"
  by (simp_all add: readHost_def onHost_def wp_liftEnv_iff) (simp_all add: wp_def)

lemma peeks_pokes:
  assumes "memory_ok M" "length cs < 2 ^ 64"
  shows "peeks M p (length cs) (pokes M p cs e) = cs"
proof (rule nth_equalityI)
  fix i assume "i < length (peeks M p (length cs) (pokes M p cs e))"
  then have "i < length cs"
    by (simp add: peeks_def)
  moreover from this have "unat (of_nat i :: addr) = i"
    using assms(2) by (simp add: unat_of_nat take_bit_nat_eq_self)
  ultimately show "peeks M p (length cs) (pokes M p cs e) ! i = cs ! i"
    using assms by (simp add: peeks_def peek_pokes)
qed (simp add: peeks_def)

lemma stored_pokes:
  assumes "\<forall>p c e. stored (mem_poke M p c e) = stored e"
  shows "stored (pokes M p cs e) = stored e"
  using assms by (induction cs arbitrary: p e) simp_all

text \<open>Without a NIC, the library is not initialized.\<close>

lemma wp_EnsureInit_without_nic:
  assumes "pr_system R = None" "\<not> rt_initialized (runtime a)"
  shows "wp (EnsureInit R url) (\<lambda>r a'. (\<exists>err. r = Return err \<and> opError err \<noteq> hipObjSuccess) \<and>
    app_sys a' = app_sys a \<and> \<not> rt_initialized (runtime a')) a"
  using assms
  by (simp add: EnsureInit_def hipObjInit_def runtimeConfig_def isInitialized_def Let_def wp_def getRuntime_def setRuntime_def
      bindO_def liftO_def liftS_def catchO_def State_Monad.bind_def State_Monad.return_def State_Monad.get_def)

text \<open>A PUT and a GET of the program over HTTP.\<close>

abbreviation not_ready :: "'e app \<Rightarrow> bool" where
  "not_ready a \<equiv> \<not> rt_initialized (runtime a)"

lemma wp_put_over_http:
  assumes "http_store stored C" "host_works stored R G n" "not_ready a" "arg_buf args \<noteq> nullptr" "arg_size args = Some n"
  shows "wp (PutObject R C url args) (\<lambda>r a'. (\<exists>resp. r = Return resp \<and> resp_error resp = None) \<and> not_ready a' \<and>
     stored (app_env a') = peeks (pr_memory R) (arg_buf args) (unat n) (app_env a)) a"
proof -
  have valid: "mc_validatePut C args = (None, args)" and n: "\<not> pr_longMax R < uint n" and nic: "pr_system R = None"
    using assms(1,2) by (simp_all add: http_store_def host_works_def)
  have put: "wp (mc_putObject C (httpPutArgs args content n)) (\<lambda>r e'. (\<exists>resp. r = Some resp \<and> resp_error resp = None) \<and> stored e' = content) e"
    for content e
    using assms(1) by (simp add: http_store_def httpPutArgs_def)
  show ?thesis
    unfolding PutObject_def valid prod.case option.case assms(5) if_not_P [OF assms(4)] if_not_P [OF n]
  proof (rule wp_bindO [OF wp_EnsureInit_without_nic [OF nic assms(3)]], goal_cases)
    case (1 err a1)
    then have err: "opError err \<noteq> hipObjSuccess" and a1: "app_sys a1 = app_sys a" "not_ready a1"
      by auto
    show ?case
      unfolding if_P [OF err] bindO_def
      by (auto simp: wp_hostMemory orThrow_def a1 wp_liftEnv_iff intro!: wp_conseq [OF put])
  qed auto
qed

lemma wp_get_over_http:
  assumes "http_store stored C" "host_works stored R G n" "not_ready a" "arg_buf args \<noteq> nullptr" "arg_size args = Some n"
    and "length (stored (app_env a)) = unat n"
  shows "wp (GetObject R C url args) (\<lambda>r a'. (\<exists>resp. r = Return resp \<and> resp_error resp = None) \<and>
     peeks (pr_memory R) (arg_buf args) (unat n) (app_env a') = stored (app_env a)) a"
proof -
  have valid: "mc_validateGet C args = (None, args)" and n: "\<not> pr_stringMax R < unat n" and nic: "pr_system R = None"
    and memory: "memory_ok (pr_memory R)"
    using assms(1,2) by (simp_all add: http_store_def host_works_def)
  have fetch: "wp (mc_getObject C (httpGetArgs args)) (\<lambda>r e'. concat (fst r) = stored e \<and> (\<exists>resp. snd r = Some resp \<and> resp_error resp = None)) e"
    for e
    using assms(1) by (simp add: http_store_def)
  have copied: "peeks (pr_memory R) p (unat n) (pokes (pr_memory R) p (take (unat n) (stored (app_env a))) e) = stored (app_env a)" for p e
    using peeks_pokes [OF memory, of "stored (app_env a)" p e] unsigned_less [of n, where ?'a = nat] assms(6) by simp
  show ?thesis
    unfolding GetObject_def valid prod.case option.case assms(5) if_not_P [OF assms(4)] HttpGetIntoBuffer_def if_not_P [OF n]
  proof (rule wp_bindO [OF wp_EnsureInit_without_nic [OF nic assms(3)]], goal_cases)
    case (1 err a1)
    then have err: "opError err \<noteq> hipObjSuccess" and a1: "app_sys a1 = app_sys a" "not_ready a1"
      by auto
    show ?case
      unfolding if_P [OF err] bindO_def
      by (auto simp: wp_hostMemory a1 wp_liftEnv_iff copied intro!: wp_conseq [OF fetch])
  qed auto
qed

lemma length_FillPattern [simp]: "length (FillPattern buf seed) = length buf"
  using fillFrom_nth [of 0 buf seed] by (simp add: FillPattern_def)

lemma FirstMismatch_filled: "FirstMismatch (FillPattern buf seed) seed = length buf"
proof (rule ccontr)
  let ?b = "FillPattern buf seed"
  assume "FirstMismatch ?b seed \<noteq> length buf"
  moreover have spec: "FirstMismatch ?b seed \<le> length buf" "FirstMismatch ?b seed < length buf \<longrightarrow>
      ?b ! FirstMismatch ?b seed \<noteq> patternChar (FirstMismatch ?b seed) seed"
    using mismatchFrom_spec [of 0 ?b seed] by (simp_all add: FirstMismatch_def)
  ultimately show False
    using fillFrom_nth [of 0 buf seed] by (auto simp: FillPattern_def)
qed

lemma wp_putAndGet_over_http:
  assumes "http_store stored C" "host_works stored R G n" "not_ready a" "p \<noteq> nullptr"
    and "peeks (pr_memory R) p (unat n) (app_env a) = FillPattern (replicate (unat n) NUL) seed"
  shows "wp (putAndGet R G C url False n seed p) (\<lambda>r _. r = Return 0) a"
  unfolding putAndGet_def
proof (rule wp_bindO [OF wp_put_over_http [OF assms(1-3)]], goal_cases)
  case (3 presp a1)
  let ?clobbered = "\<lambda>r a2. r = Return () \<and> not_ready a2 \<and> stored (app_env a2) = FillPattern (replicate (unat n) NUL) seed"
  have ok: "\<not> resp_error presp \<noteq> None"
    using 3 by simp
  have "wp (clobberBuffer R G False p n) ?clobbered a1"
    using 3 assms(2,5) by (simp add: clobberBuffer_def wp_hostMemory host_works_def stored_pokes)
  then show ?case
    unfolding if_not_P [OF ok]
  proof (rule wp_bindO, goal_cases)
    case (1 _ a2)
    then have a2: "not_ready a2" "stored (app_env a2) = FillPattern (replicate (unat n) NUL) seed"
      by simp_all
    show ?case
    proof (rule wp_bindO [OF wp_get_over_http [OF assms(1,2) a2(1)]], goal_cases)
      case (4 gresp a3)
      have opened: "wp (gp_openOutput G) (\<lambda>opened _. opened) e" for e
        using assms(2) by (simp add: host_works_def)
      show ?case
        using 4 a2(2)
        by (auto simp: readBack_def checkReadBack_def callHost_def bindO_def Let_def wp_hostMemory wp_liftEnv_iff
            FirstMismatch_filled intro!: wp_conseq [OF opened] wp_conseq [where P = "\<lambda>_ _. True"] simp: wp_def [of _ "\<lambda>_ _. True"])
    qed (use assms(4) a2(2) in simp_all)
  qed simp_all
qed (simp_all add: assms(4))

lemma wp_hostBuffer_over_http:
  assumes "http_store stored C" "host_works stored R G n" "not_ready a"
  shows "wp (withHostBuffer R G n (FillPattern (replicate (unat n) NUL) seed) (putAndGet R G C url False n seed)) (\<lambda>r _. r = Return 0) a"
proof -
  have page: "wp (gp_pagesize G) (\<lambda>r _. 0 < r) e" and new: "wp (gp_new G n al) (\<lambda>p _. p \<noteq> nullptr) e"
    and memory: "memory_ok (pr_memory R)" for e al
    using assms(2) by (simp_all add: host_works_def)
  have pattern: "peeks (pr_memory R) p (unat n) (pokes (pr_memory R) p (FillPattern (replicate (unat n) NUL) seed) e) =
      FillPattern (replicate (unat n) NUL) seed" for p e
    using peeks_pokes [OF memory, of "FillPattern (replicate (unat n) NUL) seed" p e] unsigned_less [of n, where ?'a = nat] by simp
  show ?thesis
      unfolding withHostBuffer_def
    proof (rule wp_callHost [OF page], goal_cases)
      case (1 pagesize e)
      then have positive: "\<not> pagesize \<le> 0"
        by simp
      show ?case
        unfolding if_not_P [OF positive] Let_def
      proof (rule wp_callHost [OF new], goal_cases)
        case (1 p e)
        show ?case
          unfolding if_not_P [OF 1]
        proof (rule wp_finallyO [where P = "\<lambda>r _. r = Return 0"], goal_cases)
          case 1
          show ?case
            using assms(3) \<open>p \<noteq> nullptr\<close>
            by (auto simp: bindO_def wp_hostMemory pattern intro!: wp_putAndGet_over_http [OF assms(1,2)])
        next
          case (2 r a1)
          then show ?case
            by (intro wp_conseq [OF wp_any]) simp
        qed simp_all
      qed
    qed
qed

subsection \<open>Properties\<close>

text \<open>
  A host whose memory works, and a store that gives back what was put. The environment is the memory and what is stored.
\<close>

type_synonym memory_env = "(addr \<Rightarrow> char) \<times> string"

definition http_process :: "memory_env Process" where
  "http_process =
    \<lparr>pr_platform = \<lparr>hip = sample_hip, verbs = sample_verbs, topology = sample_topology, steady_now = State_Monad.return 0,
       sleep_for = (\<lambda>_. State_Monad.return ())\<rparr>, pr_system = None, pr_getenv = sample_lookup, pr_fuel = 10,
     pr_hipGetLastError = State_Monad.return (),
     pr_memory = \<lparr>mem_peek = (\<lambda>e p. fst e p), mem_poke = (\<lambda>p c e. ((fst e)(p := c), snd e))\<rparr>,
     pr_pubsetbuf = (\<lambda>content. content), pr_stringMax = 2 ^ 62, pr_longMax = 2 ^ 63 - 1\<rparr>"

definition store_client :: "memory_env MinioClient" where
  "store_client =
    \<lparr>mc_http = sample_http [], mc_validatePut = (\<lambda>args. (None, args)), mc_validateGet = (\<lambda>args. (None, args)),
     mc_putObject = (\<lambda>args. State (\<lambda>(mem, _). (Some (RdmaResponse ''tag''), mem, the (arg_stream args)))),
     mc_getObject = (\<lambda>args. State (\<lambda>(mem, content). (([content], Some (RdmaResponse ''tag'')), mem, content))),
     mc_getRegion = (\<lambda>bucket reg. State_Monad.return (Some (Inr ''us-east-1'')))\<rparr>"

definition getput_host :: "memory_env GetputHost" where
  "getput_host =
    \<lparr>gp_getpid = State_Monad.return 7, gp_time = State_Monad.return 1700000000, gp_vectorMax = 2 ^ 62,
     gp_baseUrl = (\<lambda>host https reg. \<lparr>base_host = host, base_region = reg, base_https = https\<rparr>),
     gp_client = (\<lambda>url access_key secret_key. store_client), gp_putArgs = sample_put, gp_getArgs = sample_get,
     gp_hipMalloc = (\<lambda>_. State_Monad.return (hipSuccess, 8192)), gp_hipFree = (\<lambda>_. State_Monad.return ()),
     gp_hipMemcpyToDevice = (\<lambda>p data. State (\<lambda>e. (hipSuccess, pokes (pr_memory http_process) p data e))),
     gp_hipMemcpyToHost = (\<lambda>p n. State (\<lambda>e. ((hipSuccess, peeks (pr_memory http_process) p (unat n) e), e))),
     gp_hipMemset = (\<lambda>p c n. State (\<lambda>e. ((), pokes (pr_memory http_process) p (replicate (unat n) c) e))),
     gp_hipDeviceSynchronize = State_Monad.return (), gp_pagesize = State_Monad.return 4096,
     gp_new = (\<lambda>n al. State_Monad.return 8192), gp_delete = (\<lambda>p al. State_Monad.return ()),
     gp_openOutput = State_Monad.return True, gp_writeOutput = (\<lambda>_. State_Monad.return ())\<rparr>"

definition getput_app :: "memory_env app" where
  "getput_app =
    \<lparr>app_sys = \<lparr>sys_world = \<lparr>env = (\<lambda>_. NUL, []), log = [], serial = 0\<rparr>, instances = [], current = None, leasesHeld = 0,
       tokens = []\<rparr>,
     runtime = runtime sample_app, stats = stats sample_app\<rparr>"

lemma getput_app_inv: "client_inv holds_nothing getput_app" "system_ok http_process"
proof -
  have "sys_inv holds_nothing (app_sys getput_app)"
    by (rule sys_inv_empty) (simp_all add: getput_app_def)
  then show "client_inv holds_nothing getput_app" "system_ok http_process"
    by (simp_all add: client_inv_def runtime_ok_def system_ok_def http_process_def) (simp add: getput_app_def sample_app_def)
qed

definition getput_argv :: "string list" where
  "getput_argv = [''minio-getput-rdma'', ''localhost'', ''access'', ''secret'', ''3'', ''host'']"

lemma getput_argv_size: "getputSize (argSpan 6 getput_argv) = Some 3" "\<not> getputGpu (argSpan 6 getput_argv)"
    "4 \<le> length (argSpan 6 getput_argv)"
  by code_simp+

text \<open>
  \<^verbatim>\<open>FirstMismatch\<close> returns the first offset at which the buffer differs from the pattern, and the buffer's size exactly when
  there is none.
\<close>

theorem FirstMismatch_exact:
  "FirstMismatch buf seed \<le> length buf \<and>
   take (FirstMismatch buf seed) buf = take (FirstMismatch buf seed) (FillPattern buf seed) \<and>
   (FirstMismatch buf seed = length buf \<longleftrightarrow> buf = FillPattern buf seed) \<and>
   (FirstMismatch buf seed = length buf \<or> buf ! FirstMismatch buf seed \<noteq> FillPattern buf seed ! FirstMismatch buf seed)"
proof -
  let ?k = "FirstMismatch buf seed"
  have spec: "?k \<le> length buf" "\<And>i. i < ?k \<Longrightarrow> buf ! i = patternChar i seed" "?k < length buf \<Longrightarrow> buf ! ?k \<noteq> patternChar ?k seed"
    using mismatchFrom_spec [of 0 buf seed] by (simp_all add: FirstMismatch_def)
  have nth: "\<And>i. i < length buf \<Longrightarrow> FillPattern buf seed ! i = patternChar i seed"
    using fillFrom_nth [of 0 buf seed] by (simp add: FillPattern_def)
  have "take ?k buf = take ?k (FillPattern buf seed)"
    using spec(1,2) nth by (intro nth_equalityI) simp_all
  moreover have "?k = length buf" if "buf = FillPattern buf seed"
    using that spec(1,3) nth by (metis le_neq_implies_less)
  moreover have "?k = length buf \<or> buf ! ?k \<noteq> FillPattern buf seed ! ?k"
    using spec(1,3) nth by (metis le_neq_implies_less)
  ultimately show ?thesis
    using spec(1) by (metis length_FillPattern take_all_iff order_refl)
qed

theorem FirstMismatch_exact_witness:
  "FirstMismatch ''ab'' 7 = 0 \<and> ''ab'' ! 0 \<noteq> FillPattern ''ab'' 7 ! 0"
proof -
  have "FirstMismatch ''ab'' 7 = 0"
    by code_simp
  then show ?thesis
    using FirstMismatch_exact [of "''ab''" 7] by simp
qed

text \<open>
  The 64-bit value from which the pattern takes its byte differs at any two offsets, and for any two seeds: nothing
  of the offset or the seed is lost before the last step.
\<close>

theorem pattern_words_distinct:
  "(patternWord x seed = patternWord y seed \<longleftrightarrow> x = y) \<and> (patternWord x seed = patternWord x seed' \<longleftrightarrow> seed = seed')"
  by (simp add: patternWord_eq times_eq [OF multiplier_inverses(1)] seed_eq)

text \<open>
  The program keeps the library's invariant, gives back every token and leaves the runtime's claim true, whichever way
  it ends.
\<close>

theorem getput_keeps_library:
  assumes "system_ok R" "client_inv H a"
  shows "wp (getputMain R G argc argv) (\<lambda>r a'. ends r \<longrightarrow> client_inv H a' \<and>
    leasesHeld (app_sys a') = leasesHeld (app_sys a) \<and> (\<exists>k. tokens (app_sys a') = tokens (app_sys a) @ replicate k None)) a"
  using obeysD [OF client.obeys_getputMain [of R H G argc argv], of a] assms
  by (auto simp: client_kept_def given_back_def elim!: wp_conseq)

theorem getput_keeps_library_witness:
  "wp (getputMain http_process getput_host 6 getput_argv) (\<lambda>r a'. ends r \<longrightarrow> client_inv holds_nothing a' \<and>
    leasesHeld (app_sys a') = leasesHeld (app_sys getput_app) \<and>
    (\<exists>k. tokens (app_sys a') = tokens (app_sys getput_app) @ replicate k None)) getput_app"
  by (rule getput_keeps_library [OF getput_app_inv(2,1)])

text \<open>
  When the program reports success, its counters show one PUT of the whole object and one GET, each over RDMA or over HTTP,
  so its line of statistics tells how the data moved. It relies on minio-cpp's check of the arguments keeping the buffer,
  and on a successful allocation not being null.
\<close>

theorem getput_success_is_counted:
  assumes "\<And>url access_key secret_key. validate_ok (gp_client G url access_key secret_key)"
    and "\<And>e. wp (gp_hipMalloc G n) (\<lambda>(err, p) _. err = hipSuccess \<longrightarrow> p \<noteq> nullptr) e"
    and "getputSize (argSpan argc argv) = Some n"
  shows "wp (getputMain R G argc argv) (\<lambda>r a'. r = Return 0 \<longrightarrow>
    (\<exists>t. (t = CountHttpPut n (stats a) \<or> t = CountRdmaPut n (stats a)) \<and>
       (stats a' = CountHttpGet n t \<or> (\<exists>m. 0 < m \<and> m \<le> n \<and> stats a' = CountRdmaGet m t)))) a"
proof -
  note body = settles_putAndGet [OF assms(1)]
  have alloc: "gives (\<lambda>(err, p). err = hipSuccess \<longrightarrow> p \<noteq> nullptr) (callHost (gp_hipMalloc G n))"
    by (auto simp: gives_def callHost_def wp_liftEnv_iff intro!: wp_conseq [OF assms(2)])
  have gpu: "settles (counted n t) (withGpuBuffer G n expected (putAndGet R G (gp_client G url k1 k2) url g n seed)) t"
    for expected url k1 k2 g seed t
    unfolding withGpuBuffer_def
    by (rule settles_bindO_of [OF stats_callHost alloc])
       (auto intro!: settles_rules body stats_callHost stats_buffers split: prod.splits)
  have host: "settles (counted n t) (withHostBuffer R G n expected (putAndGet R G (gp_client G url k1 k2) url g n seed)) t"
    for expected url k1 k2 g seed t
    unfolding withHostBuffer_def Let_def
    by (auto intro!: settles_rules body stats_callHost stats_buffers stats_rules)
  have "settles (counted n t) (getputMain R G argc argv) t" for t
    unfolding getputMain_def Let_def assms(3) option.case
    by (auto intro!: settles_bindO settles_return stats_callHost gpu host)
  then show ?thesis
    by (auto simp: settles_def counted_def put_once_def get_once_def elim!: wp_conseq)
qed

theorem getput_success_is_counted_witness:
  "wp (getputMain http_process getput_host 6 getput_argv) (\<lambda>r a'. r = Return 0 \<longrightarrow>
    (\<exists>t. (t = CountHttpPut 3 (stats getput_app) \<or> t = CountRdmaPut 3 (stats getput_app)) \<and>
       (stats a' = CountHttpGet 3 t \<or> (\<exists>m. 0 < m \<and> m \<le> 3 \<and> stats a' = CountRdmaGet m t)))) getput_app"
  by (rule getput_success_is_counted)
     (simp_all add: getput_argv_size validate_ok_def getput_host_def store_client_def)



end
