(* ===== verification/System_Platform.thy ===== *)
theory System_Platform
  imports Api
begin

text \<open>
  The platform the library runs on in production: \<^verbatim>\<open>SystemHip\<close> of \<^verbatim>\<open>src/common/hip-seam.cpp\<close>, the owning
  handle of \<^verbatim>\<open>src/common/dl-handle.h\<close>, the storage of \<^verbatim>\<open>src/common/no-destructor.h\<close>, and
  \<^verbatim>\<open>systemPlatform\<close> of \<^verbatim>\<open>src/state.cpp\<close>, which loads libibverbs on the first call that needs it.

  The theories before this one take a platform as an argument. Here the process is modelled, with
  its static platform and the libraries it has open, and \<^verbatim>\<open>hipObjInit\<close> builds the platform by itself. The HIP
  runtime, HSA and the dynamic loader stay parameters. The main result is that sequences of public
  calls in such a process open libibverbs once at most, keep it open as long as there is a
  platform, and keep the library's invariant with nothing assumed about the topology but that
  devices report fewer than 255 ports.
\<close>

subsection \<open>\<^verbatim>\<open>SystemHip\<close>\<close>

text \<open>
  The functions of the HIP runtime and of HSA that the library calls, with all their arguments. A
  stream is its handle, and \<^verbatim>\<open>hsa_status_t\<close> an unsigned enumeration.
\<close>

record 'e hip_api =
  hipGetDevice :: "('e, hipError_t \<times> int) state"
  hipGetDeviceCount :: "('e, hipError_t \<times> int) state"
  hipDeviceGetPCIBusId :: "int \<Rightarrow> int \<Rightarrow> ('e, hipError_t \<times> string) state"
  hipHostMalloc :: "size_t \<Rightarrow> u32 \<Rightarrow> ('e, hipError_t \<times> addr) state"
  hipHostFree :: "addr \<Rightarrow> ('e, hipError_t) state"
  hipDeviceSynchronize :: "('e, hipError_t) state"
  hipMemcpyAsync :: "addr \<Rightarrow> addr \<Rightarrow> size_t \<Rightarrow> hipMemcpyKind \<Rightarrow> addr \<Rightarrow> ('e, hipError_t) state"
  hipEventCreate :: "('e, hipError_t \<times> addr) state"
  hipEventRecord :: "addr \<Rightarrow> addr \<Rightarrow> ('e, hipError_t) state"
  hipEventQuery :: "addr \<Rightarrow> ('e, hipError_t) state"
  hipEventDestroy :: "addr \<Rightarrow> ('e, hipError_t) state"
  hipPointerGetAttributes :: "addr \<Rightarrow> ('e, hipError_t \<times> hipMemoryType) state"
  hipMemGetAddressRange :: "addr \<Rightarrow> ('e, hipError_t \<times> addr \<times> size_t) state"
  hsa_amd_portable_export_dmabuf :: "addr \<Rightarrow> size_t \<Rightarrow> ('e, u32 \<times> int \<times> u64) state"
  hsa_amd_portable_close_dmabuf :: "int \<Rightarrow> ('e, u32) state"

definition SystemHip_hostMalloc :: "'e hip_api \<Rightarrow> size_t \<Rightarrow> u32 \<Rightarrow> ('e, hipError_t \<times> addr) state" where
  "SystemHip_hostMalloc A n_bytes flags = hipHostMalloc A n_bytes flags"

definition SystemHip_memcpyAsync ::
  "'e hip_api \<Rightarrow> addr \<Rightarrow> addr \<Rightarrow> size_t \<Rightarrow> hipMemcpyKind \<Rightarrow> addr \<Rightarrow> ('e, hipError_t) state" where
  "SystemHip_memcpyAsync A dst src n_bytes kind stream = hipMemcpyAsync A dst src n_bytes kind stream"

definition SystemHip_eventRecord :: "'e hip_api \<Rightarrow> addr \<Rightarrow> addr \<Rightarrow> ('e, hipError_t) state" where
  "SystemHip_eventRecord A ev stream = hipEventRecord A ev stream"

text \<open>\<^verbatim>\<open>static_cast<int>\<close> of a 32-bit enumeration reads it as a signed number.\<close>

definition SystemHip_exportDmabuf :: "'e hip_api \<Rightarrow> addr \<Rightarrow> size_t \<Rightarrow> ('e, int \<times> int \<times> u64) state" where
  "SystemHip_exportDmabuf A p n_bytes = do {
     (status, fd, off) \<leftarrow> hsa_amd_portable_export_dmabuf A p n_bytes;
     State_Monad.return (sint status, fd, off)
   }"

definition SystemHip_closeDmabuf :: "'e hip_api \<Rightarrow> int \<Rightarrow> ('e, int) state" where
  "SystemHip_closeDmabuf A fd = do {
     status \<leftarrow> hsa_amd_portable_close_dmabuf A fd;
     State_Monad.return (sint status)
   }"

text \<open>
  The library allocates with \<^verbatim>\<open>hipHostMallocDefault\<close>, and copies and records on \<^verbatim>\<open>hipStreamPerThread\<close>, a handle
  that HIP reserves; the seam's record leaves these arguments out.
\<close>

definition hipHostMallocDefault :: u32 where "hipHostMallocDefault = 0"
definition hipStreamPerThread :: addr where "hipStreamPerThread = 2"

definition SystemHip :: "'e hip_api \<Rightarrow> 'e HipRuntime" where
  "SystemHip A =
    \<lparr>hip_getDevice = hipGetDevice A,
     hip_getDeviceCount = hipGetDeviceCount A,
     hip_deviceGetPCIBusId = (\<lambda>len device. hipDeviceGetPCIBusId A len device),
     hip_hostMalloc = (\<lambda>n. SystemHip_hostMalloc A n hipHostMallocDefault),
     hip_hostFree = hipHostFree A,
     hip_deviceSynchronize = hipDeviceSynchronize A,
     hip_memcpyAsync = (\<lambda>dst src n kind. SystemHip_memcpyAsync A dst src n kind hipStreamPerThread),
     hip_eventCreate = hipEventCreate A,
     hip_eventRecord = (\<lambda>ev. SystemHip_eventRecord A ev hipStreamPerThread),
     hip_eventQuery = hipEventQuery A,
     hip_eventDestroy = hipEventDestroy A,
     hip_pointerGetAttributes = hipPointerGetAttributes A,
     hip_memGetAddressRange = hipMemGetAddressRange A,
     hip_exportDmabuf = SystemHip_exportDmabuf A,
     hip_closeDmabuf = SystemHip_closeDmabuf A\<rparr>"

text \<open>The cast of the status keeps success and failure apart.\<close>

lemma hsa_status_zero: "sint (status :: u32) = 0 \<longleftrightarrow> status = 0"
  by (metis signed_0 signed_word_eqI)

lemma exportDmabuf_succeeds:
  "fst (fst (run_state (hip_exportDmabuf (SystemHip A) p n) e)) = 0 \<longleftrightarrow>
   fst (fst (run_state (hsa_amd_portable_export_dmabuf A p n) e)) = 0"
  by (simp add: SystemHip_def SystemHip_exportDmabuf_def hsa_status_zero split: prod.splits)

subsection \<open>Static objects\<close>

text \<open>
  A function-local static: the first call builds the value and every call returns it. Held in a
  \<^verbatim>\<open>NoDestructor\<close>, it is never destroyed, so nothing ever takes it back.
\<close>

definition static_local :: "('s \<Rightarrow> 'a option) \<Rightarrow> ('a \<Rightarrow> 's \<Rightarrow> 's) \<Rightarrow> ('s, 'a) state \<Rightarrow> ('s, 'a) state" where
  "static_local value_of store build = do {
     s \<leftarrow> State_Monad.get;
     case value_of s of
       Some v \<Rightarrow> State_Monad.return v
     | None \<Rightarrow> do {
         v \<leftarrow> build;
         s' \<leftarrow> State_Monad.get;
         _ \<leftarrow> State_Monad.set (store v s');
         State_Monad.return v
       }
   }"

locale static_object =
  fixes value_of :: "'s \<Rightarrow> 'a option" and store :: "'a \<Rightarrow> 's \<Rightarrow> 's" and build :: "('s, 'a) state"
  assumes value_of_store [simp]: "value_of (store v s) = Some v"
begin

lemma static_same: "value_of s = Some v \<Longrightarrow> run_state (static_local value_of store build) s = (v, s)"
  by (simp add: static_local_def State_Monad.bind_def State_Monad.get_def State_Monad.return_def)

lemma wp_static:
  assumes "\<And>v. value_of s = Some v \<Longrightarrow> Q v s" "value_of s = None \<Longrightarrow> wp build (\<lambda>v s'. Q v (store v s')) s"
  shows "wp (static_local value_of store build) Q s"
  using assms(1) by (auto simp: static_local_def split: option.splits intro!: wp_conseq [OF assms(2)])

lemma static_built: "wp (static_local value_of store build) (\<lambda>v s'. value_of s' = Some v) s"
  by (rule wp_static) (auto simp: wp_def split: prod.splits)

end

subsection \<open>The process\<close>

text \<open>
  What the process runs on: the dynamic loader, which gives a handle and what the library has for each
  symbol, the provider's entry, sysfs, HIP, the clock.
\<close>

record 'e host =
  dlopen :: "string \<Rightarrow> ('e, (nat \<times> 'e Libibverbs) option) state"
  dlclose :: "nat \<Rightarrow> ('e, int) state"
  ops_poll_cq :: "ibv_cq \<Rightarrow> ('e, int \<times> ibv_wc) state"
  sysfs :: "'e Sysfs"
  hip_functions :: "'e hip_api"
  host_now :: "('e, int) state"
  host_sleep :: "int \<Rightarrow> ('e, unit) state"

text \<open>The process counts what it asked the loader for, and keeps the handles it has not closed.\<close>

record 'e process =
  proc_sys :: "'e sys"
  platform_static :: "'e Platform option option"
  open_handles :: "nat list"
  opens :: nat

definition onSys :: "('e sys, 'a) state \<Rightarrow> ('e process, 'a) state" where
  "onSys m = State (\<lambda>p. case run_state m (proc_sys p) of (a, s) \<Rightarrow> (a, p\<lparr>proc_sys := s\<rparr>))"

definition onEnv :: "('e, 'a) state \<Rightarrow> ('e process, 'a) state" where
  "onEnv m = onSys (liftW (liftE m))"

definition open_libibverbs :: "'e host \<Rightarrow> ('e process, (nat \<times> 'e Libibverbs) option) state" where
  "open_libibverbs N = do {
     r \<leftarrow> onEnv (dlopen N ''libibverbs.so.1'');
     p \<leftarrow> State_Monad.get;
     _ \<leftarrow> State_Monad.set (p\<lparr>opens := opens p + 1,
            open_handles := (case r of None \<Rightarrow> open_handles p | Some (h, L) \<Rightarrow> open_handles p @ [h])\<rparr>);
     State_Monad.return r
   }"

definition DlCloseDeleter :: "'e host \<Rightarrow> nat \<Rightarrow> ('e process, unit) state" where
  "DlCloseDeleter N h = do {
     _ \<leftarrow> onEnv (dlclose N h);
     p \<leftarrow> State_Monad.get;
     State_Monad.set (p\<lparr>open_handles := remove1 h (open_handles p)\<rparr>)
   }"

text \<open>
  \<^verbatim>\<open>loadLibibverbs\<close> with its handle: a library that lacks a symbol is closed again, and otherwise the
  handle is the \<^verbatim>\<open>LoadedVerbs\<close>'s, which lives as long as the platform.
\<close>

definition loadLibibverbsHere :: "'e host \<Rightarrow> ('e process, 'e Verbs option) state" where
  "loadLibibverbsHere N = do {
     library \<leftarrow> open_libibverbs N;
     case library of
       None \<Rightarrow> State_Monad.return None
     | Some (h, L) \<Rightarrow> (case load_functions L of
           Inl _ \<Rightarrow> do { _ \<leftarrow> DlCloseDeleter N h; State_Monad.return None }
         | Inr F \<Rightarrow> State_Monad.return (Some (LoadedVerbs (ops_poll_cq N) F)))
   }"

definition SystemPlatform :: "'e host \<Rightarrow> 'e Verbs \<Rightarrow> 'e Platform" where
  "SystemPlatform N V =
    \<lparr>hip = SystemHip (hip_functions N), verbs = V, topology = SysfsTopology V (sysfs N),
     steady_now = host_now N, sleep_for = host_sleep N\<rparr>"

definition makeSystemPlatformHere :: "'e host \<Rightarrow> ('e process, 'e Platform option) state" where
  "makeSystemPlatformHere N = do {
     loaded \<leftarrow> loadLibibverbsHere N;
     State_Monad.return (map_option (SystemPlatform N) loaded)
   }"

definition systemPlatform :: "'e host \<Rightarrow> ('e process, 'e Platform option) state" where
  "systemPlatform N = static_local platform_static (\<lambda>v p. p\<lparr>platform_static := Some v\<rparr>) (makeSystemPlatformHere N)"

interpretation platform: static_object platform_static "\<lambda>v p. p\<lparr>platform_static := Some v\<rparr>" "makeSystemPlatformHere N" for N
  by unfold_locales simp

text \<open>\<^verbatim>\<open>hipObjInit\<close>, asking for the platform only once the arguments are accepted and there is no instance.\<close>

definition hipObjInitHere ::
  "'e host \<Rightarrow> EnvLookup \<Rightarrow> hipObjConfig_t option \<Rightarrow> ('e process, hipObjError_t outcome) state" where
  "hipObjInitHere N getenv config = catchO
     (case config of
        None \<Rightarrow> State_Monad.return (Return (mkError hipObjInvalidValue))
      | Some c \<Rightarrow>
          if config_flags c \<noteq> 0 \<or> config_gpuDevice c < -1
          then State_Monad.return (Return (mkError hipObjInvalidValue))
          else do {
            already \<leftarrow> onSys isInitialized;
            if already then State_Monad.return (Return (mkError hipObjAlreadyInitialized))
            else do {
              system \<leftarrow> systemPlatform N;
              case system of
                None \<Rightarrow> State_Monad.return (Return (mkError hipObjRdmaError))
              | Some P \<Rightarrow> liftO (onSys (initWith P c (parseOptions getenv)))
            }
          }) kExceptionError"

text \<open>
  The calls of an application. Every function but \<^verbatim>\<open>hipObjInit\<close> uses the platform of the instance; without one
  it uses none, so what \<open>platform_of\<close> gives then does not matter.
\<close>

datatype 'e process_call = InitHere EnvLookup "hipObjConfig_t option" | Call "'e api_call"

definition platform_of :: "'e host \<Rightarrow> 'e Verbs \<Rightarrow> 'e process \<Rightarrow> 'e Platform" where
  "platform_of N V p = (case platform_static p of Some (Some P) \<Rightarrow> P | _ \<Rightarrow> SystemPlatform N V)"

fun runHere :: "'e host \<Rightarrow> 'e Verbs \<Rightarrow> build_config \<Rightarrow> nat \<Rightarrow> 'e process_call \<Rightarrow> ('e process, hipObjError_t outcome) state" where
  "runHere N V B fuel (InitHere getenv config) = hipObjInitHere N getenv config"
| "runHere N V B fuel (Call c) = do {
     p \<leftarrow> State_Monad.get;
     onSys (runCall B fuel (platform_of N V p) c)
   }"

fun runAllHere ::
  "'e host \<Rightarrow> 'e Verbs \<Rightarrow> build_config \<Rightarrow> nat \<Rightarrow> 'e process_call list \<Rightarrow> ('e process, hipObjError_t list outcome) state" where
  "runAllHere N V B fuel [] = State_Monad.return (Return [])"
| "runAllHere N V B fuel (c # cs) =
     bindO (runHere N V B fuel c) (\<lambda>r. bindO (runAllHere N V B fuel cs) (\<lambda>rs. State_Monad.return (Return (r # rs))))"

subsection \<open>Running in the process\<close>

lemma wp_onSys [simp]: "wp (onSys m) Q p \<longleftrightarrow> wp m (\<lambda>a s. Q a (p\<lparr>proc_sys := s\<rparr>)) (proc_sys p)"
  by (simp add: wp_def onSys_def split: prod.splits)

text \<open>A call into the loader changes nothing of the library but the environment.\<close>

definition same_but_env :: "'e sys \<Rightarrow> 'e sys \<Rightarrow> bool" where
  "same_but_env s s' \<longleftrightarrow> (\<exists>e. s' = s\<lparr>sys_world := (sys_world s)\<lparr>env := e\<rparr>\<rparr>)"

lemma same_but_env_refl [simp]: "same_but_env s s"
  unfolding same_but_env_def by (rule exI [of _ "env (sys_world s)"]) simp

lemma same_but_env_trans: "same_but_env s s' \<Longrightarrow> same_but_env s' s'' \<Longrightarrow> same_but_env s s''"
  by (auto simp: same_but_env_def)

lemma sys_inv_same_but_env: "same_but_env s s' \<Longrightarrow> sys_inv H s \<Longrightarrow> sys_inv H s'"
  by (auto simp: same_but_env_def intro!: sys_inv_world)

lemma wp_onEnv:
  assumes "\<And>a e' s'. run_state m (env (sys_world (proc_sys p))) = (a, e') \<Longrightarrow> same_but_env (proc_sys p) s' \<Longrightarrow>
             Q a (p\<lparr>proc_sys := s'\<rparr>)"
  shows "wp (onEnv m) Q p"
  using assms unfolding onEnv_def by (auto simp: wp_liftE_iff same_but_env_def split: prod.splits)

text \<open>
  The platform that the process builds is \<^const>\<open>makeSystemPlatform\<close> of what the loader found, and once it is built, initializing
  the library is \<^const>\<open>hipObjInit\<close> with it as its argument.
\<close>

lemma makeSystemPlatformHere_value:
  "wp (makeSystemPlatformHere N) (\<lambda>v p'. \<exists>lib. v = makeSystemPlatform lib (ops_poll_cq N) (SystemHip (hip_functions N))
     (sysfs N) (host_now N) (host_sleep N)) p"
proof -
  have none: "\<exists>lib. None = makeSystemPlatform lib ops H S now sleep" for ops H S now sleep
    by (rule exI [of _ None]) (simp add: makeSystemPlatform_def loadLibibverbs_def)
  have some: "load_functions L = Inr F \<Longrightarrow> \<exists>lib. Some (SystemPlatform N (LoadedVerbs (ops_poll_cq N) F)) =
      makeSystemPlatform lib (ops_poll_cq N) (SystemHip (hip_functions N)) (sysfs N) (host_now N) (host_sleep N)" for L F
    by (rule exI [of _ "Some L"]) (simp add: makeSystemPlatform_def loadLibibverbs_def SystemPlatform_def)
  show ?thesis
    unfolding makeSystemPlatformHere_def loadLibibverbsHere_def open_libibverbs_def DlCloseDeleter_def
    by (auto simp: none some intro!: wp_onEnv split: option.splits sum.splits)
qed

lemma hipObjInitHere_built:
  assumes "platform_static p = Some v"
  shows "run_state (hipObjInitHere N getenv config) p = run_state (onSys (hipObjInit v getenv config)) p"
proof -
  have "run_state (systemPlatform N) p = (v, p)"
    unfolding systemPlatform_def by (rule platform.static_same [OF assms])
  then show ?thesis
    by (auto simp: hipObjInitHere_def hipObjInit_def catchO_def liftO_def onSys_def isInitialized_def State_Monad.bind_def
        State_Monad.return_def State_Monad.get_def split: option.splits prod.splits)
qed

text \<open>
  Every library the loader can give reports fewer than 255 ports for its devices, so that enumerating them
  comes to an end (theory \<^verbatim>\<open>Topology\<close>).
\<close>

definition host_ok :: "'e host \<Rightarrow> bool" where
  "host_ok N \<longleftrightarrow> (\<forall>nm e h L F e'. run_state (dlopen N nm) e = (Some (h, L), e') \<longrightarrow> load_functions L = Inr F \<longrightarrow>
     ports_countable (LoadedVerbs (ops_poll_cq N) F))"

text \<open>
  The library's invariant, and the platform's: libibverbs was opened once if the platform was asked for, is open if and
  only if there is a platform, and an instance needs a platform.
\<close>

definition process_inv :: "'e process \<Rightarrow> bool" where
  "process_inv p \<longleftrightarrow> sys_inv holds_nothing (proc_sys p) \<and>
     (case platform_static p of
        None \<Rightarrow> opens p = 0 \<and> open_handles p = [] \<and> current (proc_sys p) = None
      | Some None \<Rightarrow> opens p = 1 \<and> open_handles p = [] \<and> current (proc_sys p) = None
      | Some (Some P) \<Rightarrow> opens p = 1 \<and> length (open_handles p) = 1 \<and> topology_ok (topology P))"

lemma current_same_but_env: "same_but_env s s' \<Longrightarrow> current s' = current s"
  by (auto simp: same_but_env_def)

lemma host_okD:
  "host_ok N \<Longrightarrow> run_state (dlopen N nm) e = (Some (h, L), e') \<Longrightarrow> load_functions L = Inr F \<Longrightarrow>
   topology_ok (topology (SystemPlatform N (LoadedVerbs (ops_poll_cq N) F)))"
  unfolding host_ok_def SystemPlatform_def by (simp, rule SysfsTopology_ok) blast

lemma wp_systemPlatform:
  assumes "host_ok N" "process_inv p" "current (proc_sys p) = None"
  shows "wp (systemPlatform N) (\<lambda>v p'. process_inv p' \<and> platform_static p' = Some v \<and>
           current (proc_sys p') = None \<and> leasesHeld (proc_sys p') = leasesHeld (proc_sys p)) p"
proof -
  have leases: "leasesHeld s' = leasesHeld s" if "same_but_env s s'" for s s' :: "'a sys"
    using that by (auto simp: same_but_env_def)
  show ?thesis
    unfolding systemPlatform_def
  proof (rule platform.wp_static)
    assume "platform_static p = None"
    with assms show "wp (makeSystemPlatformHere N) (\<lambda>v p'.
        process_inv (p'\<lparr>platform_static := Some v\<rparr>) \<and> platform_static (p'\<lparr>platform_static := Some v\<rparr>) = Some v \<and>
        current (proc_sys (p'\<lparr>platform_static := Some v\<rparr>)) = None \<and>
        leasesHeld (proc_sys (p'\<lparr>platform_static := Some v\<rparr>)) = leasesHeld (proc_sys p)) p"
      unfolding makeSystemPlatformHere_def loadLibibverbsHere_def open_libibverbs_def DlCloseDeleter_def
      by (auto simp: process_inv_def current_same_but_env leases
          intro!: wp_onEnv split: option.splits sum.splits)
        (blast dest: sys_inv_same_but_env host_okD [OF assms(1)])+
  qed (use assms in auto)
qed

text \<open>What one call needs to be allowed: callbacks that keep the library's invariant, and no platform of its own.\<close>

fun here_allowed :: "'e process_call \<Rightarrow> bool" where
  "here_allowed (InitHere getenv config) \<longleftrightarrow> True"
| "here_allowed (Call (Init system getenv config)) \<longleftrightarrow> False"
| "here_allowed (Call c) \<longleftrightarrow> call_allowed c"

definition here_kept :: "'e process \<Rightarrow> 'a outcome \<Rightarrow> 'e process \<Rightarrow> bool" where
  "here_kept p r p' \<longleftrightarrow> r \<noteq> Throw \<and> (ends r \<longrightarrow> process_inv p' \<and> leasesHeld (proc_sys p') = leasesHeld (proc_sys p)) \<and>
     (r = Block \<longrightarrow> leasesHeld (proc_sys p) = 0)"

lemma wp_hipObjInitHere:
  assumes "host_ok N" "process_inv p"
  shows "wp (hipObjInitHere N getenv config) (here_kept p) p"
proof -
  have here: "here_kept p (Return r) p" for r :: hipObjError_t
    using assms(2) by (simp add: here_kept_def)
  have init: "wp (liftO (onSys (initWith P c opts))) (here_kept p) p'"
    if "process_inv p'" "platform_static p' = Some (Some P)" "leasesHeld (proc_sys p') = leasesHeld (proc_sys p)" for P c opts p'
    using that by (auto simp: process_inv_def here_kept_def intro!: wp_conseq [OF wp_initWith [where H = holds_nothing]])
  have "wp (do { system \<leftarrow> systemPlatform N;
              case system of
                None \<Rightarrow> State_Monad.return (Return (mkError hipObjRdmaError))
              | Some P \<Rightarrow> liftO (onSys (initWith P c opts)) }) (here_kept p) p"
    if "current (proc_sys p) = None" for c opts
    by (rule wp_bindI [OF wp_systemPlatform [OF assms that]]) (auto simp: here_kept_def [of p "Return _"] simp del: wp_liftO intro!: init split: option.splits)
  then show ?thesis
    unfolding hipObjInitHere_def
    by (intro wp_catchO [where P = "here_kept p"])
       (auto simp: here isInitialized_def here_kept_def [of p Throw] simp del: wp_liftO split: option.splits)
qed

text \<open>Without an instance no call makes one, and none needs a platform.\<close>

lemma wp_call_uninitialized:
  assumes "current s = None" "sys_inv holds_nothing s" "here_allowed (Call c)"
  shows "wp (runCall B fuel P c) (\<lambda>r s'. current s' = None) s"
proof (cases "needs_instance c")
  case True
  then show ?thesis
    using uninitialized_calls [OF assms(1) True] assms(1) by (simp add: wp_def)
next
  case False
  then show ?thesis
    using assms
    by (cases c) (auto simp: hipObjShutdown_def hipObjPutRdmaToken_def catchO_def wp_return_fun wp_bind_fun
        intro!: wp_conseq [OF wp_shutdownInstance [where H = holds_nothing]] split: option.splits)
qed

lemma wp_runHere:
  assumes "host_ok N" "process_inv p" "here_allowed c"
  shows "wp (runHere N V B fuel c) (here_kept p) p"
proof (cases c)
  case (Call d)
  have allowed: "call_allowed d"
    using assms(3) Call by (cases d) auto
  have inv: "sys_inv holds_nothing (proc_sys p)"
    using assms(2) by (simp add: process_inv_def)
  have kept: "wp (runCall B fuel P d) (\<lambda>r s'. kept holds_nothing (proc_sys p) r s' \<and> r \<noteq> Throw) (proc_sys p)" for P
    by (rule wp_conj [OF keepsD [OF runCall_keeps [OF allowed] TrueI inv] nothrowD [OF runCall_nothrow]])
  have uninit: "wp (runCall B fuel P d) (\<lambda>r s'. current s' = None) (proc_sys p)" if "current (proc_sys p) = None" for P
    using wp_call_uninitialized [OF that inv] assms(3) Call by blast
  show ?thesis
  proof (cases "current (proc_sys p) = None")
    case True
    show ?thesis
      unfolding Call using assms(2)
      by (auto simp: here_kept_def kept_def process_inv_def intro!: wp_conseq [OF wp_conj [OF kept uninit [OF True]]]
          split: option.splits)
  next
    case False
    then show ?thesis
      unfolding Call using assms(2)
      by (auto simp: here_kept_def kept_def process_inv_def intro!: wp_conseq [OF kept] split: option.splits)
  qed
qed (use wp_hipObjInitHere [OF assms(1,2)] in simp)

lemma wp_runAllHere:
  assumes "host_ok N" "process_inv p" "list_all here_allowed cs"
  shows "wp (runAllHere N V B fuel cs) (here_kept p) p"
  using assms(2,3)
proof (induction cs arbitrary: p)
  case (Cons c cs)
  have IH: "wp (runAllHere N V B fuel cs) (here_kept p) p'"
    if "process_inv p'" "leasesHeld (proc_sys p') = leasesHeld (proc_sys p)" for p'
    using Cons.prems that by (auto simp: here_kept_def intro!: wp_conseq [OF Cons.IH [OF that(1)]])
  show ?case
    unfolding runAllHere.simps
    by (rule wp_bindO [OF wp_runHere [OF assms(1) Cons.prems(1)]])
      (use Cons.prems in \<open>auto simp: here_kept_def intro!: wp_bindO [OF IH]\<close>)
qed (simp add: here_kept_def)

lemma wp_calls_load_nothing:
  "wp (runAllHere N V B fuel cs) (\<lambda>r p'. list_all (\<lambda>c. \<exists>d. c = Call d) cs \<longrightarrow> opens p' = opens p) p"
proof (cases "list_all (\<lambda>c. \<exists>d. c = Call d) cs")
  case True
  then have "wp (runAllHere N V B fuel cs) (\<lambda>r p'. opens p' = opens p) p"
  proof (induction cs arbitrary: p)
    case (Cons c cs)
    have "wp (runHere N V B fuel c) (\<lambda>r p'. opens p' = opens p) p"
      using Cons.prems by (auto intro: wp_conseq [OF wp_any])
    moreover have "wp (runAllHere N V B fuel cs) (\<lambda>r p''. opens p'' = opens p) p'" if "opens p' = opens p" for p'
      using Cons.IH [of p'] Cons.prems that by simp
    ultimately show ?case
      unfolding runAllHere.simps by (auto intro!: wp_bindO [where P = "\<lambda>r p'. opens p' = opens p"])
  qed simp
  then show ?thesis
    by (rule wp_conseq) simp
qed (auto intro: wp_conseq [OF wp_any])

subsection \<open>Properties\<close>

text \<open>C4. In a process that builds its platform from what the system has, every sequence of public calls that comes back
  has opened libibverbs once at most, and not at all when the application never initialized the library; a
  library that could not be used is closed again, an instance has a platform, and then libibverbs stays open; and the
  library's invariant holds, with no exception let out and no wait while the thread holds a lease.\<close>

theorem process_opens_libibverbs_once:
  assumes "host_ok N" "list_all here_allowed cs"
    and "sys_inv holds_nothing (proc_sys p)" "current (proc_sys p) = None"
    and "platform_static p = None" "opens p = 0" "open_handles p = []"
  shows "wp (runAllHere N V B fuel cs) (\<lambda>r p'. r \<noteq> Throw \<and> (r = Block \<longrightarrow> leasesHeld (proc_sys p) = 0) \<and>
           (ends r \<longrightarrow> sys_inv holds_nothing (proc_sys p') \<and> opens p' \<le> 1 \<and>
             length (open_handles p') = (if \<exists>P. platform_static p' = Some (Some P) then 1 else 0) \<and>
             (current (proc_sys p') \<noteq> None \<longrightarrow> (\<exists>P. platform_static p' = Some (Some P))) \<and>
             (list_all (\<lambda>c. \<exists>d. c = Call d) cs \<longrightarrow> opens p' = 0))) p"
proof -
  have inv: "process_inv p"
    using assms by (simp add: process_inv_def)
  show ?thesis
    by (rule wp_conseq [OF wp_conj [OF wp_runAllHere [OF assms(1) inv assms(2)] wp_calls_load_nothing]])
      (use assms(6) in \<open>auto simp: here_kept_def process_inv_def split: option.splits\<close>)
qed

text \<open>A process on the sample device: the loader finds a libibverbs whose functions are those of the sample seam.\<close>

definition sample_libibverbs :: "int Libibverbs" where
  "sample_libibverbs =
    \<lparr>sym_get_device_list = Some (v_get_device_list sample_verbs), sym_free_device_list = Some (v_free_device_list sample_verbs),
     sym_open_device = Some (v_open_device sample_verbs), sym_close_device = Some (v_close_device sample_verbs),
     sym_get_device_name = Some (v_get_device_name sample_verbs), sym_query_device = Some (v_query_device sample_verbs),
     sym_query_port = Some (v_query_port sample_verbs), sym_query_gid = Some (v_query_gid sample_verbs),
     sym_alloc_pd = Some (v_alloc_pd sample_verbs), sym_dealloc_pd = Some (v_dealloc_pd sample_verbs),
     sym_reg_dmabuf_mr = None, sym_reg_mr_iova2 = Some (\<lambda>pd a n iova acc. v_reg_mr sample_verbs pd a n acc),
     sym_dereg_mr = Some (v_dereg_mr sample_verbs), sym_create_cq = Some (v_create_cq sample_verbs),
     sym_destroy_cq = Some (v_destroy_cq sample_verbs), sym_create_qp = Some (v_create_qp sample_verbs),
     sym_modify_qp = Some (v_modify_qp sample_verbs), sym_destroy_qp = Some (v_destroy_qp sample_verbs),
     sym_poll_cq = None, sym_post_send = None\<rparr>"

definition sample_hip_api :: "int hip_api" where
  "sample_hip_api =
    \<lparr>hipGetDevice = hip_getDevice sample_hip, hipGetDeviceCount = hip_getDeviceCount sample_hip,
     hipDeviceGetPCIBusId = hip_deviceGetPCIBusId sample_hip, hipHostMalloc = (\<lambda>n flags. hip_hostMalloc sample_hip n),
     hipHostFree = hip_hostFree sample_hip, hipDeviceSynchronize = hip_deviceSynchronize sample_hip,
     hipMemcpyAsync = (\<lambda>dst src n kind stream. hip_memcpyAsync sample_hip dst src n kind),
     hipEventCreate = hip_eventCreate sample_hip, hipEventRecord = (\<lambda>ev stream. hip_eventRecord sample_hip ev),
     hipEventQuery = hip_eventQuery sample_hip, hipEventDestroy = hip_eventDestroy sample_hip,
     hipPointerGetAttributes = hip_pointerGetAttributes sample_hip,
     hipMemGetAddressRange = hip_memGetAddressRange sample_hip,
     hsa_amd_portable_export_dmabuf = (\<lambda>p n. State_Monad.return (0, 5, 0)),
     hsa_amd_portable_close_dmabuf = (\<lambda>fd. State_Monad.return 0)\<rparr>"

definition sample_host :: "int host" where
  "sample_host =
    \<lparr>dlopen = (\<lambda>nm. State_Monad.return (Some (3, sample_libibverbs))), dlclose = (\<lambda>h. State_Monad.return 0),
     ops_poll_cq = v_poll_cq sample_verbs,
     sysfs = \<lparr>canonical_filename = (\<lambda>p. State_Monad.return None), file_contents = (\<lambda>p. State_Monad.return None)\<rparr>,
     hip_functions = sample_hip_api, host_now = steady_now sample_platform, host_sleep = sleep_for sample_platform\<rparr>"

definition sample_process :: "int process" where
  "sample_process = \<lparr>proc_sys = sample_sys, platform_static = None, open_handles = [], opens = 0\<rparr>"

definition sample_here :: "int process_call list" where
  "sample_here = [Call (BufRegister 8192 1024), InitHere sample_lookup (Some sample_config),
     Call (BufRegister 8192 1024), Call (Get 8192 1024 0 (Some reentrant_ops)), Call Shutdown,
     InitHere sample_lookup (Some sample_config)]"

lemma load_sample_query: "load_functions sample_libibverbs = Inr F \<Longrightarrow> fn_query_device F = v_query_device sample_verbs"
  by (auto simp: load_functions_def sample_libibverbs_def dlsym_load_def)

lemma sample_host_ok: "host_ok sample_host"
  unfolding host_ok_def
  by (auto simp: sample_host_def ports_countable_def LoadedVerbs_def load_sample_query sample_verbs_def
      State_Monad.return_def)

theorem process_opens_libibverbs_once_witness:
  "wp (runAllHere sample_host sample_verbs sample_build 10 sample_here) (\<lambda>r p'. r \<noteq> Throw \<and>
     (r = Block \<longrightarrow> leasesHeld sample_sys = 0) \<and>
     (ends r \<longrightarrow> sys_inv holds_nothing (proc_sys p') \<and> opens p' \<le> 1 \<and>
       length (open_handles p') = (if \<exists>P. platform_static p' = Some (Some P) then 1 else 0) \<and>
       (current (proc_sys p') \<noteq> None \<longrightarrow> (\<exists>P. platform_static p' = Some (Some P))) \<and>
       (list_all (\<lambda>c. \<exists>d. c = Call d) sample_here \<longrightarrow> opens p' = 0))) sample_process"
  using process_opens_libibverbs_once [OF sample_host_ok, of sample_here sample_process sample_verbs sample_build 10]
  by (simp add: sample_here_def sample_process_def sample_sys_inv sample_sys_def [THEN arg_cong [of _ _ current]] reentrant_ops_ok)

end
