(* ===== verification/Curl_Ops.thy ===== *)
theory Curl_Ops
  imports Api
begin

text \<open>
  The S3 callbacks of the example programs, from \<^verbatim>\<open>examples/s3_curl_ops.h\<close> and \<^verbatim>\<open>s3_curl_ops.cpp\<close>: a request that
  carries the token, sent with libcurl, and the reply that its response headers carry.

  libcurl is a record of parameters: performing a request gives the header lines that libcurl hands to the
  header callback, in order, and whether it returned \<^verbatim>\<open>CURLE_OK\<close>. The context's \<^verbatim>\<open>lastReply\<close> is memory of the
  application, read and written through two functions on the environment; it is modelled as the C string that it holds.
\<close>

subsection \<open>Data\<close>

record hipObjS3CurlCtx =
  cc_endpoint :: "string option"
  cc_bucket :: "string option"
  cc_object :: "string option"
  cc_accessKey :: "string option"
  cc_secretKey :: "string option"
  cc_isPut :: int
  cc_objectSize :: size_t
  cc_devPtr :: addr

record 'e CurlLib =
  curl_easy_init :: "('e, bool) state"
  curl_easy_cleanup :: "('e, unit) state"
  curl_slist_append :: "string \<Rightarrow> ('e, bool) state"
  curl_slist_free_all :: "('e, unit) state"
  curl_easy_perform :: "string \<Rightarrow> string list \<Rightarrow> string \<Rightarrow> ('e, string list \<times> bool) state"
  curl_response_code :: "('e, int option) state"
  lastReply_get :: "'e \<Rightarrow> string"
  lastReply_set :: "string \<Rightarrow> 'e \<Rightarrow> 'e"

text \<open>The size of \<^verbatim>\<open>lastReply\<close>.\<close>

definition kLastReplyLen :: nat where "kLastReplyLen = 512"

subsection \<open>Headers\<close>

text \<open>The name of a header, up to its colon, in lower case.\<close>

definition lowerChar :: "char \<Rightarrow> char" where
  "lowerChar c = (if of_char (CHR ''A'') \<le> (of_char c :: nat) \<and> (of_char c :: nat) \<le> of_char (CHR ''Z'')
     then char_of (of_char c - of_char (CHR ''A'') + of_char (CHR ''a'') :: nat) else c)"

fun lowerName :: "string \<Rightarrow> string" where
  "lowerName [] = []"
| "lowerName (c # cs) = (let c' = lowerChar c in if c' = CHR '':'' then c' # cs else c' # lowerName cs)"

definition replyPrefix :: string where "replyPrefix = ''x-amz-rdma-reply:''"

definition isTrailing :: "char \<Rightarrow> bool" where
  "isTrailing c \<longleftrightarrow> c = CHR 0x0D \<or> c = CHR 0x0A \<or> c = CHR '' ''"

definition trimReply :: "string \<Rightarrow> string" where
  "trimReply val =
     (let val = rev (dropWhile isTrailing (rev val)) in dropWhile (\<lambda>c. c = CHR '' '') val)"

text \<open>What a header line leaves in \<^verbatim>\<open>lastReply\<close>.\<close>

definition headerCallback :: "string \<Rightarrow> string \<Rightarrow> string" where
  "headerCallback header lastReply =
     (let line = lowerName header in
      if take (length replyPrefix) line = replyPrefix
      then take (kLastReplyLen - 1) (cStringViewAll (trimReply (drop (length replyPrefix) line)))
      else lastReply)"

definition buildUrl :: "hipObjS3CurlCtx \<Rightarrow> string" where
  "buildUrl cfg =
     (let url = (case cc_endpoint cfg of None \<Rightarrow> ''http://127.0.0.1:9000'' | Some e \<Rightarrow> cStringViewAll e);
          url = (if url \<noteq> [] \<and> last url = CHR ''/'' then butlast url else url)
      in url @ ''/'' @ (case cc_bucket cfg of None \<Rightarrow> ''test'' | Some b \<Rightarrow> cStringViewAll b) @
         ''/'' @ (case cc_object cfg of None \<Rightarrow> ''object'' | Some obj \<Rightarrow> cStringViewAll obj))"

subsection \<open>The callbacks\<close>

definition responseCode :: "'e CurlLib \<Rightarrow> ('e sys, int) state" where
  "responseCode L = do {
     code \<leftarrow> liftEnv (curl_response_code L);
     State_Monad.return (case code of None \<Rightarrow> -1 | Some c \<Rightarrow> c)
   }"

definition getReply :: "'e CurlLib \<Rightarrow> ('e sys, string) state" where
  "getReply L = liftEnv (State (\<lambda>e. (lastReply_get L e, e)))"

definition updateReply :: "'e CurlLib \<Rightarrow> (string \<Rightarrow> string) \<Rightarrow> ('e sys, unit) state" where
  "updateReply L f = liftEnv (State (\<lambda>e. ((), lastReply_set L (f (lastReply_get L e)) e)))"

text \<open>A list that \<^verbatim>\<open>curl_slist_append\<close> cannot grow is left as it is, with its owner.\<close>

definition appendHeader :: "'e CurlLib \<Rightarrow> string \<Rightarrow> ('e sys, bool) state" where
  "appendHeader L header = liftEnv (curl_slist_append L header)"

text \<open>The request once its headers are there: what \<^verbatim>\<open>hipObjS3CurlSendRequest\<close> returns.\<close>

definition performRequest :: "'e CurlLib \<Rightarrow> hipObjS3CurlCtx \<Rightarrow> string list \<Rightarrow> ('e sys, int) state" where
  "performRequest L cfg headers = do {
     _ \<leftarrow> updateReply L (\<lambda>_. []);
     (lines, ok) \<leftarrow> liftEnv (curl_easy_perform L (buildUrl cfg) headers (if cc_isPut cfg \<noteq> 0 then ''PUT'' else ''GET''));
     _ \<leftarrow> updateReply L (fold headerCallback lines);
     httpCode \<leftarrow> (if ok then responseCode L else State_Monad.return (-1));
     if \<not> ok then State_Monad.return (-1)
     else if httpCode < 200 \<or> httpCode \<ge> 300 then State_Monad.return (-1)
     else do {
       reply \<leftarrow> getReply L;
       State_Monad.return (if reply = [] then -1 else 0)
     }
   }"

definition hipObjS3CurlSendRequest ::
  "'e CurlLib \<Rightarrow> hipObjS3CurlCtx option \<Rightarrow> string \<Rightarrow> ('e sys, int outcome) state" where
  "hipObjS3CurlSendRequest L ctx token =
     (case ctx of
        None \<Rightarrow> State_Monad.return (Return (-1))
      | Some cfg \<Rightarrow> liftO (do {
          curl \<leftarrow> liftEnv (curl_easy_init L);
          if \<not> curl then State_Monad.return (-1)
          else do {
            let headerToken = cStringViewAll (''x-amz-rdma-token: '' @ token);
            first \<leftarrow> appendHeader L headerToken;
            rc \<leftarrow> (if \<not> first then State_Monad.return (-1)
              else do {
                second \<leftarrow> appendHeader L ''Content-Length: 0'';
                rc \<leftarrow> (if \<not> second then State_Monad.return (-1)
                  else performRequest L cfg [headerToken, ''Content-Length: 0'']);
                _ \<leftarrow> liftEnv (curl_slist_free_all L);
                State_Monad.return rc
              });
            _ \<leftarrow> liftEnv (curl_easy_cleanup L);
            State_Monad.return rc
          }
        }))"

definition hipObjS3CurlRecvReply ::
  "'e CurlLib \<Rightarrow> hipObjS3CurlCtx option \<Rightarrow> nat \<Rightarrow> ('e sys, (int \<times> string \<times> size_t) outcome) state" where
  "hipObjS3CurlRecvReply L ctx replyLen =
     (case ctx of
        None \<Rightarrow> State_Monad.return (Return (-1, [], of_nat replyLen))
      | Some cfg \<Rightarrow> liftO (do {
          reply \<leftarrow> getReply L;
          State_Monad.return (if replyLen < length reply then (-1, [], of_nat replyLen) else (0, reply, of_nat (length reply)))
        }))"

definition curlOps :: "'e CurlLib \<Rightarrow> hipObjS3CurlCtx option \<Rightarrow> 'e hipObjOps_t" where
  "curlOps L ctx = \<lparr>sendRequest = Some (hipObjS3CurlSendRequest L ctx), recvReply = Some (hipObjS3CurlRecvReply L ctx)\<rparr>"

subsection \<open>The callbacks leave the library alone\<close>

text \<open>\<open>env_only m\<close>: of the library's state, \<open>m\<close> changes nothing but the environment.\<close>

definition env_only :: "('e sys, 'a) state \<Rightarrow> bool" where
  "env_only m \<longleftrightarrow> (\<forall>s. wp m (\<lambda>_ s'. \<exists>e. s' = s\<lparr>sys_world := (sys_world s)\<lparr>env := e\<rparr>\<rparr>) s)"

lemma env_onlyD:
  "env_only m \<Longrightarrow> wp m (\<lambda>_ s'. \<exists>e. s' = s\<lparr>sys_world := (sys_world s)\<lparr>env := e\<rparr>\<rparr>) s"
  by (simp add: env_only_def)

lemma env_unchanged:
  fixes s :: "'e sys"
  shows "\<exists>e. s = s\<lparr>sys_world := (sys_world s)\<lparr>env := e\<rparr>\<rparr>"
  by (rule exI [of _ "env (sys_world s)"]) simp

lemma env_only_return: "env_only (State_Monad.return a)"
  by (simp add: env_only_def env_unchanged)

lemma env_only_liftEnv: "env_only (liftEnv m)"
  by (auto simp: env_only_def liftEnv_def liftW_def liftE_def wp_def split: prod.splits)

lemma env_only_bind:
  assumes "env_only m" "\<And>a. env_only (f a)"
  shows "env_only (State_Monad.bind m f)"
  unfolding env_only_def
proof
  fix s
  show "wp (State_Monad.bind m f) (\<lambda>_ s'. \<exists>e. s' = s\<lparr>sys_world := (sys_world s)\<lparr>env := e\<rparr>\<rparr>) s"
  proof (rule wp_bindI [OF env_onlyD [OF assms(1), of s]])
    fix a s1
    assume "\<exists>e. s1 = s\<lparr>sys_world := (sys_world s)\<lparr>env := e\<rparr>\<rparr>"
    then obtain e where "s1 = s\<lparr>sys_world := (sys_world s)\<lparr>env := e\<rparr>\<rparr>" ..
    then show "wp (f a) (\<lambda>_ s'. \<exists>e. s' = s\<lparr>sys_world := (sys_world s)\<lparr>env := e\<rparr>\<rparr>) s1"
      by (intro wp_conseq [OF env_onlyD [OF assms(2), where s = s1]]) auto
  qed
qed

lemmas env_only_rules = env_only_return env_only_liftEnv env_only_bind

lemma keeps_env_only:
  assumes "env_only m"
  shows "keeps pre (liftO m)"
  unfolding keeps_def
  by (auto simp: kept_def qps_same_def intro!: wp_conseq [OF env_onlyD [OF assms]] sys_inv_world)

lemma env_only_curl:
  "env_only (responseCode L)" "env_only (getReply L)" "env_only (updateReply L f)" "env_only (performRequest L cfg hs)"
  unfolding performRequest_def responseCode_def getReply_def updateReply_def
  by (auto intro!: env_only_rules split: prod.splits)

lemma curl_callbacks_ok: "callbacks_ok (curlOps L ctx)"
proof -
  have "call_ok (hipObjS3CurlSendRequest L ctx token)" for token
    unfolding hipObjS3CurlSendRequest_def appendHeader_def Let_def
    by (auto intro!: keeps_env_only env_only_rules env_only_curl split: option.splits)
  moreover have "call_ok (hipObjS3CurlRecvReply L ctx n)" for n
    unfolding hipObjS3CurlRecvReply_def
    by (auto intro!: keeps_env_only env_only_rules env_only_curl split: option.splits)
  ultimately show ?thesis
    by (simp add: callbacks_ok_def curlOps_def)
qed

subsection \<open>The reply header\<close>

lemma lowerName_colon:
  assumes "CHR '':'' \<notin> set (map lowerChar name)"
  shows "lowerName (name @ CHR '':'' # rest) = map lowerChar name @ CHR '':'' # rest"
  using assms
proof (induction name)
  case Nil
  have "lowerChar (CHR '':'') = CHR '':''"
    by (simp add: lowerChar_def)
  then show ?case
    by simp
next
  case (Cons c name)
  then show ?case
    by (auto simp: Let_def)
qed

lemma rev_dropWhile_snoc:
  assumes "\<forall>c\<in>set ys. P c" "xs = [] \<or> \<not> P (last xs)"
  shows "rev (dropWhile P (rev (xs @ ys))) = xs"
proof -
  have "dropWhile P (rev ys @ rev xs) = dropWhile P (rev xs)"
    using assms(1) by (intro dropWhile_append2) simp
  also have "\<dots> = rev xs"
    using assms(2) by (cases xs rule: rev_cases) simp_all
  finally show ?thesis
    by simp
qed

lemma lowerChar_colon: "lowerChar c = CHR '':'' \<longleftrightarrow> c = CHR '':''"
proof -
  have "lowerChar c \<noteq> CHR '':''"
    if "of_char (CHR ''A'') \<le> (of_char c :: nat)" "(of_char c :: nat) \<le> of_char (CHR ''Z'')"
  proof
    assume "lowerChar c = CHR '':''"
    then have "char_of (of_char c - of_char (CHR ''A'') + of_char (CHR ''a'') :: nat) = CHR '':''"
      using that by (simp add: lowerChar_def)
    then have "(of_char (char_of (of_char c - of_char (CHR ''A'') + of_char (CHR ''a'') :: nat)) :: nat) = of_char (CHR '':'')"
      by simp
    then show False
      using that by simp
  qed
  then show ?thesis
    by (auto simp: lowerChar_def)
qed

lemma other_prefix:
  assumes "CHR '':'' \<notin> set other" "map lowerChar other \<noteq> ''x-amz-rdma-reply''"
  shows "take (length replyPrefix) (lowerName (other @ '':'' @ rest)) \<noteq> replyPrefix"
proof
  have none: "CHR '':'' \<notin> set (map lowerChar other)"
    using assms(1) by (auto simp: lowerChar_colon dest: sym)
  assume "take (length replyPrefix) (lowerName (other @ '':'' @ rest)) = replyPrefix"
  moreover have "length replyPrefix = 17"
    by (simp add: replyPrefix_def)
  ultimately have *: "take 17 (map lowerChar other) @ take (17 - length other) (CHR '':'' # rest) = ''x-amz-rdma-reply:''"
    using lowerName_colon [OF none, of rest] by (simp add: replyPrefix_def [symmetric])
  have "length other < 17"
  proof (rule ccontr)
    assume "\<not> length other < 17"
    then have "take 17 (map lowerChar other) = ''x-amz-rdma-reply:''"
      using * by simp
    then have "CHR '':'' \<in> set (take 17 (map lowerChar other))"
      by simp
    then show False
      using none by (meson in_set_takeD)
  qed
  then obtain n where "17 - length other = Suc n"
    by (metis Suc_diff_Suc)
  then have "map lowerChar other @ CHR '':'' # take n rest = ''x-amz-rdma-reply'' @ '':''"
    using * \<open>length other < 17\<close> by simp
  then have "takeWhile (\<lambda>c. c \<noteq> CHR '':'') (map lowerChar other @ CHR '':'' # take n rest) = ''x-amz-rdma-reply''"
    by simp
  moreover have "takeWhile (\<lambda>c. c \<noteq> CHR '':'') (map lowerChar other @ CHR '':'' # take n rest) = map lowerChar other"
    using none by (subst takeWhile_append2) (auto simp: image_iff)
  ultimately show False
    using assms(2) by simp
qed

lemma cStringViewAll_plain: "NUL \<notin> set v \<Longrightarrow> cStringViewAll v = v"
  by (auto simp: cStringViewAll_def cStringView_def takeWhile_eq_all_conv)

text \<open>A reply as servers send it: it does not begin or end with blanks, holds no NUL and fits \<^verbatim>\<open>lastReply\<close>.\<close>

definition plain_reply :: "string \<Rightarrow> bool" where
  "plain_reply v \<longleftrightarrow> v \<noteq> [] \<and> hd v \<noteq> CHR '' '' \<and> \<not> isTrailing (last v) \<and> NUL \<notin> set v \<and> length v < kLastReplyLen"

lemma trimReply_plain:
  assumes "plain_reply v" "\<forall>c\<in>set trail. isTrailing c"
  shows "trimReply (replicate k (CHR '' '') @ v @ trail) = v"
proof -
  have "rev (dropWhile isTrailing (rev ((replicate k (CHR '' '') @ v) @ trail))) = replicate k (CHR '' '') @ v"
    using assms by (intro rev_dropWhile_snoc) (auto simp: plain_reply_def)
  moreover have "dropWhile (\<lambda>c. c = CHR '' '') (replicate k (CHR '' '') @ v) = v"
    using assms(1) by (induction k) (cases v; auto simp: plain_reply_def)+
  ultimately show ?thesis
    by (simp add: trimReply_def)
qed

text \<open>Whatever the case of its name and the blanks around its value, the header of a reply leaves exactly the reply in
  \<^verbatim>\<open>lastReply\<close>, and any other header leaves it alone.\<close>

theorem reply_header_roundtrip:
  assumes "map lowerChar name = ''x-amz-rdma-reply''" "plain_reply v" "\<forall>c\<in>set trail. isTrailing c"
    and "CHR '':'' \<notin> set other" "map lowerChar other \<noteq> ''x-amz-rdma-reply''"
  shows "headerCallback (name @ '':'' @ replicate k (CHR '' '') @ v @ trail) old = v \<and>
    headerCallback (other @ '':'' @ rest) old = old"
proof -
  have "lowerName (name @ '':'' @ replicate k (CHR '' '') @ v @ trail) = ''x-amz-rdma-reply:'' @ replicate k (CHR '' '') @ v @ trail"
    using lowerName_colon [of name "replicate k (CHR '' '') @ v @ trail"] assms(1) by simp
  moreover have "cStringViewAll v = v"
    using assms(2) by (simp add: plain_reply_def cStringViewAll_plain)
  ultimately have "headerCallback (name @ '':'' @ replicate k (CHR '' '') @ v @ trail) old = v"
    using trimReply_plain [OF assms(2,3), of k] assms(2)
    by (simp add: headerCallback_def replyPrefix_def plain_reply_def kLastReplyLen_def)
  moreover have "headerCallback (other @ '':'' @ rest) old = old"
    using other_prefix [OF assms(4,5), of rest] by (simp add: headerCallback_def Let_def)
  ultimately show ?thesis by simp
qed

theorem reply_header_roundtrip_witness:
  "headerCallback (''X-Amz-RDMA-Reply'' @ '':'' @ replicate 1 (CHR '' '') @ ''200'' @ [CHR 0x0D, CHR 0x0A]) [] = ''200'' \<and>
   headerCallback (''Server'' @ '':'' @ '' MinIO'') [] = []"
proof (rule reply_header_roundtrip)
  show "map lowerChar ''X-Amz-RDMA-Reply'' = ''x-amz-rdma-reply''" "plain_reply ''200''" "map lowerChar ''Server'' \<noteq> ''x-amz-rdma-reply''"
    by code_simp+
qed (simp_all add: isTrailing_def)

subsection \<open>A request and its reply\<close>

text \<open>
  What the code relies on: \<^verbatim>\<open>lastReply\<close> is memory that holds what was written to it, and libcurl does not touch it but through the
  header callback.
\<close>

definition curl_memory_ok :: "'e CurlLib \<Rightarrow> bool" where
  "curl_memory_ok L \<longleftrightarrow> (\<forall>r e. lastReply_get L (lastReply_set L r e) = r) \<and>
     (\<forall>e. wp (curl_easy_cleanup L) (\<lambda>_ e'. lastReply_get L e' = lastReply_get L e) e) \<and>
     (\<forall>e. wp (curl_slist_free_all L) (\<lambda>_ e'. lastReply_get L e' = lastReply_get L e) e) \<and>
     (\<forall>e. wp (curl_response_code L) (\<lambda>_ e'. lastReply_get L e' = lastReply_get L e) e) \<and>
     (\<forall>url hs m e. wp (curl_easy_perform L url hs m) (\<lambda>_ e'. lastReply_get L e' = lastReply_get L e) e)"

abbreviation reply_in :: "'e CurlLib \<Rightarrow> 'e sys \<Rightarrow> string" where
  "reply_in L s \<equiv> lastReply_get L (env (sys_world s))"

text \<open>The reply of a request whose response had the header lines \<open>lines\<close>.\<close>

definition replied :: "'e CurlLib \<Rightarrow> string \<Rightarrow> string list \<Rightarrow> string \<Rightarrow> string \<Rightarrow> bool" where
  "replied L url headers verb v \<longleftrightarrow> v \<noteq> [] \<and> (\<exists>e lines e'. run_state (curl_easy_perform L url headers verb) e = ((lines, True), e') \<and>
     v = fold headerCallback lines [])"

lemma wp_replySteps:
  "wp (getReply L) Q s \<longleftrightarrow> Q (reply_in L s) s"
  "wp (updateReply L f) Q' s \<longleftrightarrow>
     Q' () (s\<lparr>sys_world := (sys_world s)\<lparr>env := lastReply_set L (f (reply_in L s)) (env (sys_world s))\<rparr>\<rparr>)"
  by (simp_all add: getReply_def updateReply_def wp_liftEnv_iff) (simp_all add: wp_def)

lemma curl_memoryD:
  assumes "curl_memory_ok L"
  shows "lastReply_get L (lastReply_set L r e) = r"
    and "wp (curl_easy_cleanup L) (\<lambda>_ e'. lastReply_get L e' = lastReply_get L e) e"
    and "wp (curl_slist_free_all L) (\<lambda>_ e'. lastReply_get L e' = lastReply_get L e) e"
    and "wp (curl_response_code L) (\<lambda>_ e'. lastReply_get L e' = lastReply_get L e) e"
    and "wp (curl_easy_perform L url hs m) (\<lambda>_ e'. lastReply_get L e' = lastReply_get L e) e"
  using assms by (simp_all add: curl_memory_ok_def)

lemma wp_perform:
  assumes "curl_memory_ok L"
  shows "wp (curl_easy_perform L url hs verb) (\<lambda>r e'. fold headerCallback (fst r) (lastReply_get L e') \<noteq> [] \<longrightarrow>
      snd r \<longrightarrow> replied L url hs verb (fold headerCallback (fst r) (lastReply_get L e'))) (lastReply_set L [] e)"
proof (rule wpI)
  fix r e' assume run: "run_state (curl_easy_perform L url hs verb) (lastReply_set L [] e) = (r, e')"
  have "lastReply_get L e' = []"
    using wp_run [OF curl_memoryD(5) [OF assms] run] by (simp add: curl_memoryD(1) [OF assms])
  moreover have "replied L url hs verb (fold headerCallback (fst r) [])" if "snd r" "fold headerCallback (fst r) [] \<noteq> []"
    unfolding replied_def using run that
    by (intro conjI exI [of _ "lastReply_set L [] e"] exI [of _ "fst r"] exI [of _ e']) (simp_all add: prod_eq_iff)
  ultimately show "fold headerCallback (fst r) (lastReply_get L e') \<noteq> [] \<longrightarrow>
      snd r \<longrightarrow> replied L url hs verb (fold headerCallback (fst r) (lastReply_get L e'))"
    by simp
qed

lemma wp_performRequest:
  assumes "curl_memory_ok L"
  shows "wp (performRequest L cfg hs) (\<lambda>rc s'. rc = 0 \<longrightarrow>
     replied L (buildUrl cfg) hs (if cc_isPut cfg \<noteq> 0 then ''PUT'' else ''GET'') (reply_in L s')) s"
  unfolding performRequest_def
  by (auto simp: wp_replySteps wp_liftEnv_iff responseCode_def curl_memoryD(1) [OF assms] split_beta
      intro!: wp_conseq [OF wp_perform [OF assms]] wp_conseq [OF curl_memoryD(4) [OF assms]])

text \<open>Releasing what libcurl gave keeps the reply.\<close>

lemma wp_released:
  assumes "\<And>e. wp m (\<lambda>_ e'. lastReply_get L e' = lastReply_get L e) e" "wp prog (\<lambda>rc s'. rc = 0 \<longrightarrow> K (reply_in L s')) s"
  shows "wp (do { rc \<leftarrow> prog; _ \<leftarrow> liftEnv m; State_Monad.return rc }) (\<lambda>rc s'. rc = (0 :: int) \<longrightarrow> K (reply_in L s')) s"
  by (rule wp_bindI [OF assms(2)]) (auto simp: wp_liftEnv_iff intro!: wp_conseq [OF assms(1)])

lemma wp_envStep:
  assumes "\<And>r s'. wp (f r) Q s'"
  shows "wp (State_Monad.bind (liftEnv m) f) Q s"
  by (rule wp_bindI [OF wp_any assms])

lemma wp_sendRequest:
  assumes "curl_memory_ok L"
  shows "wp (hipObjS3CurlSendRequest L (Some cfg) token) (\<lambda>r s'. r = Return 0 \<longrightarrow>
     replied L (buildUrl cfg) [cStringViewAll (''x-amz-rdma-token: '' @ token), ''Content-Length: 0'']
       (if cc_isPut cfg \<noteq> 0 then ''PUT'' else ''GET'') (reply_in L s')) s"
proof -
  have "wp (if b then State_Monad.return (-1) else prog) (\<lambda>rc s'. rc = (0 :: int) \<longrightarrow> K (reply_in L s')) s"
    if "\<And>s. wp prog (\<lambda>rc s'. rc = 0 \<longrightarrow> K (reply_in L s')) s" for b prog K s
    using that by simp
  note guard = this
  show ?thesis
    unfolding hipObjS3CurlSendRequest_def appendHeader_def Let_def option.case wp_liftO outcome.inject
    by (intro wp_envStep guard wp_released curl_memoryD(2,3) [OF assms] wp_performRequest [OF assms])
qed

lemma fold_headerCallback_short:
  "length old < kLastReplyLen \<Longrightarrow> length (fold headerCallback lines old) < kLastReplyLen"
proof (induction lines arbitrary: old)
  case (Cons line lines)
  have "length (headerCallback line old) < kLastReplyLen"
    using Cons.prems by (simp add: headerCallback_def Let_def kLastReplyLen_def min_def)
  then show ?case
    by (simp add: Cons.IH)
qed simp


text \<open>
  When the request callback reports success, libcurl performed the request, and the reply that its response headers carried is not empty
  and fits: the reply callback then gives the library exactly that reply, which the library decodes. A response without a reply
  is not a success.
\<close>

theorem curl_success_has_reply:
  assumes "curl_memory_ok L"
  shows "wp (hipObjS3CurlSendRequest L (Some cfg) token) (\<lambda>r s'. r = Return 0 \<longrightarrow>
    (\<exists>e lines e' v. run_state (curl_easy_perform L (buildUrl cfg)
          [cStringViewAll (''x-amz-rdma-token: '' @ token), ''Content-Length: 0'']
          (if cc_isPut cfg \<noteq> 0 then ''PUT'' else ''GET'')) e = ((lines, True), e') \<and>
       v = fold headerCallback lines [] \<and> v \<noteq> [] \<and>
       run_state (receiveRdmaReplyRaw (curlOps L (Some cfg)) kReplyBufLen) s' =
         (Return (map_option (\<lambda>status. \<lparr>reply_text = v, reply_status = status\<rparr>) (decodeRdmaReply v)), s'))) s"
proof (rule wp_conseq [OF wp_sendRequest [OF assms]], intro impI)
  fix r s'
  assume *: "r = Return 0 \<longrightarrow> replied L (buildUrl cfg) [cStringViewAll (''x-amz-rdma-token: '' @ token), ''Content-Length: 0'']
       (if cc_isPut cfg \<noteq> 0 then ''PUT'' else ''GET'') (reply_in L s')" "r = Return 0"
  then obtain e lines e' where run: "run_state (curl_easy_perform L (buildUrl cfg)
          [cStringViewAll (''x-amz-rdma-token: '' @ token), ''Content-Length: 0'']
          (if cc_isPut cfg \<noteq> 0 then ''PUT'' else ''GET'')) e = ((lines, True), e')"
      and v: "reply_in L s' = fold headerCallback lines []" "reply_in L s' \<noteq> []"
    unfolding replied_def by blast
  have short: "length (reply_in L s') < 512"
    using fold_headerCallback_short [of "[]" lines] v(1) by (simp add: kLastReplyLen_def)
  have "run_state (getReply L) s' = (reply_in L s', s')"
    by (simp add: getReply_def liftEnv_def liftW_def liftE_def)
  then have "run_state (receiveRdmaReplyRaw (curlOps L (Some cfg)) kReplyBufLen) s' =
      (Return (map_option (\<lambda>status. \<lparr>reply_text = reply_in L s', reply_status = status\<rparr>) (decodeRdmaReply (reply_in L s'))), s')"
    using short
    by (simp add: receiveRdmaReplyRaw_def curlOps_def hipObjS3CurlRecvReply_def kReplyBufLen_def bindO_def liftO_def
        State_Monad.bind_def State_Monad.return_def writtenBuffer_def unat_of_nat take_bit_nat_eq_self Let_def split: option.splits)
  with run v show "\<exists>e lines e' v. run_state (curl_easy_perform L (buildUrl cfg)
          [cStringViewAll (''x-amz-rdma-token: '' @ token), ''Content-Length: 0'']
          (if cc_isPut cfg \<noteq> 0 then ''PUT'' else ''GET'')) e = ((lines, True), e') \<and>
       v = fold headerCallback lines [] \<and> v \<noteq> [] \<and>
       run_state (receiveRdmaReplyRaw (curlOps L (Some cfg)) kReplyBufLen) s' =
         (Return (map_option (\<lambda>status. \<lparr>reply_text = v, reply_status = status\<rparr>) (decodeRdmaReply v)), s')"
    by metis
qed

text \<open>A server that answers with a reply, in an environment that is \<^verbatim>\<open>lastReply\<close>.\<close>

definition reply_curl :: "string CurlLib" where
  "reply_curl =
    \<lparr>curl_easy_init = State_Monad.return True, curl_easy_cleanup = State_Monad.return (),
     curl_slist_append = (\<lambda>_. State_Monad.return True), curl_slist_free_all = State_Monad.return (),
     curl_easy_perform = (\<lambda>_ _ _. State_Monad.return ([''HTTP/1.1 200 OK'', ''X-Amz-Rdma-Reply: 200''], True)),
     curl_response_code = State_Monad.return (Some 200), lastReply_get = (\<lambda>e. e), lastReply_set = (\<lambda>r _. r)\<rparr>"

definition reply_ctx :: hipObjS3CurlCtx where
  "reply_ctx = \<lparr>cc_endpoint = Some ''http://host/'', cc_bucket = None, cc_object = None, cc_accessKey = None, cc_secretKey = None,
     cc_isPut = 1, cc_objectSize = 1024, cc_devPtr = 8192\<rparr>"

definition reply_sys :: "string sys" where
  "reply_sys = \<lparr>sys_world = \<lparr>env = [], log = [], serial = 0\<rparr>, instances = [], current = None, leasesHeld = 0, tokens = []\<rparr>"

theorem curl_success_has_reply_witness:
  "wp (hipObjS3CurlSendRequest reply_curl (Some reply_ctx) ''00'') (\<lambda>r s'. r = Return 0 \<longrightarrow>
    (\<exists>e lines e' v. run_state (curl_easy_perform reply_curl (buildUrl reply_ctx)
          [cStringViewAll (''x-amz-rdma-token: '' @ ''00''), ''Content-Length: 0'']
          (if cc_isPut reply_ctx \<noteq> 0 then ''PUT'' else ''GET'')) e = ((lines, True), e') \<and>
       v = fold headerCallback lines [] \<and> v \<noteq> [] \<and>
       run_state (receiveRdmaReplyRaw (curlOps reply_curl (Some reply_ctx)) kReplyBufLen) s' =
         (Return (map_option (\<lambda>status. \<lparr>reply_text = v, reply_status = status\<rparr>) (decodeRdmaReply v)), s'))) reply_sys"
  by (rule curl_success_has_reply) (simp add: curl_memory_ok_def reply_curl_def)

end
