(* ===== verification/Example_Programs.thy ===== *)
theory Example_Programs
  imports Curl_Ops Minio_Client
begin

text \<open>
  The programs that use the library: \<^verbatim>\<open>examples/get-object.cpp\<close>, \<^verbatim>\<open>put-object.cpp\<close> and \<^verbatim>\<open>get-version.cpp\<close>, and
  \<^verbatim>\<open>tools/hipobj-test-install\<close>. A program is what its
  \<^verbatim>\<open>main\<close> does with its arguments, up to its exit status; what it prints is not modelled here. Objects with
  destructors are scopes (\<^const>\<open>finallyO\<close>), nested the way the code declares them.

  What the programs call of HIP, libcurl and the system beside the library are records of parameters.
\<close>

subsection \<open>Stub callbacks\<close>

definition stubSendRequest :: "string \<Rightarrow> ('e sys, int outcome) state" where
  "stubSendRequest token = State_Monad.return (Return 0)"

definition stubRecvReply :: "nat \<Rightarrow> ('e sys, (int \<times> string \<times> size_t) outcome) state" where
  "stubRecvReply replyLen =
     (let reply501 = ''501''; len = length reply501
      in if replyLen < len then State_Monad.return (Return (-1, [], of_nat replyLen))
         else State_Monad.return (Return (0, reply501, of_nat len)))"

definition stubOps :: "'e hipObjOps_t" where
  "stubOps = \<lparr>sendRequest = Some stubSendRequest, recvReply = Some stubRecvReply\<rparr>"

subsection \<open>Sizes\<close>

text \<open>
  \<^verbatim>\<open>std::strtoull\<close> in base 10, in the C locale: blanks, a sign and the longest run of digits. It gives the value, negated
  after a minus sign, the text that follows, and whether it set \<^verbatim>\<open>errno\<close>.
\<close>

definition isspace :: "char \<Rightarrow> bool" where
  "isspace c \<longleftrightarrow> c \<in> {CHR '' '', CHR 0x09, CHR 0x0A, CHR 0x0B, CHR 0x0C, CHR 0x0D}"

definition strtoull :: "string \<Rightarrow> u64 \<times> string \<times> bool" where
  "strtoull text =
     (let body = dropWhile isspace text;
          neg = (body \<noteq> [] \<and> hd body = CHR ''-'');
          digits = (if body \<noteq> [] \<and> (hd body = CHR ''-'' \<or> hd body = CHR ''+'') then tl body else body);
          ds = takeWhile (is_base_digit 10) digits;
          rest = dropWhile (is_base_digit 10) digits;
          m = digits_value 10 0 ds
      in if ds = [] then (0, text, False)
         else if m \<ge> 2 ^ 64 then (- 1, rest, True)
         else (if neg then - of_nat m else of_nat m, rest, False))"

definition parseSize :: "string \<Rightarrow> size_t" where
  "parseSize arg =
     (if arg = [] \<or> of_char (hd arg) < (of_char (CHR ''0'') :: nat) \<or> of_char (hd arg) > (of_char (CHR ''9'') :: nat) then 0
      else case strtoull arg of (n, rest, failed) \<Rightarrow> if failed \<or> rest \<noteq> [] then 0 else n)"

subsection \<open>\<^verbatim>\<open>get-object\<close> and \<^verbatim>\<open>put-object\<close>\<close>

record 'e ExampleHost =
  ex_have_curl :: bool
  ex_curl_global_init :: "('e, bool) state"
  ex_curl_global_cleanup :: "('e, unit) state"
  ex_hipMalloc :: "size_t \<Rightarrow> ('e, hipError_t \<times> addr) state"
  ex_hipFree :: "addr \<Rightarrow> ('e, unit) state"

record example_args =
  ea_live :: bool
  ea_endpoint :: string
  ea_bucket :: string
  ea_object :: string

definition exampleArgs :: "string list \<Rightarrow> example_args" where
  "exampleArgs argv =
     (let defaults = \<lparr>ea_live = False, ea_endpoint = ''http://127.0.0.1:9000'', ea_bucket = ''test'', ea_object = ''object''\<rparr>
      in if length argv \<ge> 4 \<and> argv ! 2 = ''--live''
         then defaults\<lparr>ea_live := True, ea_endpoint := argv ! 3,
           ea_bucket := (if length argv \<ge> 5 then argv ! 4 else ea_bucket defaults),
           ea_object := (if length argv \<ge> 6 then argv ! 5 else ea_object defaults)\<rparr>
         else defaults)"

definition exampleConfig :: "EnvLookup \<Rightarrow> example_args \<Rightarrow> hipObjConfig_t" where
  "exampleConfig getenv args =
    \<lparr>endpoint = Some (ea_endpoint args), region = Some ''us-east-1'', accessKey = None, secretKey = None,
     config_flags = 0, config_gpuDevice = 0, config_nicHint = getenv ''HIPOBJ_NIC_HINT''\<rparr>"

definition exampleCurlCtx :: "bool \<Rightarrow> example_args \<Rightarrow> size_t \<Rightarrow> addr \<Rightarrow> hipObjS3CurlCtx" where
  "exampleCurlCtx isPut args objSize devPtr =
    \<lparr>cc_endpoint = Some (ea_endpoint args), cc_bucket = Some (ea_bucket args), cc_object = Some (ea_object args),
     cc_accessKey = None, cc_secretKey = None, cc_isPut = (if isPut then 1 else 0), cc_objectSize = objSize, cc_devPtr = devPtr\<rparr>"

text \<open>
  The destructors of \<^verbatim>\<open>HipObjShutdownGuard\<close>, \<^verbatim>\<open>HipFreeDeleter\<close>, which is not called on a null pointer, and \<^verbatim>\<open>HipObjBufRegistration\<close>, and
  the constructor and the destructor of \<^verbatim>\<open>CurlGlobal\<close>.
\<close>

definition shutdownGuard :: "'e Process \<Rightarrow> ('e sys, unit) state" where
  "shutdownGuard R = do { _ \<leftarrow> hipObjShutdown (pr_platform R); State_Monad.return () }"

definition hipFreeDeleter :: "'e ExampleHost \<Rightarrow> addr \<Rightarrow> ('e sys, unit) state" where
  "hipFreeDeleter X p = (if p \<noteq> nullptr then liftEnv (ex_hipFree X p) else State_Monad.return ())"

definition bufRegistration :: "'e Process \<Rightarrow> addr \<Rightarrow> ('e sys, unit) state" where
  "bufRegistration R p = do { _ \<leftarrow> hipObjBufDeregister (pr_platform R) p; State_Monad.return () }"

definition curlGlobal :: "'e ExampleHost \<Rightarrow> bool \<Rightarrow> ('e sys, bool) state" where
  "curlGlobal X init = (if init then liftEnv (ex_curl_global_init X) else State_Monad.return False)"

definition curlGlobalDtor :: "'e ExampleHost \<Rightarrow> bool \<Rightarrow> ('e sys, unit) state" where
  "curlGlobalDtor X ok = (if ok then liftEnv (ex_curl_global_cleanup X) else State_Monad.return ())"

text \<open>\<^verbatim>\<open>hipObjGet\<close> or \<^verbatim>\<open>hipObjPut\<close>, in which the two programs differ, and the exit status.\<close>

definition transferWith ::
  "bool \<Rightarrow> build_config \<Rightarrow> 'e Process \<Rightarrow> addr \<Rightarrow> size_t \<Rightarrow> 'e hipObjOps_t \<Rightarrow> ('e sys, int outcome) state" where
  "transferWith isPut B R devPtr objSize ops =
     bindO ((if isPut then hipObjPut else hipObjGet) B (pr_fuel R) (pr_platform R) devPtr objSize 0 (Some ops)) (\<lambda>err.
       State_Monad.return (Return (if opError err \<noteq> hipObjSuccess then 1 else 0)))"

definition exampleTransfer ::
  "bool \<Rightarrow> build_config \<Rightarrow> 'e Process \<Rightarrow> 'e ExampleHost \<Rightarrow> 'e CurlLib \<Rightarrow> example_args \<Rightarrow> addr \<Rightarrow> size_t \<Rightarrow>
   ('e sys, int outcome) state" where
  "exampleTransfer isPut B R X L args devPtr objSize =
     (let live = ea_live args in
      if ex_have_curl X
      then bindO (liftO (curlGlobal X live)) (\<lambda>ok.
        if live \<and> \<not> ok then State_Monad.return (Return 1)
        else finallyO
          (if live
           then bindO (liftO (updateReply L (\<lambda>_. []))) (\<lambda>_.
             transferWith isPut B R devPtr objSize (curlOps L (Some (exampleCurlCtx isPut args objSize devPtr))))
           else transferWith isPut B R devPtr objSize stubOps)
          (curlGlobalDtor X ok))
      else transferWith isPut B R devPtr objSize stubOps)"

text \<open>What runs while the library is initialized: allocating and registering the buffer, and the transfer.\<close>

definition exampleBody ::
  "bool \<Rightarrow> build_config \<Rightarrow> 'e Process \<Rightarrow> 'e ExampleHost \<Rightarrow> 'e CurlLib \<Rightarrow> example_args \<Rightarrow> size_t \<Rightarrow> ('e sys, int outcome) state" where
  "exampleBody isPut B R X L args objSize =
     bindO (liftO (liftEnv (ex_hipMalloc X objSize))) (\<lambda>(hip_err, devPtr).
       if hip_err \<noteq> hipSuccess then State_Monad.return (Return 1)
       else finallyO
         (bindO (hipObjBufRegister (pr_platform R) devPtr objSize) (\<lambda>err.
            if opError err \<noteq> hipObjSuccess then State_Monad.return (Return 1)
            else finallyO (exampleTransfer isPut B R X L args devPtr objSize) (bufRegistration R devPtr)))
         (hipFreeDeleter X devPtr))"

definition exampleMain ::
  "bool \<Rightarrow> build_config \<Rightarrow> 'e Process \<Rightarrow> 'e ExampleHost \<Rightarrow> 'e CurlLib \<Rightarrow> string list \<Rightarrow> ('e sys, int outcome) state" where
  "exampleMain isPut B R X L argv =
     (if length argv < 2 then State_Monad.return (Return 1)
      else let objSize = parseSize (argv ! 1); args = exampleArgs argv in
      if objSize = 0 then State_Monad.return (Return 1)
      else bindO (hipObjInit (pr_system R) (pr_getenv R) (Some (exampleConfig (pr_getenv R) args))) (\<lambda>err.
        if opError err \<noteq> hipObjSuccess then State_Monad.return (Return 1)
        else finallyO (exampleBody isPut B R X L args objSize) (shutdownGuard R)))"

definition getObjectMain ::
  "build_config \<Rightarrow> 'e Process \<Rightarrow> 'e ExampleHost \<Rightarrow> 'e CurlLib \<Rightarrow> string list \<Rightarrow> ('e sys, int outcome) state" where
  "getObjectMain = exampleMain False"

definition putObjectMain ::
  "build_config \<Rightarrow> 'e Process \<Rightarrow> 'e ExampleHost \<Rightarrow> 'e CurlLib \<Rightarrow> string list \<Rightarrow> ('e sys, int outcome) state" where
  "putObjectMain = exampleMain True"

subsection \<open>\<^verbatim>\<open>get-version\<close> and \<^verbatim>\<open>hipobj-test-install\<close>\<close>

text \<open>The version of the header that the program was compiled with, against the library's.\<close>

definition versionCompatible :: "nat \<Rightarrow> nat \<Rightarrow> nat \<Rightarrow> nat \<Rightarrow> bool" where
  "versionCompatible major minor headerMajor headerMinor \<longleftrightarrow>
     major = headerMajor \<and> (if major = 0 then minor = headerMinor else minor \<ge> headerMinor)"

definition getVersionMain :: "nat \<Rightarrow> nat \<Rightarrow> int" where
  "getVersionMain headerMajor headerMinor =
     (case hipObjGetVersion True True False of (err, major, minor, _) \<Rightarrow>
        if opError err \<noteq> hipObjSuccess then 1
        else if \<not> versionCompatible (the major) (the minor) headerMajor headerMinor then 1 else 0)"

fun testInstallArgs :: "string list \<Rightarrow> bool \<Rightarrow> bool \<Rightarrow> (bool \<times> bool) option" where
  "testInstallArgs [] helpArg versionArg = Some (helpArg, versionArg)"
| "testInstallArgs (a # as) helpArg versionArg =
     (if a = ''--help'' then testInstallArgs as True versionArg
      else if a = ''--version'' then testInstallArgs as helpArg True
      else None)"

definition testInstallMain :: "int \<Rightarrow> string list \<Rightarrow> int" where
  "testInstallMain argc argv =
     (case testInstallArgs (drop 1 (argSpan argc argv)) False False of
        None \<Rightarrow> 2
      | Some (helpArg, versionArg) \<Rightarrow> if helpArg then 0 else if versionArg then 0 else 1)"

subsection \<open>Sizes\<close>

lemma is_base_digit_10: "is_base_digit 10 c \<longleftrightarrow> of_char (CHR ''0'') \<le> (of_char c :: nat) \<and> of_char c \<le> (of_char (CHR ''9'') :: nat)"
  by (auto simp: is_base_digit_def digit_value_def Let_def)

lemma digit_is_plain: "is_base_digit 10 c \<Longrightarrow> \<not> isspace c \<and> c \<noteq> CHR ''-'' \<and> c \<noteq> CHR ''+''"
  by (auto simp: is_base_digit_10 isspace_def)

lemma strtoull_digit:
  assumes "arg \<noteq> []" "is_base_digit 10 (hd arg)"
  shows "strtoull arg = (let m = digits_value 10 0 (takeWhile (is_base_digit 10) arg);
     rest = dropWhile (is_base_digit 10) arg
     in if m \<ge> 2 ^ 64 then (- 1, rest, True) else (of_nat m, rest, False))"
  using assms digit_is_plain [OF assms(2)]
  by (cases arg) (auto simp: strtoull_def Let_def)

lemma parseSize_parseNumber:
  "parseSize arg = (case parseNumber uint64_t arg kDefaultNumberBase of None \<Rightarrow> 0 | Some v \<Rightarrow> of_int v)"
proof (cases "arg \<noteq> [] \<and> is_base_digit 10 (hd arg)")
  case True
  then have first: "\<not> (arg = [] \<or> of_char (hd arg) < (of_char (CHR ''0'') :: nat) \<or> of_char (hd arg) > (of_char (CHR ''9'') :: nat))"
    by (simp add: is_base_digit_10)
  have "takeWhile (is_base_digit 10) arg \<noteq> []"
    using True by (cases arg) auto
  then show ?thesis
    using True unfolding parseSize_def if_not_P [OF first]
    by (auto simp: strtoull_digit Let_def parseNumber_def from_chars_def number_base_defs uint64_t_def)
next
  case False
  then have "parseSize arg = 0"
    by (auto simp: parseSize_def is_base_digit_10)
  moreover have "parseNumber uint64_t arg kDefaultNumberBase = None"
    using False by (cases arg) (auto simp: parseNumber_def from_chars_def uint64_t_def number_base_defs)
  ultimately show ?thesis
    by simp
qed

subsection \<open>A transfer that the server refuses\<close>

definition refuses :: "'e hipObjOps_t \<Rightarrow> bool" where
  "refuses ops \<longleftrightarrow> (\<forall>n. gives (\<lambda>reply. \<forall>rep. reply = Some rep \<longrightarrow> reply_status rep \<noteq> Success) (receiveRdmaReplyRaw ops n))"

abbreviation failing :: "('e sys, hipObjError_t outcome) state \<Rightarrow> bool" where
  "failing m \<equiv> gives (\<lambda>err. opError err \<noteq> hipObjSuccess) m"

lemma givesD: "gives Q m \<Longrightarrow> wp m (\<lambda>r _. \<forall>a. r = Return a \<longrightarrow> Q a) s"
  by (simp add: gives_def)

lemma gives_bind:
  assumes "\<And>a. gives Q (f a)"
  shows "gives Q (State_Monad.bind m f)"
  using assms by (auto simp: gives_def intro!: wp_bindI [where P = "\<lambda>_ _. True"]) (simp add: wp_def)

lemma gives_catchO:
  assumes "gives Q m" "Q a"
  shows "gives Q (catchO m a)"
  unfolding gives_def
  by (intro allI wp_catchO [OF spec [OF assms(1) [unfolded gives_def]]]) (use assms(2) in auto)

lemma gives_stopped [simp]: "gives Q (State_Monad.return Throw)" "gives Q (State_Monad.return Block)"
    "gives Q (State_Monad.return Running)"
  by (simp_all add: gives_def)

lemma exchange_refused:
  assumes "refuses ops"
  shows "gives (\<lambda>x. \<exists>err. x = Inl err \<and> opError err \<noteq> hipObjSuccess) (exchangeTokens i buf sz offset ops lease)"
proof -
  have receive: "gives (\<lambda>reply. \<forall>rep. reply = Some rep \<longrightarrow> reply_status rep \<noteq> Success) (receiveRdmaReplyRaw ops n)" for n
    using assms by (simp add: refuses_def)
  show ?thesis
    unfolding exchangeTokens_def
    by (auto intro!: gives_bind gives_bindO gives_bindO_of [OF receive] split: option.splits)
qed

lemma acquireError_fails [simp]: "opError (acquireError e) \<noteq> hipObjSuccess"
  by (cases e) simp_all

lemma gives_bind_outcome:
  fixes m :: "('s, 'a outcome) state"
  assumes "gives A m" "\<And>a. A a \<Longrightarrow> gives Q (f (Return a))" "gives Q (f Throw)" "gives Q (f Block)" "gives Q (f Running)"
  shows "gives Q (State_Monad.bind m f)"
  unfolding gives_def
proof (intro allI, rule wp_bindI [OF spec [OF assms(1) [unfolded gives_def]]])
  fix r s' assume "\<forall>a. r = Return a \<longrightarrow> A a"
  then show "wp (f r) (\<lambda>r _. \<forall>a. r = Return a \<longrightarrow> Q a) s'"
    using assms(2-) by (cases r) (auto simp: gives_def)
qed

lemma transfer_refused:
  assumes "refuses ops"
  shows "failing (runRdmaTransfer B fuel P i buf sz offset ops)"
  unfolding runRdmaTransfer_def
proof (rule gives_bindO, goal_cases)
  case (1 acq)
  show ?case
  proof (cases acq)
    case (Inr lease)
    show ?thesis
      unfolding Inr sum.case
      by (rule gives_bind_outcome [OF exchange_refused [OF assms]]) (auto intro!: gives_bind)
  qed simp
qed

lemma checked_buffer_fails:
  assumes "\<And>j. failing (f j)"
  shows "failing (withCheckedBuffer P i p sz offset (\<lambda>err. err) f)"
proof -
  have none: "opError (checkBufferArgs p None sz offset) \<noteq> hipObjSuccess"
    by (simp add: checkBufferArgs_def)
  show ?thesis
    unfolding withCheckedBuffer_def withBuffer_def Let_def
    using assms none by (auto intro!: gives_bind gives_finallyO gives_bindO split: option.splits)
qed

lemma public_transfer_refused:
  assumes "refuses ops"
  shows "failing (hipObjGet B fuel P p sz offset (Some ops))" "failing (hipObjPut B fuel P p sz offset (Some ops))"
proof -
  have kExceptionError: "opError kExceptionError \<noteq> hipObjSuccess"
    by (simp add: kExceptionError_def)
  have again: "complete_ops (Some ops) = Some x \<Longrightarrow> x = ops" for x
    by (simp add: complete_ops_def split: if_splits)
  note refused = transfer_refused [OF assms]
  show "failing (hipObjGet B fuel P p sz offset (Some ops))"
    unfolding hipObjGet_def withInstance_def
    by (auto intro!: gives_catchO gives_bind gives_finallyO checked_buffer_fails gives_bindO_of [OF refused] kExceptionError
        dest!: again split: option.splits)
  show "failing (hipObjPut B fuel P p sz offset (Some ops))"
    unfolding hipObjPut_def withInstance_def
    by (auto intro!: gives_catchO gives_bind gives_finallyO checked_buffer_fails gives_bindO refused kExceptionError
        dest!: again split: option.splits)
qed

text \<open>What the programs do when the transfer fails.\<close>

lemma stub_exit:
  assumes "refuses ops"
  shows "gives (\<lambda>code. code = 1) (transferWith isPut B R p sz ops)"
  unfolding transferWith_def
  by (cases isPut) (auto intro!: gives_bindO_of [OF public_transfer_refused(1) [OF assms]]
      gives_bindO_of [OF public_transfer_refused(2) [OF assms]])

lemma stub_refuses: "refuses stubOps"
proof -
  have "decodeRdmaReply ''501'' = Some NotSupported"
    by code_simp
  then show ?thesis
    by (auto simp: refuses_def receiveRdmaReplyRaw_def stubOps_def stubRecvReply_def gives_def bindO_def Let_def writtenBuffer_def
        split: if_splits)
qed

text \<open>The scopes of the programs keep the library's invariant, and their destructors come back.\<close>

lemma keeps_destructor:
  fixes m :: "('e sys, 'b outcome) state"
  assumes "call_ok m" "comes_back m"
  shows "keeps pre (liftO (do { _ \<leftarrow> m; State_Monad.return () }))"
proof (rule keepsI)
  fix H and s :: "'e sys" assume "sys_inv H s"
  then have "wp m (\<lambda>r s'. kept H s r s' \<and> ends r) s"
    by (intro wp_conj keepsD [OF assms(1)] comes_backD [OF assms(2)]) simp_all
  then show "wp (liftO (do { _ \<leftarrow> m; State_Monad.return () })) (kept H s) s"
    by simp (erule wp_conseq, simp add: kept_def)
qed

lemma stub_callbacks_ok: "callbacks_ok stubOps"
  by (simp add: callbacks_ok_def stubOps_def stubSendRequest_def stubRecvReply_def Let_def)

lemma keeps_transferWith: "callbacks_ok ops \<Longrightarrow> call_ok (transferWith isPut B R p sz ops)"
  unfolding transferWith_def by (auto intro!: keeps_bindO keeps_transfers)

lemma env_only_curlGlobal: "env_only (curlGlobal X init)" "env_only (curlGlobalDtor X ok)"
  unfolding curlGlobal_def curlGlobalDtor_def by (auto intro!: env_only_rules)

lemma keeps_exampleTransfer: "call_ok (exampleTransfer isPut B R X L args p sz)"
  unfolding exampleTransfer_def Let_def
  by (auto intro!: keeps_bindO keeps_finallyO keeps_transferWith keeps_env_only env_only_curl env_only_curlGlobal
      stub_callbacks_ok curl_callbacks_ok)

lemma keeps_bufRegistration: "call_ok (liftO (bufRegistration R p))"
  unfolding bufRegistration_def by (intro keeps_destructor keeps_registration deregister_comes_back)

lemma keeps_hipFreeDeleter: "call_ok (liftO (hipFreeDeleter X p))"
  unfolding hipFreeDeleter_def by (auto intro!: keeps_liftEnv keeps_env_only env_only_return)

lemma keeps_exampleBody: "call_ok (exampleBody isPut B R X L args sz)"
  unfolding exampleBody_def
  by (auto intro!: keeps_bindO keeps_finallyO keeps_liftEnv keeps_registration keeps_exampleTransfer keeps_bufRegistration
      keeps_hipFreeDeleter split: prod.splits)

text \<open>Their exit status is 0 or 1, and no exception leaves them.\<close>

lemma nothrow_liftO: "nothrow (liftO m)"
  by (simp add: nothrow_def) (simp add: wp_def)

lemma nothrow_finallyO:
  assumes "nothrow m"
  shows "nothrow (finallyO m cleanup)"
  unfolding nothrow_def by (intro allI wp_finallyO [OF nothrowD [OF assms]]) (auto simp: wp_def)

lemma nothrow_transferWith: "nothrow (transferWith isPut B R p sz ops)"
  unfolding transferWith_def hipObjGet_def hipObjPut_def
  by (auto intro!: nothrow_bindO nothrow_catchO nothrow_return)

lemma nothrow_exampleMain: "nothrow (exampleMain isPut B R X L argv)"
  unfolding exampleMain_def exampleBody_def exampleTransfer_def hipObjInit_def hipObjBufRegister_def Let_def
  by (auto intro!: nothrow_bindO nothrow_finallyO nothrow_catchO nothrow_return nothrow_liftO nothrow_transferWith
      split: prod.splits)

lemma gives_exampleMain: "gives (\<lambda>code. code = 0 \<or> code = 1) (exampleMain isPut B R X L argv)"
  unfolding exampleMain_def exampleBody_def exampleTransfer_def transferWith_def Let_def
  by (auto intro!: gives_bindO gives_finallyO split: prod.splits)

text \<open>A library that was not initialized and cannot be initialized stays so.\<close>

lemma wp_hipObjInit_fresh:
  assumes "sys_inv H s" "current s = None" "system_ok R"
  shows "wp (hipObjInit (pr_system R) getenv config) (\<lambda>r s'. \<exists>err. r = Return err \<and> sys_inv H s' \<and>
    (opError err \<noteq> hipObjSuccess \<longrightarrow> current s' = None)) s"
proof -
  have topology: "topology_ok (topology P)" if "pr_system R = Some P" for P
    using that assms(3) by (simp add: system_ok_def)
  show ?thesis
    unfolding hipObjInit_def
    by (rule wp_catchO [where P = "\<lambda>r s'. \<exists>err. r = Return err \<and> sys_inv H s' \<and> (opError err \<noteq> hipObjSuccess \<longrightarrow> current s' = None)"])
       (use assms(1,2) topology in \<open>auto simp: isInitialized_def intro!: wp_conseq [OF wp_initWith [OF assms(1)]]
          split: option.splits if_splits\<close>)
qed

lemma wp_shutdownGuard:
  assumes "sys_inv holds_nothing s"
  shows "wp (shutdownGuard R) (\<lambda>_ s'. sys_inv holds_nothing s' \<and> current s' = None) s"
  unfolding shutdownGuard_def by (auto intro!: wp_conseq [OF wp_hipObjShutdown [OF assms]])

lemma wp_exampleMain:
  assumes "sys_inv holds_nothing s" "current s = None" "system_ok R"
  shows "wp (exampleMain isPut B R X L argv) (\<lambda>r s'. ends r \<longrightarrow> sys_inv holds_nothing s' \<and> current s' = None) s"
proof -
  have body: "wp (finallyO (exampleBody isPut B R X L args sz) (shutdownGuard R))
      (\<lambda>r s'. ends r \<longrightarrow> sys_inv holds_nothing s' \<and> current s' = None) s1"
    if "sys_inv holds_nothing s1" for args sz s1
    by (rule wp_finallyO [OF keepsD [OF keeps_exampleBody TrueI that]])
       (auto simp: kept_def intro!: wp_conseq [OF wp_shutdownGuard])
  show ?thesis
    unfolding exampleMain_def Let_def
    using assms(1,2) by (auto intro!: wp_bindO [OF wp_hipObjInit_fresh [OF assms]] body)
qed

text \<open>What \<^verbatim>\<open>get-version\<close> and \<^verbatim>\<open>hipobj-test-install\<close> return.\<close>

lemma getVersionMain_eq: "getVersionMain headerMajor headerMinor = (if headerMajor = 0 \<and> headerMinor = 1 then 0 else 1)"
  by (auto simp: getVersionMain_def versionCompatible_def hipObjGetVersion_def HIPOBJ_VERSION_MAJOR_def HIPOBJ_VERSION_MINOR_def)

lemma testInstallArgs_eq:
  "testInstallArgs xs helpArg versionArg =
     (if set xs \<subseteq> {''--help'', ''--version''} then Some (helpArg \<or> ''--help'' \<in> set xs, versionArg \<or> ''--version'' \<in> set xs) else None)"
  by (induction xs helpArg versionArg rule: testInstallArgs.induct) auto

lemma testInstallMain_eq:
  "testInstallMain argc argv =
     (let xs = set (drop 1 (argSpan argc argv))
      in if \<not> xs \<subseteq> {''--help'', ''--version''} then 2 else if xs = {} then 1 else 0)"
  unfolding testInstallMain_def testInstallArgs_eq Let_def by (cases "drop 1 (argSpan argc argv)") auto

subsection \<open>Properties\<close>


text \<open>The programs on the sample platform, in stub mode and against a server that libcurl cannot reach.\<close>

definition sample_host :: "int ExampleHost" where
  "sample_host =
    \<lparr>ex_have_curl = True, ex_curl_global_init = State_Monad.return True, ex_curl_global_cleanup = State_Monad.return (),
     ex_hipMalloc = (\<lambda>_. State_Monad.return (hipSuccess, 8192)), ex_hipFree = (\<lambda>_. State_Monad.return ())\<rparr>"

definition sample_curl :: "int CurlLib" where
  "sample_curl =
    \<lparr>curl_easy_init = State_Monad.return True, curl_easy_cleanup = State_Monad.return (),
     curl_slist_append = (\<lambda>_. State_Monad.return True), curl_slist_free_all = State_Monad.return (),
     curl_easy_perform = (\<lambda>_ _ _. State_Monad.return ([], False)), curl_response_code = State_Monad.return None,
     lastReply_get = (\<lambda>_. []), lastReply_set = (\<lambda>_ e. e)\<rparr>"

definition nic_process :: "int Process" where
  "nic_process = sample_process\<lparr>pr_system := Some sample_platform\<rparr>"

lemma nic_process_ok: "system_ok nic_process"
  by (simp add: system_ok_def nic_process_def sample_platform_topology)


text \<open>
  Without \<^verbatim>\<open>--live\<close>, or without libcurl, a program never reports success: the stub's reply says that the transfer is not
  implemented, and the library reports that as an error.
\<close>

theorem stub_mode_never_succeeds:
  assumes "\<not> (ex_have_curl X \<and> ea_live (exampleArgs argv))"
  shows "wp (getObjectMain B R X L argv) (\<lambda>r _. r \<noteq> Return 0) s \<and> wp (putObjectMain B R X L argv) (\<lambda>r _. r \<noteq> Return 0) s"
proof -
  have "gives (\<lambda>code. code = 1) (exampleTransfer isPut B R X L (exampleArgs argv) p sz)" for isPut p sz
    using assms unfolding exampleTransfer_def Let_def
    by (auto intro!: gives_bindO gives_finallyO stub_exit [OF stub_refuses])
  then have exit: "gives (\<lambda>code. code = 1) (exampleMain isPut B R X L argv)" for isPut
    unfolding exampleMain_def exampleBody_def Let_def by (auto intro!: gives_bindO gives_finallyO split: prod.splits)
  have "wp (exampleMain isPut B R X L argv) (\<lambda>r _. r \<noteq> Return 0) s" for isPut
    by (rule wp_conseq [OF givesD [OF exit]]) auto
  then show ?thesis
    by (simp add: getObjectMain_def putObjectMain_def)
qed

theorem stub_mode_never_succeeds_witness:
  "wp (getObjectMain sample_build nic_process sample_host sample_curl [''put-object'', ''1024'']) (\<lambda>r _. r \<noteq> Return 0) sample_sys \<and>
   wp (putObjectMain sample_build nic_process sample_host sample_curl [''put-object'', ''1024'']) (\<lambda>r _. r \<noteq> Return 0) sample_sys"
  by (rule stub_mode_never_succeeds) (simp add: exampleArgs_def)

text \<open>
  C37. The examples' \<^verbatim>\<open>parseSize\<close>, built on \<^verbatim>\<open>strtoull\<close>, accepts exactly what the library's own \<^verbatim>\<open>parseNumber\<close> does, with the same value;
  what is not a size gives 0.
\<close>

theorem parseSize_equals_parseNumber:
  "parseSize arg = (case parseNumber uint64_t arg kDefaultNumberBase of None \<Rightarrow> 0 | Some v \<Rightarrow> of_int v)"
  by (rule parseSize_parseNumber)

end
