(* ===== verification/Diagnostics.thy ===== *)
theory Diagnostics
  imports System_Platform Example_Programs
begin

text \<open>
  What is printed, and when: \<^verbatim>\<open>writeChars\<close> of \<^verbatim>\<open>shared/hipobj-span.h\<close>, \<^verbatim>\<open>printTo\<close> of
  \<^verbatim>\<open>shared/hipobj-print.h\<close>, the trace of \<^verbatim>\<open>integrations/minio-cpp/src/rdma.cpp\<close>, and
  \<^verbatim>\<open>tools/hipobj-test-install\<close> with its output. Streams are a parameter; the theories of the library
  leave their messages out, which the lemmas justify: printing returns to its caller whatever happens to the
  text, and the trace is off unless the environment asks for it.
\<close>

subsection \<open>Streams\<close>

datatype stream = Stdout | Stderr

text \<open>\<^verbatim>\<open>fwrite\<close> gives back how many characters it wrote.\<close>

record 'e stdio =
  fwrite :: "stream \<Rightarrow> string \<Rightarrow> ('e, nat) state"

definition writeChars :: "'e stdio \<Rightarrow> stream \<Rightarrow> string \<Rightarrow> ('e, bool) state" where
  "writeChars F st chars = do {
     n \<leftarrow> fwrite F st chars;
     State_Monad.return (n = length chars)
   }"

text \<open>The text is what \<^verbatim>\<open>std::format\<close> makes, or throws when there is no memory for it.\<close>

definition printTo :: "'e stdio \<Rightarrow> stream \<Rightarrow> string outcome \<Rightarrow> ('e, unit outcome) state" where
  "printTo F st formatted = catchO
     (bindO (State_Monad.return formatted) (\<lambda>text. bindO (liftO (writeChars F st text)) (\<lambda>_. State_Monad.return (Return ()))))
     ()"

lemma printTo_run:
  "run_state (printTo F st (Return text)) e = (Return (), snd (run_state (fwrite F st text) e))"
  "run_state (printTo F st Throw) e = (Return (), e)"
  by (simp_all add: printTo_def catchO_def bindO_def liftO_def writeChars_def State_Monad.bind_def State_Monad.return_def
      split: prod.splits)

text \<open>Formatted or not, written or not, \<^verbatim>\<open>printTo\<close> returns.\<close>

lemma printTo_returns: "ends formatted \<Longrightarrow> fst (run_state (printTo F st formatted) e) = Return ()"
  by (cases formatted) (simp_all add: printTo_run)

subsection \<open>The trace of an RDMA transfer\<close>

text \<open>The process has the flag, a static that is read from the environment once, and the streams.\<close>

type_synonym 'e traced = "bool option \<times> 'e"

definition debugValue :: "string option \<Rightarrow> bool" where
  "debugValue v \<longleftrightarrow> (case v of
       None \<Rightarrow> False
     | Some text \<Rightarrow> let c = (case text of [] \<Rightarrow> NUL | c # _ \<Rightarrow> c) in c \<noteq> NUL \<and> c \<noteq> CHR ''0'')"

definition rdmaDebugEnabled :: "EnvLookup \<Rightarrow> ('e traced, bool) state" where
  "rdmaDebugEnabled getenv = static_local fst (\<lambda>v s. (Some v, snd s))
     (State_Monad.return (debugValue (getenv ''HIPOBJ_RDMA_DEBUG'')))"

interpretation debug_flag: static_object "fst :: 'e traced \<Rightarrow> bool option" "\<lambda>v s. (Some v, snd s)"
    "State_Monad.return (debugValue (getenv ''HIPOBJ_RDMA_DEBUG''))" for getenv
  by unfold_locales simp

text \<open>The pieces of a line are strings here; the code streams values of any type into it.\<close>

definition rdmaTrace :: "'e stdio \<Rightarrow> EnvLookup \<Rightarrow> string list \<Rightarrow> ('e traced, unit outcome) state" where
  "rdmaTrace F getenv args = do {
     on \<leftarrow> rdmaDebugEnabled getenv;
     if \<not> on then State_Monad.return (Return ())
     else State (\<lambda>s. case run_state (printTo F Stderr (Return (''hipobj: rdma: '' @ concat args @ [CHR 0x0A]))) (snd s) of
       (r, e) \<Rightarrow> (r, (fst s, e)))
   }"

text \<open>The library and the integration read the same variable with code of their own, and agree about it.\<close>

theorem debug_flags_agree:
  "debugValue (lookup ''HIPOBJ_RDMA_DEBUG'') \<longleftrightarrow> dmabuf_debug (opt_dmabuf (parseOptions lookup))"
  by (auto simp: debugValue_def parseOptions_def lookupValue_def cStringViewAll_def cStringView_def NUL_def Let_def
      split: option.splits list.splits)

text \<open>
  The first trace decides: with the variable unset, empty or starting with 0, no trace ever writes anything, whatever the
  environment says later; otherwise every trace writes one line to \<^verbatim>\<open>stderr\<close>.
\<close>

theorem rdma_trace_decided_once:
  "run_state (do { _ \<leftarrow> rdmaTrace F getenv args; rdmaTrace F getenv' args' }) (None, e) =
     (if debugValue (getenv ''HIPOBJ_RDMA_DEBUG'')
      then (Return (), Some True,
        snd (run_state (do { _ \<leftarrow> fwrite F Stderr (''hipobj: rdma: '' @ concat args @ [CHR 0x0A]);
                             fwrite F Stderr (''hipobj: rdma: '' @ concat args' @ [CHR 0x0A]) }) e))
      else (Return (), Some False, e))"
  by (simp add: rdmaTrace_def rdmaDebugEnabled_def static_local_def printTo_run State_Monad.bind_def State_Monad.return_def
      State_Monad.get_def State_Monad.set_def split: prod.splits)

subsection \<open>\<^verbatim>\<open>hipobj-test-install\<close>\<close>

definition usage :: "'e stdio \<Rightarrow> stream \<Rightarrow> string \<Rightarrow> ('e, unit outcome) state" where
  "usage F st prog = printTo F st (Return (''usage: '' @ prog @ '' [--version] [--help]'' @ [CHR 0x0A]))"

fun testInstallLoop :: "'e stdio \<Rightarrow> string \<Rightarrow> string list \<Rightarrow> bool \<Rightarrow> bool \<Rightarrow> ('e, (int + bool \<times> bool) outcome) state" where
  "testInstallLoop F prog [] helpArg versionArg = State_Monad.return (Return (Inr (helpArg, versionArg)))"
| "testInstallLoop F prog (a # as) helpArg versionArg =
     (if a = ''--help'' then testInstallLoop F prog as True versionArg
      else if a = ''--version'' then testInstallLoop F prog as helpArg True
      else bindO (printTo F Stderr (Return (''hipobj-test-install: unknown argument '' @ a @ [CHR 0x0A]))) (\<lambda>_.
        bindO (usage F Stderr prog) (\<lambda>_. State_Monad.return (Return (Inl 2)))))"

definition testInstallRun :: "'e stdio \<Rightarrow> int \<Rightarrow> string list \<Rightarrow> ('e, int outcome) state" where
  "testInstallRun F argc argv =
     (let args = argSpan argc argv; prog = (if args = [] then ''hipobj-test-install'' else args ! 0) in
      bindO (testInstallLoop F prog (drop 1 args) False False) (\<lambda>parsed.
        case parsed of
          Inl status \<Rightarrow> State_Monad.return (Return status)
        | Inr (helpArg, versionArg) \<Rightarrow>
            if helpArg then bindO (usage F Stdout prog) (\<lambda>_. State_Monad.return (Return 0))
            else if versionArg
            then bindO (printTo F Stdout (Return (''hipobj-test-install (hipObject '' @ hipObjGetVersionString @ '')'' @ [CHR 0x0A])))
                   (\<lambda>_. State_Monad.return (Return 0))
            else bindO (printTo F Stderr (Return (''hipobj-test-install: the checks aren't implemented yet'' @ [CHR 0x0A])))
                   (\<lambda>_. State_Monad.return (Return 1))))"

text \<open>The status does not depend on the streams: it is that of \<^const>\<open>testInstallMain\<close>.\<close>

lemma testInstallLoop_result:
  "fst (run_state (testInstallLoop F prog as helpArg versionArg) e) =
     Return (case testInstallArgs as helpArg versionArg of None \<Rightarrow> Inl 2 | Some x \<Rightarrow> Inr x)"
  by (induction as arbitrary: helpArg versionArg)
     (auto simp: bindO_def usage_def printTo_run State_Monad.bind_def State_Monad.return_def split: prod.splits)

theorem test_install_status: "fst (run_state (testInstallRun F argc argv) e) = Return (testInstallMain argc argv)"
proof -
  define prog where "prog = (if argSpan argc argv = [] then ''hipobj-test-install'' else argSpan argc argv ! 0)"
  obtain e' where "run_state (testInstallLoop F prog (drop 1 (argSpan argc argv)) False False) e =
      (Return (case testInstallArgs (drop 1 (argSpan argc argv)) False False of None \<Rightarrow> Inl 2 | Some x \<Rightarrow> Inr x), e')"
    using testInstallLoop_result [of F prog "drop 1 (argSpan argc argv)" False False e] by (metis prod.collapse)
  then show ?thesis
    by (auto simp: testInstallRun_def testInstallMain_def Let_def prog_def [symmetric] bindO_def usage_def printTo_run
        State_Monad.bind_def State_Monad.return_def split: option.splits)
qed

end
