(* ===== verification/Owning_Ptr.thy ===== *)
theory Owning_Ptr
  imports Sample_Platform
begin

text \<open>
  The owning pointers of \<^verbatim>\<open>src/common/ibv-ptr.h\<close>, with \<^verbatim>\<open>HostBufPtr\<close> of \<^verbatim>\<open>src/buffer.h\<close> and
  \<^verbatim>\<open>HipEventPtr\<close> of \<^verbatim>\<open>src/common/hip-seam.h\<close>: a \<^verbatim>\<open>std::unique_ptr\<close> whose deleter holds the interface that
  its object came from and releases the object through it.

  Elsewhere in the development a function's pointers are its local objects, with the calls of their
  deleters written out where C++ makes them. Here the pointers themselves are modelled, and the
  lemmas show what makes that reading sound: however pointers are created, moved, reset and
  destroyed, an object is released once, by its own deleter, and is left alive only by
  \<^verbatim>\<open>dropOwnership\<close>.
\<close>

subsection \<open>Objects and the interfaces they come from\<close>

text \<open>
  The Verbs or HipRuntime that a deleter holds is a pointer; its number stands for it, and
  \<open>'e interfaces\<close> gives the interface it points to.
\<close>

type_synonym 'e interfaces = "nat \<Rightarrow> 'e Verbs \<times> 'e HipRuntime"

datatype object =
  ObjDeviceList "addr \<times> nat" | ObjContext ibv_context | ObjPd ibv_pd | ObjCq ibv_cq | ObjQp ibv_qp
| ObjMr ibv_mr | ObjHostBuf handle | ObjEvent handle

fun resource_of :: "object \<Rightarrow> resource" where
  "resource_of (ObjDeviceList l) = DeviceList (snd l)"
| "resource_of (ObjContext c) = Context (ctx_serial c)"
| "resource_of (ObjPd p) = Pd (pd_serial p)"
| "resource_of (ObjCq q) = Cq (cq_serial q)"
| "resource_of (ObjQp q) = Qp (qp_serial q)"
| "resource_of (ObjMr m) = Mr (mr_serial m)"
| "resource_of (ObjHostBuf b) = HostBuf (snd b)"
| "resource_of (ObjEvent b) = Event (snd b)"

text \<open>The call operator of the deleter for an object of each type.\<close>

fun run_deleter :: "'e Verbs \<times> 'e HipRuntime \<Rightarrow> object \<Rightarrow> ('e world, unit) state" where
  "run_deleter (V, H) (ObjDeviceList l) = IbvDeviceListDeleter V l"
| "run_deleter (V, H) (ObjContext c) = IbvContextDeleter V c"
| "run_deleter (V, H) (ObjPd p) = IbvPdDeleter V p"
| "run_deleter (V, H) (ObjCq q) = IbvCqDeleter V q"
| "run_deleter (V, H) (ObjQp q) = IbvQpDeleter V q"
| "run_deleter (V, H) (ObjMr m) = IbvMrDeleter V m"
| "run_deleter (V, H) (ObjHostBuf b) = HostBufDeleter H b"
| "run_deleter (V, H) (ObjEvent b) = HipEventDeleter H b"

text \<open>The calls whose results the library gives to \<^verbatim>\<open>own\<close>. A call that fails gives it a null pointer.\<close>

datatype request =
  GetDeviceList | OpenDevice ibv_device | AllocPd ibv_context | CreateCq ibv_context int
| CreateQp ibv_pd ibv_qp_init_attr | RegMr ibv_pd addr size_t u32
| RegDmabufMr ibv_pd u64 size_t u64 int u32 | HostMalloc size_t | EventCreate

definition fmapS :: "('a \<Rightarrow> 'b) \<Rightarrow> ('s, 'a) state \<Rightarrow> ('s, 'b) state" where
  "fmapS f m = do { a \<leftarrow> m; State_Monad.return (f a) }"

fun request_object :: "'e Verbs \<times> 'e HipRuntime \<Rightarrow> request \<Rightarrow> ('e world, object option) state" where
  "request_object (V, H) GetDeviceList = fmapS (map_option (\<lambda>(p, n, ds). ObjDeviceList (p, n))) (get_device_list V)"
| "request_object (V, H) (OpenDevice d) = fmapS (map_option ObjContext) (open_device V d)"
| "request_object (V, H) (AllocPd c) = fmapS (map_option ObjPd) (alloc_pd V c)"
| "request_object (V, H) (CreateCq c n) = fmapS (map_option ObjCq) (create_cq V c n)"
| "request_object (V, H) (CreateQp p attr) = fmapS (map_option ObjQp) (create_qp V p attr)"
| "request_object (V, H) (RegMr p a n acc) = fmapS (map_option ObjMr) (reg_mr V p a n acc)"
| "request_object (V, H) (RegDmabufMr p off n iova fd acc) =
     fmapS (map_option ObjMr) (reg_dmabuf_mr V p off n iova fd acc)"
| "request_object (V, H) (HostMalloc n) = fmapS (map_option ObjHostBuf \<circ> snd) (hostMalloc H n)"
| "request_object (V, H) EventCreate = fmapS (map_option ObjEvent) (eventCreate H)"

subsection \<open>The pointers\<close>

text \<open>An owned object is kept with the number of the interface it came from, which no code reads.\<close>

type_synonym owned = "nat \<times> object"

record owning_ptr =
  up_ptr :: "owned option"
  up_deleter :: nat

definition own :: "nat \<Rightarrow> owned option \<Rightarrow> owning_ptr" where
  "own dependency raw_ptr = \<lparr>up_ptr = raw_ptr, up_deleter = dependency\<rparr>"

text \<open>What \<^verbatim>\<open>std::unique_ptr\<close> does: \<^verbatim>\<open>release\<close>, the destructor and \<^verbatim>\<open>reset\<close>.\<close>

definition release_ptr :: "owning_ptr \<Rightarrow> owned option \<times> owning_ptr" where
  "release_ptr u = (up_ptr u, u\<lparr>up_ptr := None\<rparr>)"

definition dropOwnership :: "owning_ptr \<Rightarrow> owning_ptr" where
  "dropOwnership u = snd (release_ptr u)"

text \<open>A run of a deleter is recorded with the interface it used.\<close>

type_synonym releases = "(nat \<times> owned) list"

definition destroy_ptr :: "'e interfaces \<Rightarrow> owning_ptr \<Rightarrow> ('e world, releases) state" where
  "destroy_ptr I u = (case up_ptr u of
       None \<Rightarrow> State_Monad.return []
     | Some ob \<Rightarrow> do {
         _ \<leftarrow> run_deleter (I (up_deleter u)) (snd ob);
         State_Monad.return [(up_deleter u, ob)]
       })"

definition reset_ptr :: "'e interfaces \<Rightarrow> owned option \<Rightarrow> owning_ptr \<Rightarrow> ('e world, owning_ptr \<times> releases) state" where
  "reset_ptr I p u = do {
     rel \<leftarrow> destroy_ptr I u;
     State_Monad.return (u\<lparr>up_ptr := p\<rparr>, rel)
   }"

text \<open>
  Move assignment is \<^verbatim>\<open>reset(source.release())\<close>, through the deleter that the target had, and then the
  source's deleter is assigned. The pointers of a scope are a list, so that a pointer can be moved
  to itself.
\<close>

definition move_assign ::
  "'e interfaces \<Rightarrow> nat \<Rightarrow> nat \<Rightarrow> owning_ptr list \<Rightarrow> ('e world, owning_ptr list \<times> releases) state" where
  "move_assign I i j us =
     (let (p, source) = release_ptr (us ! j); us' = us[j := source] in do {
        (target, rel) \<leftarrow> reset_ptr I p (us' ! i);
        State_Monad.return (us'[i := target\<lparr>up_deleter := up_deleter source\<rparr>], rel)
      })"

subsection \<open>A scope with owning pointers\<close>

text \<open>
  What code does with the pointers of a scope; a number is the position of a pointer, in the order
  in which they were created. A position that is not there names no pointer and does nothing. At the end of the
  scope the pointers are destroyed in reverse order.
\<close>

datatype ptr_op =
  OwnNew nat request
| MoveInit nat
| MoveAssign nat nat
| AssignNull nat
| DropOwnership nat

fun op_positions :: "ptr_op \<Rightarrow> nat list" where
  "op_positions (OwnNew k r) = []"
| "op_positions (MoveInit j) = [j]"
| "op_positions (MoveAssign i j) = [i, j]"
| "op_positions (AssignNull i) = [i]"
| "op_positions (DropOwnership i) = [i]"

record scope =
  pointers :: "owning_ptr list"
  released :: releases
  leaked :: "owned list"

fun ptr_step :: "'e interfaces \<Rightarrow> ptr_op \<Rightarrow> scope \<Rightarrow> ('e world, scope) state" where
  "ptr_step I (OwnNew k r) S = do {
     x \<leftarrow> request_object (I k) r;
     State_Monad.return (S\<lparr>pointers := pointers S @ [own k (map_option (Pair k) x)]\<rparr>)
   }"
| "ptr_step I (MoveInit j) S = do {
     let (p, source) = release_ptr (pointers S ! j);
     State_Monad.return (S\<lparr>pointers := (pointers S)[j := source] @ [own (up_deleter source) p]\<rparr>)
   }"
| "ptr_step I (MoveAssign i j) S = do {
     (us, rel) \<leftarrow> move_assign I i j (pointers S);
     State_Monad.return (S\<lparr>pointers := us, released := released S @ rel\<rparr>)
   }"
| "ptr_step I (AssignNull i) S = do {
     (u, rel) \<leftarrow> reset_ptr I None (pointers S ! i);
     State_Monad.return (S\<lparr>pointers := (pointers S)[i := u], released := released S @ rel\<rparr>)
   }"
| "ptr_step I (DropOwnership i) S =
     State_Monad.return (S\<lparr>pointers := (pointers S)[i := dropOwnership (pointers S ! i)],
       leaked := leaked S @ (case up_ptr (pointers S ! i) of None \<Rightarrow> [] | Some ob \<Rightarrow> [ob])\<rparr>)"

fun ptr_steps :: "'e interfaces \<Rightarrow> ptr_op list \<Rightarrow> scope \<Rightarrow> ('e world, scope) state" where
  "ptr_steps I [] S = State_Monad.return S"
| "ptr_steps I (x # xs) S = do {
     S' \<leftarrow> (if list_all (\<lambda>i. i < length (pointers S)) (op_positions x)
            then ptr_step I x S else State_Monad.return S);
     ptr_steps I xs S'
   }"

fun destroy_all :: "'e interfaces \<Rightarrow> owning_ptr list \<Rightarrow> ('e world, releases) state" where
  "destroy_all I [] = State_Monad.return []"
| "destroy_all I (u # us) = do {
     rel \<leftarrow> destroy_all I us;
     rel' \<leftarrow> destroy_ptr I u;
     State_Monad.return (rel @ rel')
   }"

definition run_scope :: "'e interfaces \<Rightarrow> ptr_op list \<Rightarrow> ('e world, scope) state" where
  "run_scope I xs = do {
     S \<leftarrow> ptr_steps I xs \<lparr>pointers = [], released = [], leaked = []\<rparr>;
     rel \<leftarrow> destroy_all I (pointers S);
     State_Monad.return (S\<lparr>pointers := [], released := released S @ rel\<rparr>)
   }"

subsection \<open>What an interface promises about its objects\<close>

text \<open>
  A request logs the one object it returns, and a deleter logs that its object is released,
  whatever the call underneath returns.
\<close>

locale owned_objects =
  fixes request :: "'r \<Rightarrow> ('e world, 'ob option) state"
    and deleter :: "'ob \<Rightarrow> ('e world, unit) state"
    and res :: "'ob \<Rightarrow> resource"
  assumes request_live:
    "wp (request r) (\<lambda>x w'. live (log w') = adds (case x of None \<Rightarrow> {#} | Some ob \<Rightarrow> {#res ob#}) (live (log w))) w"
    and deleter_log: "wp (deleter ob) (\<lambda>_ w'. log w' = log w @ [Release (res ob)]) w"
begin

lemma request_adds:
  "live (log w) = adds A L \<Longrightarrow>
   wp (request r) (\<lambda>x w'. live (log w') = adds ((case x of None \<Rightarrow> {#} | Some ob \<Rightarrow> {#res ob#}) + A) L) w"
  by (rule wp_conseq [OF request_live]) simp

lemma deleter_adds: "live (log w) = adds A L \<Longrightarrow> res ob \<in># A \<Longrightarrow>
   wp (deleter ob) (\<lambda>_ w'. live (log w') = adds (A - {#res ob#}) L) w"
  by (rule wp_conseq [OF deleter_log]) simp

lemma deleter_twice: "live (log w) = Some (add_mset (res ob) M) \<Longrightarrow> res ob \<notin># M \<Longrightarrow>
   wp (do { _ \<leftarrow> deleter ob; deleter ob }) (\<lambda>_ w'. live (log w') = None) w"
  by (rule wp_bindI [OF deleter_log], rule wp_conseq [OF deleter_log]) simp

end

lemma wp_fmapS [simp]: "wp (fmapS f m) Q s \<longleftrightarrow> wp m (\<lambda>a. Q (f a)) s"
  by (simp add: fmapS_def wp_return_fun)

interpretation objects: owned_objects "request_object VH" "run_deleter VH" resource_of for VH :: "'e Verbs \<times> 'e HipRuntime"
proof (unfold_locales, goal_cases)
  case (1 r w)
  then show ?case by (cases VH; cases r) (auto intro!: wp_intro)
next
  case (2 ob w)
  then show ?case by (cases VH; cases ob) (auto intro!: wp_intro)
qed

subsection \<open>The invariant of a scope\<close>

definition held :: "owning_ptr list \<Rightarrow> resource multiset" where
  "held us = total (\<lambda>ob. {#resource_of (snd ob)#}) (map up_ptr us)"

text \<open>The deleter of a pointer that owns something holds the interface that the object came from.\<close>

definition own_deleter :: "owning_ptr \<Rightarrow> bool" where
  "own_deleter u \<longleftrightarrow> (case up_ptr u of None \<Rightarrow> True | Some ob \<Rightarrow> up_deleter u = fst ob)"

abbreviation by_own_deleter :: "releases \<Rightarrow> bool" where
  "by_own_deleter rel \<equiv> list_all (\<lambda>(d, ob). d = fst ob) rel"

definition scope_inv :: "resource multiset option \<Rightarrow> scope \<Rightarrow> 'e world \<Rightarrow> bool" where
  "scope_inv L S w \<longleftrightarrow>
     live (log w) = adds (held (pointers S) + image_mset (resource_of \<circ> snd) (mset (leaked S))) L \<and>
     list_all own_deleter (pointers S) \<and> by_own_deleter (released S)"

abbreviation ptr_resources :: "owned option \<Rightarrow> resource multiset" where
  "ptr_resources p \<equiv> (case p of None \<Rightarrow> {#} | Some ob \<Rightarrow> {#resource_of (snd ob)#})"

definition held_but :: "nat \<Rightarrow> owning_ptr list \<Rightarrow> resource multiset" where
  "held_but i us = total_but (\<lambda>ob. {#resource_of (snd ob)#}) i (map up_ptr us)"

lemma held_simps [simp]:
  "held [] = {#}" "held (us @ [u]) = held us + ptr_resources (up_ptr u)"
  "held (u # us) = ptr_resources (up_ptr u) + held us"
  by (auto simp: held_def total_Cons split: option.splits)

lemma held_at: "i < length us \<Longrightarrow> held us = ptr_resources (up_ptr (us ! i)) + held_but i us"
  using total_split [of i "map up_ptr us"] by (simp add: held_def held_but_def)

lemma held_upd: "i < length us \<Longrightarrow> held (us[i := u]) = ptr_resources (up_ptr u) + held_but i us"
  by (simp add: held_def held_but_def map_update total_update)

text \<open>Destroying a pointer releases what it holds, and nothing else.\<close>

lemma wp_destroy_ptr:
  assumes "live (log w) = adds (ptr_resources (up_ptr u) + A) L" "own_deleter u"
  shows "wp (destroy_ptr I u) (\<lambda>rel w'. live (log w') = adds A L \<and> by_own_deleter rel) w"
proof (cases "up_ptr u")
  case (Some ob)
  then show ?thesis
    using assms objects.deleter_adds [of w "add_mset (resource_of (snd ob)) A" L "snd ob" "I (up_deleter u)"]
    by (simp add: destroy_ptr_def own_deleter_def wp_return_fun)
qed (use assms in \<open>simp add: destroy_ptr_def\<close>)

lemma wp_destroy_all:
  assumes "live (log w) = adds (held us + A) L" "list_all own_deleter us"
  shows "wp (destroy_all I us) (\<lambda>rel w'. live (log w') = adds A L \<and> by_own_deleter rel) w"
  using assms
proof (induction us arbitrary: A)
  case (Cons u us)
  have "live (log w) = adds (held us + (ptr_resources (up_ptr u) + A)) L"
    using Cons.prems by (simp add: ac_simps)
  from Cons.IH [OF this] Cons.prems show ?case
    by (auto elim!: wp_bindI intro!: wp_bindI [OF wp_destroy_ptr] simp del: wp_bind_iff)
qed simp

text \<open>Every step keeps the invariant, and only \<^verbatim>\<open>dropOwnership\<close> can leave an object behind.\<close>

lemma own_deleter_upd: "list_all own_deleter us \<Longrightarrow> own_deleter u \<Longrightarrow> list_all own_deleter (us[i := u])"
  using set_update_subset_insert [of us i u] by (auto simp: list_all_iff)

lemma own_deleter_at: "list_all own_deleter us \<Longrightarrow> i < length us \<Longrightarrow> own_deleter (us ! i)"
  by (simp add: list_all_length)

lemma wp_reset_ptr:
  assumes "live (log w) = adds (ptr_resources (up_ptr u) + A) L" "own_deleter u"
  shows "wp (reset_ptr I p u) (\<lambda>r w'. live (log w') = adds A L \<and> fst r = u\<lparr>up_ptr := p\<rparr> \<and> by_own_deleter (snd r)) w"
  using assms unfolding reset_ptr_def by (intro wp_bindI [OF wp_destroy_ptr]) auto

lemma own_deleter_None [simp]: "own_deleter (u\<lparr>up_ptr := None\<rparr>)"
  by (simp add: own_deleter_def)

lemma wp_move_assign:
  assumes "live (log w) = adds (held us + A) L" "list_all own_deleter us" "i < length us" "j < length us"
  shows "wp (move_assign I i j us) (\<lambda>r w'. live (log w') = adds (held (fst r) + A) L \<and>
           list_all own_deleter (fst r) \<and> by_own_deleter (snd r)) w"
proof -
  define us' where "us' = us[j := (us ! j)\<lparr>up_ptr := None\<rparr>]"
  let ?B = "held_but i us'"
  have ok: "own_deleter (us ! j)" "list_all own_deleter us'"
    using assms by (auto simp: us'_def own_deleter_at intro!: own_deleter_upd)
  have h: "held us = ptr_resources (up_ptr (us ! j)) + (ptr_resources (up_ptr (us' ! i)) + ?B)"
    using assms held_at [of j us] held_upd [of j us] held_at [of i us'] by (simp add: us'_def)
  have *: "live (log w) = adds (ptr_resources (up_ptr (us' ! i)) + (ptr_resources (up_ptr (us ! j)) + ?B + A)) L"
    using assms(1) h by (simp add: ac_simps)
  have "own_deleter (us' ! i)"
    using ok assms by (simp add: own_deleter_at us'_def)
  note r = wp_reset_ptr [OF * this, of I "up_ptr (us ! j)"]
  have d: "own_deleter ((us' ! i)\<lparr>up_ptr := up_ptr (us ! j), up_deleter := up_deleter (us ! j)\<rparr>)"
    using ok by (auto simp: own_deleter_def split: option.splits)
  have m: "move_assign I i j us = do {
      r \<leftarrow> reset_ptr I (up_ptr (us ! j)) (us' ! i);
      State_Monad.return (us'[i := (fst r)\<lparr>up_deleter := up_deleter (us ! j)\<rparr>], snd r) }"
    by (simp add: move_assign_def release_ptr_def us'_def Let_def case_prod_unfold)
  have i: "i < length us'"
    using assms by (simp add: us'_def)
  show ?thesis
    unfolding m by (rule wp_bindI [OF r]) (use held_upd [OF i] ok(2) d in \<open>auto intro: own_deleter_upd\<close>)
qed

definition is_drop :: "ptr_op \<Rightarrow> bool" where
  "is_drop x \<longleftrightarrow> (case x of DropOwnership i \<Rightarrow> True | _ \<Rightarrow> False)"

lemma wp_ptr_step:
  assumes "scope_inv L S w" "list_all (\<lambda>i. i < length (pointers S)) (op_positions x)"
  shows "wp (ptr_step I x S) (\<lambda>S' w'. scope_inv L S' w' \<and>
           length (leaked S') \<le> length (leaked S) + (if is_drop x then 1 else 0)) w"
proof -
  let ?us = "pointers S"
  define A where "A = image_mset (resource_of \<circ> snd) (mset (leaked S))"
  have live: "live (log w) = adds (held ?us + A) L" and ok: "list_all own_deleter ?us" "by_own_deleter (released S)"
    using assms(1) by (simp_all add: scope_inv_def A_def)
  show ?thesis
  proof (cases x)
    case (OwnNew k r)
    show ?thesis
      unfolding OwnNew ptr_step.simps
      by (rule wp_bindI [OF objects.request_adds [OF live]])
        (use ok in \<open>auto simp: scope_inv_def own_def own_deleter_def is_drop_def A_def ac_simps split: option.splits\<close>)
  next
    case (MoveInit j)
    then show ?thesis
      using assms(2) live ok held_at [of j ?us] held_upd [of j ?us] own_deleter_at [OF ok(1), of j]
      by (auto simp: scope_inv_def release_ptr_def own_def own_deleter_def [of "\<lparr>up_ptr = _, up_deleter = _\<rparr>"]
          own_deleter_def [of "?us ! j"] is_drop_def A_def ac_simps intro!: own_deleter_upd split: option.splits)
  next
    case (MoveAssign i j)
    then show ?thesis
      using assms(2) ok by (auto simp: scope_inv_def is_drop_def A_def wp_return_fun split_beta
          intro!: wp_conseq [OF wp_move_assign [OF live ok(1)]])
  next
    case (AssignNull i)
    have "live (log w) = adds (ptr_resources (up_ptr (?us ! i)) + (held_but i ?us + A)) L"
      using live held_at [of i ?us] assms(2) AssignNull by (simp add: ac_simps)
    with AssignNull show ?thesis
      using assms(2) ok held_upd [of i ?us] own_deleter_at [OF ok(1), of i]
      by (auto simp: scope_inv_def is_drop_def A_def wp_return_fun split_beta
          intro!: wp_conseq [OF wp_reset_ptr] own_deleter_upd)
  next
    case (DropOwnership i)
    then show ?thesis
      using assms(2) live ok held_at [of i ?us] held_upd [of i ?us]
      by (auto simp: scope_inv_def dropOwnership_def release_ptr_def is_drop_def A_def ac_simps
          intro!: own_deleter_upd split: option.splits)
  qed
qed

lemma wp_ptr_steps:
  "scope_inv L S w \<Longrightarrow>
   wp (ptr_steps I xs S) (\<lambda>S' w'. scope_inv L S' w' \<and>
     length (leaked S') \<le> length (leaked S) + length (filter is_drop xs)) w"
proof (induction xs arbitrary: S w)
  case (Cons x xs)
  let ?allowed = "list_all (\<lambda>i. i < length (pointers S)) (op_positions x)"
  have "wp (if ?allowed then ptr_step I x S else State_Monad.return S) (\<lambda>S' w'. scope_inv L S' w' \<and>
          length (leaked S') \<le> length (leaked S) + (if is_drop x then 1 else 0)) w"
    using Cons.prems by (auto intro: wp_conseq [OF wp_ptr_step])
  then show ?case
    unfolding ptr_steps.simps by (rule wp_bindI) (auto intro!: wp_conseq [OF Cons.IH])
qed simp

text \<open>C11. Whatever code does with the owning pointers of a scope, from any number of interfaces, when the
  scope ends nothing has been released twice, everything the scope acquired has been released, except
  for objects given to \<^verbatim>\<open>dropOwnership\<close>, at most one for each call of it, and every object was released through the
  interface it came from.\<close>

theorem owning_pointers_release_once:
  "wp (run_scope I xs) (\<lambda>S w'.
     live (log w') = adds (mset (map (resource_of \<circ> snd) (leaked S))) (live (log w)) \<and>
     length (leaked S) \<le> length (filter is_drop xs) \<and>
     list_all (\<lambda>(d, ob). d = fst ob) (released S)) w"
proof -
  have "scope_inv (live (log w)) \<lparr>pointers = [], released = [], leaked = []\<rparr> w"
    by (simp add: scope_inv_def)
  from wp_ptr_steps [OF this, of I xs] show ?thesis
    unfolding run_scope_def
    by (rule wp_bindI) (auto simp: scope_inv_def wp_return_fun intro!: wp_conseq [OF wp_destroy_all])
qed

text \<open>
  The warning of \<^verbatim>\<open>ibv-ptr.h\<close>: assigning null to a pointer whose object was already destroyed by hand
  releases the object a second time, and \<^verbatim>\<open>dropOwnership\<close> does not.
\<close>

theorem destroyed_by_hand:
  assumes "live (log w) = Some (add_mset (resource_of ob) M)" "resource_of ob \<notin># M"
  shows "wp (do { _ \<leftarrow> run_deleter (I k) ob; reset_ptr I None (own k (Some (k, ob))) })
           (\<lambda>_ w'. live (log w') = None) w"
    and "wp (do { _ \<leftarrow> run_deleter (I k) ob; destroy_ptr I (dropOwnership (own k (Some (k, ob)))) })
           (\<lambda>_ w'. live (log w') = Some M) w"
  using objects.deleter_twice [OF assms, of "I k"] objects.deleter_adds [of w "{#resource_of ob#}" "Some M" ob "I k"] assms
  by (simp_all add: reset_ptr_def destroy_ptr_def own_def dropOwnership_def release_ptr_def
      wp_return_fun wp_bind_fun)

end
