(* ===== verification/Ibv_Abi.thy ===== *)
theory Ibv_Abi
  imports Ibv_Core
begin

text \<open>
  \<^verbatim>\<open>src/common/ibv-core.h\<close> as a binary interface. The header repeats the declarations of rdma-core's
  \<^verbatim>\<open>verbs.h\<close>, and the structures are passed to a libibverbs that was built from those, so what matters about them is where
  each member lies. This theory has every structure with all its members in order, the layout that the
  System V ABI gives them on x86-64, and every enumeration with its values.

  The lemmas show that the layout rule keeps members aligned, apart from each other and inside
  their structure, for any structure; the properties apply it to those of the header, with the sizes
  and the offsets that code on the other side of the interface relies on. \<^verbatim>\<open>pthread_mutex_t\<close> and \<^verbatim>\<open>pthread_cond_t\<close> come from
  the system, so they are parameters.
\<close>

subsection \<open>Types and their layout\<close>

text \<open>A scalar is aligned to its size; an opaque type has a size and an alignment.\<close>

datatype ctype =
  CScalar nat
| COpaque nat nat
| CArray ctype nat
| CStruct "(string \<times> ctype) list"
| CUnion "(string \<times> ctype) list"

definition align_up :: "nat \<Rightarrow> nat \<Rightarrow> nat" where
  "align_up a n = (n + a - 1) div a * a"

text \<open>The offsets of members with the given sizes and alignments, and the first free byte after them.\<close>

fun place :: "nat \<Rightarrow> (nat \<times> nat) list \<Rightarrow> nat list" where
  "place off [] = []"
| "place off ((sz, al) # ms) = align_up al off # place (align_up al off + sz) ms"

fun place_end :: "nat \<Rightarrow> (nat \<times> nat) list \<Rightarrow> nat" where
  "place_end off [] = off"
| "place_end off ((sz, al) # ms) = place_end (align_up al off + sz) ms"

definition max_align :: "(nat \<times> nat) list \<Rightarrow> nat" where
  "max_align ms = foldr max (map snd ms) 1"

text \<open>The size and the alignment of a type.\<close>

primrec size_align :: "ctype \<Rightarrow> nat \<times> nat" where
  "size_align (CScalar n) = (n, n)"
| "size_align (COpaque n a) = (n, a)"
| "size_align (CArray t n) = (n * fst (size_align t), snd (size_align t))"
| "size_align (CStruct ms) =
     (let ls = map snd (map (map_prod id size_align) ms); a = max_align ls in (align_up a (place_end 0 ls), a))"
| "size_align (CUnion ms) =
     (let ls = map snd (map (map_prod id size_align) ms); a = max_align ls
      in (align_up a (foldr max (map fst ls) 0), a))"

abbreviation sizeof :: "ctype \<Rightarrow> nat" where "sizeof t \<equiv> fst (size_align t)"
abbreviation alignof :: "ctype \<Rightarrow> nat" where "alignof t \<equiv> snd (size_align t)"

primrec members :: "ctype \<Rightarrow> (string \<times> ctype) list" where
  "members (CScalar n) = []"
| "members (COpaque n a) = []"
| "members (CArray t n) = []"
| "members (CStruct ms) = ms"
| "members (CUnion ms) = ms"

definition offsets :: "ctype \<Rightarrow> nat list" where
  "offsets t = (case t of
       CStruct ms \<Rightarrow> place 0 (map (size_align \<circ> snd) ms)
     | _ \<Rightarrow> map (\<lambda>m. 0) (members t))"

text \<open>\<^verbatim>\<open>offsetof\<close>, for a path of member names.\<close>

fun offsetof :: "ctype \<Rightarrow> string list \<Rightarrow> nat option" where
  "offsetof t [] = Some 0"
| "offsetof t (nm # nms) = (case map_of (zip (map fst (members t)) (zip (offsets t) (map snd (members t)))) nm of
       None \<Rightarrow> None
     | Some (off, u) \<Rightarrow> map_option ((+) off) (offsetof u nms))"

subsection \<open>Scalars\<close>

abbreviation u8_t :: ctype where "u8_t \<equiv> CScalar 1"
abbreviation u16_t :: ctype where "u16_t \<equiv> CScalar 2"
abbreviation u32_t :: ctype where "u32_t \<equiv> CScalar 4"
abbreviation u64_t :: ctype where "u64_t \<equiv> CScalar 8"
abbreviation int_t :: ctype where "int_t \<equiv> CScalar 4"
abbreviation char_t :: ctype where "char_t \<equiv> CScalar 1"
abbreviation ptr_t :: ctype where "ptr_t \<equiv> CScalar 8"
abbreviation enum_t :: ctype where "enum_t \<equiv> CScalar 4"

definition IBV_SYSFS_NAME_MAX :: nat where "IBV_SYSFS_NAME_MAX = 64"
definition IBV_SYSFS_PATH_MAX :: nat where "IBV_SYSFS_PATH_MAX = 256"

subsection \<open>The structures\<close>

definition ibv_gid_t :: ctype where
  "ibv_gid_t = CUnion [
     (''raw'', CArray u8_t 16),
     (''global'', CStruct [(''subnet_prefix'', u64_t), (''interface_id'', u64_t)])]"

definition ibv_gid_entry_t :: ctype where
  "ibv_gid_entry_t = CStruct [
     (''gid'', ibv_gid_t), (''gid_index'', u32_t), (''port_num'', u32_t), (''gid_type'', u32_t),
     (''ndev_ifindex'', u32_t)]"

definition ibv_device_attr_t :: ctype where
  "ibv_device_attr_t = CStruct [
     (''fw_ver'', CArray char_t 64), (''node_guid'', u64_t), (''sys_image_guid'', u64_t),
     (''max_mr_size'', u64_t), (''page_size_cap'', u64_t), (''vendor_id'', u32_t), (''vendor_part_id'', u32_t),
     (''hw_ver'', u32_t), (''max_qp'', int_t), (''max_qp_wr'', int_t), (''device_cap_flags'', u32_t),
     (''max_sge'', int_t), (''max_sge_rd'', int_t), (''max_cq'', int_t), (''max_cqe'', int_t),
     (''max_mr'', int_t), (''max_pd'', int_t), (''max_qp_rd_atom'', int_t), (''max_ee_rd_atom'', int_t),
     (''max_res_rd_atom'', int_t), (''max_qp_init_rd_atom'', int_t), (''max_ee_init_rd_atom'', int_t),
     (''atomic_cap'', enum_t), (''max_ee'', int_t), (''max_rdd'', int_t), (''max_mw'', int_t),
     (''max_raw_ipv6_qp'', int_t), (''max_raw_ethy_qp'', int_t), (''max_mcast_grp'', int_t),
     (''max_mcast_qp_attach'', int_t), (''max_total_mcast_qp_attach'', int_t), (''max_ah'', int_t),
     (''max_fmr'', int_t), (''max_map_per_fmr'', int_t), (''max_srq'', int_t), (''max_srq_wr'', int_t),
     (''max_srq_sge'', int_t), (''max_pkeys'', u16_t), (''local_ca_ack_delay'', u8_t),
     (''phys_port_cnt'', u8_t)]"

definition ibv_port_attr_t :: ctype where
  "ibv_port_attr_t = CStruct [
     (''state'', enum_t), (''max_mtu'', enum_t), (''active_mtu'', enum_t), (''gid_tbl_len'', int_t),
     (''port_cap_flags'', u32_t), (''max_msg_sz'', u32_t), (''bad_pkey_cntr'', u32_t),
     (''qkey_viol_cntr'', u32_t), (''pkey_tbl_len'', u16_t), (''lid'', u16_t), (''sm_lid'', u16_t),
     (''lmc'', u8_t), (''max_vl_num'', u8_t), (''sm_sl'', u8_t), (''subnet_timeout'', u8_t),
     (''init_type_reply'', u8_t), (''active_width'', u8_t), (''active_speed'', u8_t), (''phys_state'', u8_t),
     (''link_layer'', u8_t), (''flags'', u8_t), (''port_cap_flags2'', u16_t), (''active_speed_ex'', u32_t)]"

definition ibv_wc_t :: ctype where
  "ibv_wc_t = CStruct [
     (''wr_id'', u64_t), (''status'', enum_t), (''opcode'', enum_t), (''vendor_err'', u32_t),
     (''byte_len'', u32_t), ('''', CUnion [(''imm_data'', u32_t), (''invalidated_rkey'', u32_t)]),
     (''qp_num'', u32_t), (''src_qp'', u32_t), (''wc_flags'', u32_t), (''pkey_index'', u16_t),
     (''slid'', u16_t), (''sl'', u8_t), (''dlid_path_bits'', u8_t)]"

definition ibv_pd_t :: ctype where
  "ibv_pd_t = CStruct [
     (''context'', ptr_t), (''handle'', u32_t)]"

definition ibv_mr_t :: ctype where
  "ibv_mr_t = CStruct [
     (''context'', ptr_t), (''pd'', ptr_t), (''addr'', ptr_t), (''length'', u64_t), (''handle'', u32_t),
     (''lkey'', u32_t), (''rkey'', u32_t)]"

definition ibv_global_route_t :: ctype where
  "ibv_global_route_t = CStruct [
     (''dgid'', ibv_gid_t), (''flow_label'', u32_t), (''sgid_index'', u8_t), (''hop_limit'', u8_t),
     (''traffic_class'', u8_t)]"

definition ibv_ah_attr_t :: ctype where
  "ibv_ah_attr_t = CStruct [
     (''grh'', ibv_global_route_t), (''dlid'', u16_t), (''sl'', u8_t), (''src_path_bits'', u8_t),
     (''static_rate'', u8_t), (''is_global'', u8_t), (''port_num'', u8_t)]"

definition ibv_qp_cap_t :: ctype where
  "ibv_qp_cap_t = CStruct [
     (''max_send_wr'', u32_t), (''max_recv_wr'', u32_t), (''max_send_sge'', u32_t), (''max_recv_sge'', u32_t),
     (''max_inline_data'', u32_t)]"

definition ibv_qp_init_attr_t :: ctype where
  "ibv_qp_init_attr_t = CStruct [
     (''qp_context'', ptr_t), (''send_cq'', ptr_t), (''recv_cq'', ptr_t), (''srq'', ptr_t),
     (''cap'', ibv_qp_cap_t), (''qp_type'', enum_t), (''sq_sig_all'', int_t)]"

definition ibv_qp_attr_t :: ctype where
  "ibv_qp_attr_t = CStruct [
     (''qp_state'', enum_t), (''cur_qp_state'', enum_t), (''path_mtu'', enum_t), (''path_mig_state'', enum_t),
     (''qkey'', u32_t), (''rq_psn'', u32_t), (''sq_psn'', u32_t), (''dest_qp_num'', u32_t),
     (''qp_access_flags'', u32_t), (''cap'', ibv_qp_cap_t), (''ah_attr'', ibv_ah_attr_t),
     (''alt_ah_attr'', ibv_ah_attr_t), (''pkey_index'', u16_t), (''alt_pkey_index'', u16_t),
     (''en_sqd_async_notify'', u8_t), (''sq_draining'', u8_t), (''max_rd_atomic'', u8_t),
     (''max_dest_rd_atomic'', u8_t), (''min_rnr_timer'', u8_t), (''port_num'', u8_t), (''timeout'', u8_t),
     (''retry_cnt'', u8_t), (''rnr_retry'', u8_t), (''alt_port_num'', u8_t), (''alt_timeout'', u8_t),
     (''rate_limit'', u32_t)]"

definition ibv_qp_t :: "ctype \<Rightarrow> ctype \<Rightarrow> ctype" where
  "ibv_qp_t mutex cond = CStruct [
     (''context'', ptr_t), (''qp_context'', ptr_t), (''pd'', ptr_t), (''send_cq'', ptr_t),
     (''recv_cq'', ptr_t), (''srq'', ptr_t), (''handle'', u32_t), (''qp_num'', u32_t), (''state'', enum_t),
     (''qp_type'', enum_t), (''mutex'', mutex), (''cond'', cond), (''events_completed'', u32_t)]"

definition ibv_sge_t :: ctype where
  "ibv_sge_t = CStruct [
     (''addr'', u64_t), (''length'', u32_t), (''lkey'', u32_t)]"

definition ibv_mw_bind_info_t :: ctype where
  "ibv_mw_bind_info_t = CStruct [
     (''mr'', ptr_t), (''addr'', u64_t), (''length'', u64_t), (''mw_access_flags'', u32_t)]"

definition ibv_send_wr_bind_mw_t :: ctype where
  "ibv_send_wr_bind_mw_t = CStruct [
     (''mw'', ptr_t), (''rkey'', u32_t), (''bind_info'', ibv_mw_bind_info_t)]"

definition ibv_send_wr_tso_t :: ctype where
  "ibv_send_wr_tso_t = CStruct [
     (''hdr'', ptr_t), (''hdr_sz'', u16_t), (''mss'', u16_t)]"

definition ibv_send_wr_t :: ctype where
  "ibv_send_wr_t = CStruct [
     (''wr_id'', u64_t), (''next'', ptr_t), (''sg_list'', ptr_t), (''num_sge'', int_t), (''opcode'', enum_t),
     (''send_flags'', u32_t), ('''', CUnion [(''imm_data'', u32_t), (''invalidate_rkey'', u32_t)]),
     (''wr'', CUnion [(''rdma'', CStruct [(''remote_addr'', u64_t), (''rkey'', u32_t)]),
       (''atomic'', CStruct [(''remote_addr'', u64_t), (''compare_add'', u64_t), (''swap'', u64_t), (''rkey'', u32_t)]),
       (''ud'', CStruct [(''ah'', ptr_t), (''remote_qpn'', u32_t), (''remote_qkey'', u32_t)])]),
     (''qp_type'', CUnion [(''xrc'', CStruct [(''remote_srqn'', u32_t)])]),
     ('''', CUnion [(''bind_mw'', ibv_send_wr_bind_mw_t), (''tso'', ibv_send_wr_tso_t)])]"

definition ibv_recv_wr_t :: ctype where
  "ibv_recv_wr_t = CStruct [
     (''wr_id'', u64_t), (''next'', ptr_t), (''sg_list'', ptr_t), (''num_sge'', int_t)]"

definition ibv_device_ops_t :: ctype where
  "ibv_device_ops_t = CStruct [
     (''_dummy1'', ptr_t), (''_dummy2'', ptr_t)]"

definition ibv_device_t :: ctype where
  "ibv_device_t = CStruct [
     (''_ops'', ibv_device_ops_t), (''node_type'', enum_t), (''transport_type'', enum_t),
     (''name'', CArray char_t IBV_SYSFS_NAME_MAX), (''dev_name'', CArray char_t IBV_SYSFS_NAME_MAX),
     (''dev_path'', CArray char_t IBV_SYSFS_PATH_MAX), (''ibdev_path'', CArray char_t IBV_SYSFS_PATH_MAX)]"

definition ibv_comp_channel_t :: ctype where
  "ibv_comp_channel_t = CStruct [
     (''context'', ptr_t), (''fd'', int_t), (''refcnt'', int_t)]"

definition ibv_srq_t :: "ctype \<Rightarrow> ctype \<Rightarrow> ctype" where
  "ibv_srq_t mutex cond = CStruct [
     (''context'', ptr_t), (''srq_context'', ptr_t), (''pd'', ptr_t), (''handle'', u32_t), (''mutex'', mutex),
     (''cond'', cond), (''events_completed'', u32_t)]"

definition ibv_cq_t :: "ctype \<Rightarrow> ctype \<Rightarrow> ctype" where
  "ibv_cq_t mutex cond = CStruct [
     (''context'', ptr_t), (''channel'', ptr_t), (''cq_context'', ptr_t), (''handle'', u32_t),
     (''cqe'', int_t), (''mutex'', mutex), (''cond'', cond), (''comp_events_completed'', u32_t),
     (''async_events_completed'', u32_t)]"

definition ibv_context_ops_t :: ctype where
  "ibv_context_ops_t = CStruct [
     (''_compat_query_device'', ptr_t), (''_compat_query_port'', ptr_t), (''_compat_alloc_pd'', ptr_t),
     (''_compat_dealloc_pd'', ptr_t), (''_compat_reg_mr'', ptr_t), (''_compat_rereg_mr'', ptr_t),
     (''_compat_dereg_mr'', ptr_t), (''alloc_mw'', ptr_t), (''bind_mw'', ptr_t), (''dealloc_mw'', ptr_t),
     (''_compat_create_cq'', ptr_t), (''poll_cq'', ptr_t), (''req_notify_cq'', ptr_t),
     (''_compat_cq_event'', ptr_t), (''_compat_resize_cq'', ptr_t), (''_compat_destroy_cq'', ptr_t),
     (''_compat_create_srq'', ptr_t), (''_compat_modify_srq'', ptr_t), (''_compat_query_srq'', ptr_t),
     (''_compat_destroy_srq'', ptr_t), (''post_srq_recv'', ptr_t), (''_compat_create_qp'', ptr_t),
     (''_compat_query_qp'', ptr_t), (''_compat_modify_qp'', ptr_t), (''_compat_destroy_qp'', ptr_t),
     (''post_send'', ptr_t), (''post_recv'', ptr_t), (''_compat_create_ah'', ptr_t),
     (''_compat_destroy_ah'', ptr_t), (''_compat_attach_mcast'', ptr_t), (''_compat_detach_mcast'', ptr_t),
     (''_compat_async_event'', ptr_t)]"

definition ibv_context_t :: "ctype \<Rightarrow> ctype \<Rightarrow> ctype" where
  "ibv_context_t mutex cond = CStruct [
     (''device'', ptr_t), (''ops'', ibv_context_ops_t), (''cmd_fd'', int_t), (''async_fd'', int_t),
     (''num_comp_vectors'', int_t), (''mutex'', mutex), (''abi_compat'', ptr_t)]"

text \<open>All of them.\<close>

definition ibv_structures :: "ctype \<Rightarrow> ctype \<Rightarrow> ctype list" where
  "ibv_structures mutex cond = [ibv_gid_t, ibv_gid_entry_t, ibv_device_attr_t, ibv_port_attr_t, ibv_wc_t, ibv_pd_t, ibv_mr_t,
     ibv_global_route_t, ibv_ah_attr_t, ibv_qp_cap_t, ibv_qp_init_attr_t, ibv_qp_attr_t, ibv_qp_t mutex cond, ibv_sge_t,
     ibv_mw_bind_info_t, ibv_send_wr_bind_mw_t, ibv_send_wr_tso_t, ibv_send_wr_t, ibv_recv_wr_t, ibv_device_ops_t,
     ibv_device_t, ibv_comp_channel_t, ibv_srq_t mutex cond, ibv_cq_t mutex cond, ibv_context_ops_t,
     ibv_context_t mutex cond]"

lemmas ibv_structure_defs = ibv_gid_t_def ibv_gid_entry_t_def ibv_device_attr_t_def ibv_port_attr_t_def ibv_wc_t_def
  ibv_pd_t_def ibv_mr_t_def ibv_global_route_t_def ibv_ah_attr_t_def ibv_qp_cap_t_def ibv_qp_init_attr_t_def
  ibv_qp_attr_t_def ibv_qp_t_def ibv_sge_t_def ibv_mw_bind_info_t_def ibv_send_wr_bind_mw_t_def ibv_send_wr_tso_t_def
  ibv_send_wr_t_def ibv_recv_wr_t_def ibv_device_ops_t_def ibv_device_t_def ibv_comp_channel_t_def ibv_srq_t_def
  ibv_cq_t_def ibv_context_ops_t_def ibv_context_t_def

subsection \<open>The enumerations\<close>

text \<open>An enumerator without a value is one more than the one before, and the first is zero.\<close>

type_synonym enumeration = "(string \<times> int option) list"

fun enum_from :: "int \<Rightarrow> enumeration \<Rightarrow> (string \<times> int) list" where
  "enum_from n [] = []"
| "enum_from n ((nm, v) # es) = (let k = (case v of None \<Rightarrow> n | Some k \<Rightarrow> k) in (nm, k) # enum_from (k + 1) es)"

abbreviation enum_values :: "enumeration \<Rightarrow> int list" where
  "enum_values es \<equiv> map snd (enum_from 0 es)"

definition IBV_ACCESS_OPTIONAL_FIRST :: int where "IBV_ACCESS_OPTIONAL_FIRST = push_bit 20 1"
definition IBV_ACCESS_OPTIONAL_LAST :: int where "IBV_ACCESS_OPTIONAL_LAST = push_bit 29 1"
definition IBV_ACCESS_OPTIONAL_RANGE :: int where
  "IBV_ACCESS_OPTIONAL_RANGE = (push_bit 1 IBV_ACCESS_OPTIONAL_LAST - 1) AND NOT (IBV_ACCESS_OPTIONAL_FIRST - 1)"

definition ib_uverbs_access_flags_enum :: enumeration where
  "ib_uverbs_access_flags_enum = [
     (''IB_UVERBS_ACCESS_LOCAL_WRITE'', Some 1), (''IB_UVERBS_ACCESS_REMOTE_WRITE'', Some (push_bit 1 1)),
     (''IB_UVERBS_ACCESS_REMOTE_READ'', Some (push_bit 2 1)),
     (''IB_UVERBS_ACCESS_REMOTE_ATOMIC'', Some (push_bit 3 1)),
     (''IB_UVERBS_ACCESS_MW_BIND'', Some (push_bit 4 1)), (''IB_UVERBS_ACCESS_ZERO_BASED'', Some (push_bit 5 1)),
     (''IB_UVERBS_ACCESS_ON_DEMAND'', Some (push_bit 6 1)), (''IB_UVERBS_ACCESS_HUGETLB'', Some (push_bit 7 1)),
     (''IB_UVERBS_ACCESS_FLUSH_GLOBAL'', Some (push_bit 8 1)),
     (''IB_UVERBS_ACCESS_FLUSH_PERSISTENT'', Some (push_bit 9 1)),
     (''IB_UVERBS_ACCESS_RELAXED_ORDERING'', Some (push_bit 20 1))]"

definition ibv_gid_type_enum :: enumeration where
  "ibv_gid_type_enum = [
     (''IBV_GID_TYPE_IB'', None), (''IBV_GID_TYPE_ROCE_V1'', None), (''IBV_GID_TYPE_ROCE_V2'', None)]"

definition ibv_node_type_enum :: enumeration where
  "ibv_node_type_enum = [
     (''IBV_NODE_UNKNOWN'', Some (-1)), (''IBV_NODE_CA'', Some 1), (''IBV_NODE_SWITCH'', None),
     (''IBV_NODE_ROUTER'', None), (''IBV_NODE_RNIC'', None), (''IBV_NODE_USNIC'', None),
     (''IBV_NODE_USNIC_UDP'', None), (''IBV_NODE_UNSPECIFIED'', None)]"

definition ibv_transport_type_enum :: enumeration where
  "ibv_transport_type_enum = [
     (''IBV_TRANSPORT_UNKNOWN'', Some (-1)), (''IBV_TRANSPORT_IB'', Some 0), (''IBV_TRANSPORT_IWARP'', None),
     (''IBV_TRANSPORT_USNIC'', None), (''IBV_TRANSPORT_USNIC_UDP'', None), (''IBV_TRANSPORT_UNSPECIFIED'', None)]"

definition ibv_atomic_cap_enum :: enumeration where
  "ibv_atomic_cap_enum = [
     (''IBV_ATOMIC_NONE'', None), (''IBV_ATOMIC_HCA'', None), (''IBV_ATOMIC_GLOB'', None)]"

definition ibv_mtu_enum :: enumeration where
  "ibv_mtu_enum = [
     (''IBV_MTU_256'', Some 1), (''IBV_MTU_512'', Some 2), (''IBV_MTU_1024'', Some 3),
     (''IBV_MTU_2048'', Some 4), (''IBV_MTU_4096'', Some 5)]"

definition ibv_port_state_enum :: enumeration where
  "ibv_port_state_enum = [
     (''IBV_PORT_NOP'', Some 0), (''IBV_PORT_DOWN'', Some 1), (''IBV_PORT_INIT'', Some 2),
     (''IBV_PORT_ARMED'', Some 3), (''IBV_PORT_ACTIVE'', Some 4), (''IBV_PORT_ACTIVE_DEFER'', Some 5)]"

definition link_layer_enum :: enumeration where
  "link_layer_enum = [
     (''IBV_LINK_LAYER_UNSPECIFIED'', None), (''IBV_LINK_LAYER_INFINIBAND'', None),
     (''IBV_LINK_LAYER_ETHERNET'', None)]"

definition ibv_wc_flags_enum :: enumeration where
  "ibv_wc_flags_enum = [
     (''IBV_WC_GRH'', Some (push_bit 0 1)), (''IBV_WC_WITH_IMM'', Some (push_bit 1 1)),
     (''IBV_WC_IP_CSUM_OK'', Some (push_bit 2 1)), (''IBV_WC_WITH_INV'', Some (push_bit 3 1)),
     (''IBV_WC_TM_SYNC_REQ'', Some (push_bit 4 1)), (''IBV_WC_TM_MATCH'', Some (push_bit 5 1)),
     (''IBV_WC_TM_DATA_VALID'', Some (push_bit 6 1))]"

definition ibv_wc_opcode_enum :: enumeration where
  "ibv_wc_opcode_enum = [
     (''IBV_WC_SEND'', None), (''IBV_WC_RDMA_WRITE'', None), (''IBV_WC_RDMA_READ'', None),
     (''IBV_WC_COMP_SWAP'', None), (''IBV_WC_FETCH_ADD'', None), (''IBV_WC_BIND_MW'', None),
     (''IBV_WC_LOCAL_INV'', None), (''IBV_WC_TSO'', None), (''IBV_WC_FLUSH'', None),
     (''IBV_WC_ATOMIC_WRITE'', Some 9), (''IBV_WC_RECV'', Some (push_bit 7 1)),
     (''IBV_WC_RECV_RDMA_WITH_IMM'', None)]"

definition ibv_wc_status_enum :: enumeration where
  "ibv_wc_status_enum = [
     (''IBV_WC_SUCCESS'', None), (''IBV_WC_LOC_LEN_ERR'', None), (''IBV_WC_LOC_QP_OP_ERR'', None),
     (''IBV_WC_LOC_EEC_OP_ERR'', None), (''IBV_WC_LOC_PROT_ERR'', None), (''IBV_WC_WR_FLUSH_ERR'', None),
     (''IBV_WC_MW_BIND_ERR'', None), (''IBV_WC_BAD_RESP_ERR'', None), (''IBV_WC_LOC_ACCESS_ERR'', None),
     (''IBV_WC_REM_INV_REQ_ERR'', None), (''IBV_WC_REM_ACCESS_ERR'', None), (''IBV_WC_REM_OP_ERR'', None),
     (''IBV_WC_RETRY_EXC_ERR'', None), (''IBV_WC_RNR_RETRY_EXC_ERR'', None), (''IBV_WC_LOC_RDD_VIOL_ERR'', None),
     (''IBV_WC_REM_INV_RD_REQ_ERR'', None), (''IBV_WC_REM_ABORT_ERR'', None), (''IBV_WC_INV_EECN_ERR'', None),
     (''IBV_WC_INV_EEC_STATE_ERR'', None), (''IBV_WC_FATAL_ERR'', None), (''IBV_WC_RESP_TIMEOUT_ERR'', None),
     (''IBV_WC_GENERAL_ERR'', None), (''IBV_WC_TM_ERR'', None), (''IBV_WC_TM_RNDV_INCOMPLETE'', None)]"

definition ibv_access_flags_enum :: enumeration where
  "ibv_access_flags_enum = [
     (''IBV_ACCESS_LOCAL_WRITE'', Some 1), (''IBV_ACCESS_REMOTE_WRITE'', Some (push_bit 1 1)),
     (''IBV_ACCESS_REMOTE_READ'', Some (push_bit 2 1)), (''IBV_ACCESS_REMOTE_ATOMIC'', Some (push_bit 3 1)),
     (''IBV_ACCESS_MW_BIND'', Some (push_bit 4 1)), (''IBV_ACCESS_ZERO_BASED'', Some (push_bit 5 1)),
     (''IBV_ACCESS_ON_DEMAND'', Some (push_bit 6 1)), (''IBV_ACCESS_HUGETLB'', Some (push_bit 7 1)),
     (''IBV_ACCESS_FLUSH_GLOBAL'', Some (push_bit 8 1)), (''IBV_ACCESS_FLUSH_PERSISTENT'', Some (push_bit 9 1)),
     (''IBV_ACCESS_RELAXED_ORDERING'', Some IBV_ACCESS_OPTIONAL_FIRST)]"

definition ibv_qp_type_enum :: enumeration where
  "ibv_qp_type_enum = [
     (''IBV_QPT_RC'', Some 2), (''IBV_QPT_UC'', None), (''IBV_QPT_UD'', None), (''IBV_QPT_RAW_PACKET'', Some 8),
     (''IBV_QPT_XRC_SEND'', Some 9), (''IBV_QPT_XRC_RECV'', None), (''IBV_QPT_DRIVER'', Some 255)]"

definition ibv_qp_attr_mask_enum :: enumeration where
  "ibv_qp_attr_mask_enum = [
     (''IBV_QP_STATE'', Some (push_bit 0 1)), (''IBV_QP_CUR_STATE'', Some (push_bit 1 1)),
     (''IBV_QP_EN_SQD_ASYNC_NOTIFY'', Some (push_bit 2 1)), (''IBV_QP_ACCESS_FLAGS'', Some (push_bit 3 1)),
     (''IBV_QP_PKEY_INDEX'', Some (push_bit 4 1)), (''IBV_QP_PORT'', Some (push_bit 5 1)),
     (''IBV_QP_QKEY'', Some (push_bit 6 1)), (''IBV_QP_AV'', Some (push_bit 7 1)),
     (''IBV_QP_PATH_MTU'', Some (push_bit 8 1)), (''IBV_QP_TIMEOUT'', Some (push_bit 9 1)),
     (''IBV_QP_RETRY_CNT'', Some (push_bit 10 1)), (''IBV_QP_RNR_RETRY'', Some (push_bit 11 1)),
     (''IBV_QP_RQ_PSN'', Some (push_bit 12 1)), (''IBV_QP_MAX_QP_RD_ATOMIC'', Some (push_bit 13 1)),
     (''IBV_QP_ALT_PATH'', Some (push_bit 14 1)), (''IBV_QP_MIN_RNR_TIMER'', Some (push_bit 15 1)),
     (''IBV_QP_SQ_PSN'', Some (push_bit 16 1)), (''IBV_QP_MAX_DEST_RD_ATOMIC'', Some (push_bit 17 1)),
     (''IBV_QP_PATH_MIG_STATE'', Some (push_bit 18 1)), (''IBV_QP_CAP'', Some (push_bit 19 1)),
     (''IBV_QP_DEST_QPN'', Some (push_bit 20 1)), (''IBV_QP_RATE_LIMIT'', Some (push_bit 25 1))]"

definition ibv_qp_state_enum :: enumeration where
  "ibv_qp_state_enum = [
     (''IBV_QPS_RESET'', None), (''IBV_QPS_INIT'', None), (''IBV_QPS_RTR'', None), (''IBV_QPS_RTS'', None),
     (''IBV_QPS_SQD'', None), (''IBV_QPS_SQE'', None), (''IBV_QPS_ERR'', None), (''IBV_QPS_UNKNOWN'', None)]"

definition ibv_mig_state_enum :: enumeration where
  "ibv_mig_state_enum = [
     (''IBV_MIG_MIGRATED'', None), (''IBV_MIG_REARM'', None), (''IBV_MIG_ARMED'', None)]"

definition ibv_wr_opcode_enum :: enumeration where
  "ibv_wr_opcode_enum = [
     (''IBV_WR_RDMA_WRITE'', None), (''IBV_WR_RDMA_WRITE_WITH_IMM'', None), (''IBV_WR_SEND'', None),
     (''IBV_WR_SEND_WITH_IMM'', None), (''IBV_WR_RDMA_READ'', None), (''IBV_WR_ATOMIC_CMP_AND_SWP'', None),
     (''IBV_WR_ATOMIC_FETCH_AND_ADD'', None), (''IBV_WR_LOCAL_INV'', None), (''IBV_WR_BIND_MW'', None),
     (''IBV_WR_SEND_WITH_INV'', None), (''IBV_WR_TSO'', None), (''IBV_WR_DRIVER1'', None),
     (''IBV_WR_FLUSH'', Some 14), (''IBV_WR_ATOMIC_WRITE'', Some 15)]"

definition ibv_send_flags_enum :: enumeration where
  "ibv_send_flags_enum = [
     (''IBV_SEND_FENCE'', Some (push_bit 0 1)), (''IBV_SEND_SIGNALED'', Some (push_bit 1 1)),
     (''IBV_SEND_SOLICITED'', Some (push_bit 2 1)), (''IBV_SEND_INLINE'', Some (push_bit 3 1))]"

subsection \<open>What a layout guarantees\<close>

text \<open>
  Members with their offsets, sizes and alignments lie between \<open>lo\<close> and \<open>hi\<close>, each at a multiple of its alignment and not
  before the end of the one before it.
\<close>

fun laid_out :: "nat \<Rightarrow> nat \<Rightarrow> (nat \<times> nat \<times> nat) list \<Rightarrow> bool" where
  "laid_out lo hi [] \<longleftrightarrow> lo \<le> hi"
| "laid_out lo hi ((off, sz, al) # ms) \<longleftrightarrow> lo \<le> off \<and> al dvd off \<and> laid_out (off + sz) hi ms"

definition proper :: "nat \<times> nat \<Rightarrow> bool" where
  "proper p \<longleftrightarrow> 0 < snd p \<and> snd p dvd fst p"

definition well_laid_out :: "ctype \<Rightarrow> bool" where
  "well_laid_out t \<longleftrightarrow> proper (size_align t) \<and> (case t of
       CStruct ms \<Rightarrow> laid_out 0 (sizeof t) (zip (offsets t) (map (size_align \<circ> snd) ms))
     | CUnion ms \<Rightarrow> list_all (\<lambda>m. sizeof (snd m) \<le> sizeof t) ms
     | _ \<Rightarrow> True)"

lemma align_up_ge: "0 < a \<Longrightarrow> n \<le> align_up a n"
  using div_mult_mod_eq [of "n + a - 1" a] mod_less_divisor [of a "n + a - 1"] unfolding align_up_def by linarith

lemma align_up_dvd [simp]: "a dvd align_up a n"
  by (simp add: align_up_def)

lemma laid_out_mono: "laid_out lo hi ms \<Longrightarrow> hi \<le> hi' \<Longrightarrow> laid_out lo hi' ms"
  by (induction lo hi ms rule: laid_out.induct) auto

lemma laid_out_place: "list_all (\<lambda>m. 0 < snd m) ms \<Longrightarrow> laid_out off (place_end off ms) (zip (place off ms) ms)"
  by (induction off ms rule: place.induct) (auto simp: align_up_ge)

lemma max_align_pos [simp]: "0 < max_align ms"
  by (induction ms) (auto simp: max_align_def)

lemma size_align_struct: "size_align (CStruct ms) =
    (align_up (max_align (map (size_align \<circ> snd) ms)) (place_end 0 (map (size_align \<circ> snd) ms)),
     max_align (map (size_align \<circ> snd) ms))"
  by (simp add: Let_def comp_def)

lemma size_align_union: "size_align (CUnion ms) =
    (align_up (max_align (map (size_align \<circ> snd) ms)) (foldr max (map (sizeof \<circ> snd) ms) 0),
     max_align (map (size_align \<circ> snd) ms))"
  by (simp add: Let_def comp_def)

lemma foldr_max_ge: "x \<in> set xs \<Longrightarrow> x \<le> foldr max xs (0 :: nat)"
  by (induction xs) auto

lemma struct_laid_out:
  assumes "list_all (\<lambda>m. proper (size_align (snd m))) ms"
  shows "well_laid_out (CStruct ms)"
proof -
  let ?ls = "map (size_align \<circ> snd) ms"
  have "laid_out 0 (place_end 0 ?ls) (zip (place 0 ?ls) ?ls)"
    using assms by (intro laid_out_place) (auto simp: list_all_iff proper_def)
  then have "laid_out 0 (sizeof (CStruct ms)) (zip (place 0 ?ls) ?ls)"
    unfolding size_align_struct fst_conv by (rule laid_out_mono) (simp add: align_up_ge)
  then show ?thesis
    by (simp add: well_laid_out_def offsets_def proper_def size_align_struct del: size_align.simps)
qed

lemma union_laid_out: "well_laid_out (CUnion ms)"
proof -
  have "sizeof (snd m) \<le> sizeof (CUnion ms)" if "m \<in> set ms" for m
    using foldr_max_ge [of "sizeof (snd m)" "map (sizeof \<circ> snd) ms"] that
      align_up_ge [OF max_align_pos] unfolding size_align_union fst_conv by (auto intro: order_trans)
  then show ?thesis
    by (simp add: well_laid_out_def proper_def size_align_union list_all_iff del: size_align.simps)
qed

lemma proper_types [simp]:
  "0 < n \<Longrightarrow> proper (size_align (CScalar n))"
  "proper (size_align t) \<Longrightarrow> proper (size_align (CArray t n))"
  "proper (size_align (CStruct ms))" "proper (size_align (CUnion ms))"
  by (simp_all add: proper_def size_align_struct size_align_union del: size_align.simps(4,5))

lemmas layout_simps = offsets_def align_up_def max_align_def

lemma ibv_sizes:
  "sizeof ibv_gid_t = 16" "sizeof ibv_device_attr_t = 232" "sizeof ibv_port_attr_t = 56" "sizeof ibv_wc_t = 48"
  "sizeof ibv_qp_init_attr_t = 64" "sizeof ibv_qp_attr_t = 144" "sizeof ibv_send_wr_t = 128"
  by (simp_all add: ibv_structure_defs layout_simps)

lemma ibv_offsets:
  "offsetof (ibv_context_t mutex cond) [''ops'', ''poll_cq''] = Some 96"
  "offsetof (ibv_context_t mutex cond) [''ops'', ''post_send''] = Some 208"
  "offsetof (ibv_qp_t mutex cond) [''qp_num''] = Some 52"
  "offsetof ibv_mr_t [''rkey''] = Some 40"
  "offsetof ibv_device_attr_t [''vendor_id''] = Some 96"
  "offsetof ibv_device_attr_t [''phys_port_cnt''] = Some 227"
  by (simp_all add: ibv_structure_defs layout_simps)



text \<open>
  The enumerations have no two enumerators of the same value. The access flags are those of the kernel, and each set of flags
  is made of different bits; the optional access flags are the bits from 20 to 29, and relaxed ordering is the
  only one in use. The flags that the library sets are those of the header.
\<close>

definition ibv_enumerations :: "enumeration list" where
  "ibv_enumerations = [ib_uverbs_access_flags_enum, ibv_gid_type_enum, ibv_node_type_enum, ibv_transport_type_enum,
     ibv_atomic_cap_enum, ibv_mtu_enum, ibv_port_state_enum, link_layer_enum, ibv_wc_flags_enum, ibv_wc_opcode_enum,
     ibv_wc_status_enum, ibv_access_flags_enum, ibv_qp_type_enum, ibv_qp_attr_mask_enum, ibv_qp_state_enum,
     ibv_mig_state_enum, ibv_wr_opcode_enum, ibv_send_flags_enum]"

lemmas ibv_enumeration_defs = ib_uverbs_access_flags_enum_def ibv_gid_type_enum_def ibv_node_type_enum_def
  ibv_transport_type_enum_def ibv_atomic_cap_enum_def ibv_mtu_enum_def ibv_port_state_enum_def link_layer_enum_def
  ibv_wc_flags_enum_def ibv_wc_opcode_enum_def ibv_wc_status_enum_def ibv_access_flags_enum_def ibv_qp_type_enum_def
  ibv_qp_attr_mask_enum_def ibv_qp_state_enum_def ibv_mig_state_enum_def ibv_wr_opcode_enum_def ibv_send_flags_enum_def
  IBV_ACCESS_OPTIONAL_FIRST_def IBV_ACCESS_OPTIONAL_LAST_def IBV_ACCESS_OPTIONAL_RANGE_def

lemma enum_values_distinct: "list_all (\<lambda>es. distinct (enum_values es)) ibv_enumerations"
  by (simp add: ibv_enumerations_def ibv_enumeration_defs)

lemma access_flags_of_kernel: "enum_values ibv_access_flags_enum = enum_values ib_uverbs_access_flags_enum"
  by (simp add: ibv_enumeration_defs)

definition flag_enumerations :: "enumeration list" where
  "flag_enumerations = [ib_uverbs_access_flags_enum, ibv_wc_flags_enum, ibv_access_flags_enum, ibv_qp_attr_mask_enum,
     ibv_send_flags_enum]"

lemma flags_are_bits:
  "list_all (\<lambda>es. list_all (\<lambda>v. 0 < v \<and> v AND (v - 1) = 0) (enum_values es)) flag_enumerations"
  by (simp add: flag_enumerations_def ibv_enumeration_defs)

lemma optional_range: "filter (\<lambda>v. v AND IBV_ACCESS_OPTIONAL_RANGE \<noteq> 0) (enum_values ibv_access_flags_enum) =
    [IBV_ACCESS_OPTIONAL_FIRST]"
  by (simp add: ibv_enumeration_defs)

lemma library_flags:
  "map_of (enum_from 0 ibv_access_flags_enum) ''IBV_ACCESS_REMOTE_READ'' = Some (uint IBV_ACCESS_REMOTE_READ)"
  "map_of (enum_from 0 ibv_qp_attr_mask_enum) ''IBV_QP_DEST_QPN'' = Some (uint IBV_QP_DEST_QPN)"
  by (simp_all add: ibv_enumeration_defs ibv_flag_defs)

end
