(* ===== verification/Well_Typed.thy ===== *)
theory Well_Typed
  imports Api
begin

text \<open>
  The lists of bytes that stand for arrays keep their lengths. A GID is an array of 16 bytes in the sources and a list in the
  model, so the round trips of theory \<^verbatim>\<open>Token\<close> ask for \<^const>\<open>wf_gid\<close>; here it is shown that the GIDs that the library puts
  into tokens satisfy it, given only that libibverbs fills in its own \<^verbatim>\<open>union ibv_gid\<close>. So every token that an
  initialized library hands out is one that a peer can decode.
\<close>

text \<open>\<open>results Q m\<close>: whatever the state, what \<open>m\<close> gives back satisfies \<open>Q\<close>.\<close>

definition results :: "('a \<Rightarrow> bool) \<Rightarrow> ('s, 'a) state \<Rightarrow> bool" where
  "results Q m \<longleftrightarrow> (\<forall>s. wp m (\<lambda>r _. Q r) s)"

lemma resultsD: "results Q m \<Longrightarrow> wp m (\<lambda>r _. Q r) s"
  by (simp add: results_def)

lemma results_return [simp]: "results Q (State_Monad.return r) \<longleftrightarrow> Q r"
  by (simp add: results_def)

lemma results_bind:
  assumes "results A m" "\<And>a. A a \<Longrightarrow> results Q (f a)"
  shows "results Q (State_Monad.bind m f)"
  unfolding results_def by (intro allI wp_bindI [OF resultsD [OF assms(1)]]) (rule resultsD [OF assms(2)])

lemma results_any: "(\<And>a. results Q (f a)) \<Longrightarrow> results Q (State_Monad.bind m f)"
  by (rule results_bind [where A = "\<lambda>_. True"]) (simp_all add: results_def wp_any)

text \<open>What \<^verbatim>\<open>ibv_query_gid\<close> writes is a \<^verbatim>\<open>union ibv_gid\<close>, of 16 bytes.\<close>

definition typed_verbs :: "'e Verbs \<Rightarrow> bool" where
  "typed_verbs V \<longleftrightarrow> (\<forall>c port i e. wf_gid (toGid (snd (fst (run_state (v_query_gid V c port i) e)))))"

definition typed_device :: "RdmaDevice \<Rightarrow> bool" where
  "typed_device d \<longleftrightarrow> wf_gid (toGid (localGid d))"

lemma typed_query_gid: "typed_verbs V \<Longrightarrow> results (\<lambda>g. wf_gid (toGid (snd g))) (liftE (v_query_gid V c port i))"
  unfolding results_def typed_verbs_def wp_liftE_iff by (metis case_prod_conv fst_conv surj_pair)

lemma typed_finishOpen:
  assumes "typed_verbs V"
  shows "results (pred_option typed_device) (finishOpen V T c)"
  unfolding finishOpen_def
proof (rule results_any, goal_cases)
  case (1 opd)
  show ?case
  proof (cases opd)
    case (Some pdv)
    show ?thesis
      unfolding Some option.case
    proof (rule results_any, goal_cases)
      case (1 port)
      show ?case
      proof (cases "fst port = 0")
        case True
        show ?thesis
          unfolding True Let_def
          by (simp, rule results_any, rule results_bind [OF typed_query_gid [OF assms]])
             (auto intro!: results_any simp: typed_device_def)
      qed (auto intro!: results_any)
    qed
  qed (auto intro!: results_any)
qed

lemma typed_openRdmaDevice: "typed_verbs V \<Longrightarrow> results (pred_option typed_device) (openRdmaDevice V T n)"
  unfolding openRdmaDevice_def by (auto intro!: results_any typed_finishOpen split: option.splits)

lemma typed_openRdmaDeviceByName:
  assumes "typed_verbs V"
  shows "results (pred_option typed_device) (openRdmaDeviceByName V T nm)"
proof -
  have opened: "results (pred_option typed_device) (if i < 0 then State_Monad.return None else openRdmaDevice V T i)" for i
    using typed_openRdmaDevice [OF assms] by simp
  have step: "results (pred_option typed_device) (do {
          r \<leftarrow> (if i < 0 then State_Monad.return None else openRdmaDevice V T i);
          _ \<leftarrow> IbvDeviceListDeleter V l;
          State_Monad.return r })" for i l
    by (rule results_bind [OF opened]) (auto intro!: results_any)
  show ?thesis
    unfolding openRdmaDeviceByName_def by (auto intro!: step results_any split: option.splits)
qed

text \<open>The connection that tokens are made from is on the device that was opened.\<close>

lemma createRcConnection_device: "results (pred_option (\<lambda>conn. conn_device conn = d)) (createRcConnection V d n s r)"
  unfolding createRcConnection_def Let_def by (auto intro!: results_any split: option.splits)

lemma newInstance_tokenConn: "results (\<lambda>inst. inst_tokenConn inst = conn) (newInstance P opts cfg d conn)"
  unfolding newInstance_def by (auto intro!: results_any)

abbreviation failed :: "hipObjError_t \<Rightarrow> bool" where
  "failed err \<equiv> opError err \<noteq> hipObjSuccess"

lemma chooseGpu_fails: "results (pred_sum failed top) (chooseGpu H gpu hint)"
  unfolding chooseGpu_def by (auto intro!: results_any)

definition typed_instance :: "Instance \<Rightarrow> bool" where
  "typed_instance inst \<longleftrightarrow> typed_device (conn_device (inst_tokenConn inst))"

lemma typed_buildInstance:
  assumes "typed_verbs (verbs P)"
  shows "results (pred_sum failed typed_instance) (buildInstance P cfg opts)"
proof -
  have new: "results (pred_sum failed typed_instance) (do {
      inst \<leftarrow> newInstance P opts rcfg d conn;
      if pool_size (inst_pool inst) \<noteq> unat (maxTransfers opts)
      then do { _ \<leftarrow> destroyInstance P inst; State_Monad.return (Inl (mkError hipObjRdmaError)) }
      else State_Monad.return (Inr inst) })"
    if "typed_device d" "conn_device conn = d" for rcfg d conn
    by (rule results_bind [OF newInstance_tokenConn]) (use that in \<open>auto simp: typed_instance_def intro!: results_any\<close>)
  have connect: "results (pred_sum failed typed_instance) (do {
      tokenConn \<leftarrow> createRcConnection (verbs P) d kCqSize kMaxSendWr kMaxRecvWr;
      case tokenConn of
        None \<Rightarrow> do { _ \<leftarrow> destroyRdmaDevice (verbs P) d; State_Monad.return (Inl (mkError hipObjRdmaError)) }
      | Some conn \<Rightarrow> do {
          inst \<leftarrow> newInstance P opts rcfg d conn;
          if pool_size (inst_pool inst) \<noteq> unat (maxTransfers opts)
          then do { _ \<leftarrow> destroyInstance P inst; State_Monad.return (Inl (mkError hipObjRdmaError)) }
          else State_Monad.return (Inr inst)
        } })" if "typed_device d" for rcfg d
  proof (rule results_bind [OF createRcConnection_device], goal_cases)
    case (1 tokenConn)
    show ?case
    proof (cases tokenConn)
      case (Some conn)
      show ?thesis
        unfolding Some option.case by (rule new [OF that]) (use 1 Some in simp)
    qed (auto intro!: results_any)
  qed
  show ?thesis
    unfolding buildInstance_def Let_def
  proof (rule results_bind [OF chooseGpu_fails], goal_cases)
    case (1 gpu)
    then show ?case
    proof (cases gpu)
      case (Inr g)
      show ?thesis
        unfolding Inr sum.case
      proof (rule results_any, goal_cases)
        case (1 onic)
        show ?case
          by (cases onic) (auto intro!: results_bind [OF typed_openRdmaDeviceByName [OF assms]] connect split: option.splits)
      qed
    qed (use 1 in simp)
  qed
qed

subsection \<open>Tokens that are handed out\<close>

text \<open>A typed instance, also after one of its operations has run, makes tokens that can be decoded.\<close>

lemma typed_token:
  "typed_device (conn_device conn) \<Longrightarrow> buildRdmaToken conn b sz off = Some t \<Longrightarrow> wf_token t \<and> tokenLength t = sz"
  by (auto simp: buildRdmaToken_def typed_device_def wf_token_def split: if_splits)

definition typed_at :: "nat \<Rightarrow> 'e sys \<Rightarrow> bool" where
  "typed_at i s \<longleftrightarrow> (\<exists>inst n. entry_at (instances s) i = Some (inst, n) \<and> typed_instance inst)"

lemma wp_onInstance_typed:
  assumes "typed_at i s" "\<And>inst. typed_instance inst \<Longrightarrow> results (\<lambda>r. typed_instance (snd r)) (f inst)"
  shows "wp (onInstance i f) (\<lambda>_ s'. typed_at i s' \<and> tokens s' = tokens s) s"
proof -
  obtain inst n where at: "entry_at (instances s) i = Some (inst, n)" "typed_instance inst"
    using assms(1) by (auto simp: typed_at_def)
  show ?thesis
    unfolding wp_onInstance_iff [OF at(1)]
    by (rule wp_conseq [OF resultsD [OF assms(2) [OF at(2)]]])
       (use entry_at_bound [OF at(1)] in \<open>auto simp: typed_at_def entry_at_update\<close>)
qed

lemma typed_operations:
  "typed_instance inst \<Longrightarrow> results (\<lambda>r. typed_instance (snd r)) (instFind p inst)"
  "typed_instance inst \<Longrightarrow> results (\<lambda>r. typed_instance (snd r)) (instDropRef P j inst)"
  "typed_instance inst \<Longrightarrow> results (\<lambda>r. typed_instance (snd r)) (checkNoAbandonedCopy P j inst)"
  by (auto simp: typed_instance_def instFind_def instDropRef_def checkNoAbandonedCopy_def split_beta
      intro!: results_any split: prod.splits)

lemma wp_drop_instance_tokens: "wp (drop_instance P i) (\<lambda>_ s'. tokens s' = tokens s) s"
  unfolding drop_instance_def by (auto intro!: wp_conseq [OF wp_any] split: option.splits)

text \<open>Memory that holds a token for a range of the given length, ended by NUL.\<close>

definition decodable :: "size_t \<Rightarrow> string option \<Rightarrow> bool" where
  "decodable sz mem \<longleftrightarrow> (\<exists>text t. mem = Some (text @ [NUL]) \<and> length text = kRdmaTokenHexLen \<and>
     decodeRdmaTokenHex text = Some t \<and> tokenLength t = sz)"

lemma encodeRdmaTokenHex_decodable:
  assumes "wf_token t" "tokenLength t = sz"
  shows "decodable sz (Some (encodeRdmaTokenHex t))"
proof -
  have "encodeRdmaTokenHex t = encodeRdmaToken t @ [NUL]"
    using encodeRdmaToken_hex [OF assms(1)] by (simp add: encodeRdmaTokenHex_def)
  then show ?thesis
    using length_encodeRdmaToken [OF assms(1)] decode_encodeRdmaToken [OF assms(1)] assms(2) by (simp add: decodable_def)
qed

definition handed_out :: "size_t \<Rightarrow> (hipObjError_t \<times> nat option) outcome \<Rightarrow> string option list \<Rightarrow> bool" where
  "handed_out sz r ts \<longleftrightarrow> (\<forall>err k. r = Return (err, Some k) \<longrightarrow> k < length ts \<and> decodable sz (ts ! k))"

lemma handed_out_none [simp]: "handed_out sz (Return (err, None)) ts" "handed_out sz Throw ts"
  by (simp_all add: handed_out_def)

lemma wp_withBuffer_typed:
  assumes "typed_at i s" "\<And>buf s'. typed_at i s' \<Longrightarrow> wp (f buf) (\<lambda>r s''. typed_at i s'' \<and> Q r (tokens s'')) s'"
  shows "wp (withBuffer P i p f) (\<lambda>r s'. Q r (tokens s')) s"
proof -
  have drop: "wp (onInstance i (instDropRef P j)) (\<lambda>_ s''. Q r (tokens s'')) s'" if "typed_at i s'" "Q r (tokens s')" for j r s'
    by (rule wp_conseq [OF wp_onInstance_typed [OF that(1) typed_operations(2)]]) (use that in auto)
  have body: "wp (finallyO (f (Some j)) (onInstance i (instDropRef P j))) (\<lambda>r s''. Q r (tokens s'')) s'" if "typed_at i s'" for j s'
    by (rule wp_finallyO [OF assms(2) [OF that]]) (auto intro: drop)
  show ?thesis
    unfolding withBuffer_def
    by (rule wp_bindI [OF wp_onInstance_typed [OF assms(1) typed_operations(1)]])
       (auto intro!: body wp_conseq [OF assms(2)] split: option.splits)
qed

lemma wp_withCheckedBuffer_typed:
  assumes "typed_at i s" "\<And>err ts. Q (Return (fail err)) ts"
    and "\<And>j s'. typed_at i s' \<Longrightarrow> wp (f j) (\<lambda>r s''. typed_at i s'' \<and> Q r (tokens s'')) s'"
  shows "wp (withCheckedBuffer P i p sz off fail f) (\<lambda>r s'. Q r (tokens s')) s"
  unfolding withCheckedBuffer_def
proof (rule wp_withBuffer_typed [OF assms(1)], goal_cases)
  case (1 buf s')
  have "wp (bindO (liftO (onInstance i (checkNoAbandonedCopy P j))) (\<lambda>err'.
          if opError err' \<noteq> hipObjSuccess then State_Monad.return (Return (fail err')) else f j))
        (\<lambda>r s''. typed_at i s'' \<and> Q r (tokens s'')) s'" for j
    unfolding bindO_def
    by (auto simp: assms(2) intro!: wp_conseq [OF wp_onInstance_typed [OF 1 typed_operations(3)]] assms(3))
  with 1 show ?case
    by (auto simp: wp_readInstance assms(2) Let_def split: option.splits)
qed

lemma wp_allocate_typed:
  assumes "typed_at i s"
  shows "wp (do {
           inst \<leftarrow> readInstance i;
           case buildRdmaToken (inst_tokenConn inst) (bufAt inst j) sz 0 of
             None \<Rightarrow> State_Monad.return (Return (mkError hipObjRdmaError, None))
           | Some token \<Rightarrow> do {
               copy \<leftarrow> allocateToken (encodeRdmaTokenHex token);
               State_Monad.return (Return (mkError hipObjSuccess, Some copy))
             } }) (\<lambda>r s'. typed_at i s' \<and> handed_out sz r (tokens s')) s"
proof -
  obtain inst n where at: "entry_at (instances s) i = Some (inst, n)" "typed_device (conn_device (inst_tokenConn inst))"
    using assms by (auto simp: typed_at_def typed_instance_def)
  have dec: "decodable sz (Some (encodeRdmaTokenHex t))" if "buildRdmaToken (inst_tokenConn inst) (bufAt inst j) sz 0 = Some t" for t
    using typed_token [OF at(2) that] encodeRdmaTokenHex_decodable by blast
  have alloc: "wp (allocateToken c) Q s \<longleftrightarrow> Q (length (tokens s)) (s\<lparr>tokens := tokens s @ [Some c]\<rparr>)" for c Q
    by (simp add: allocateToken_def wp_def)
  have "typed_at i (s\<lparr>tokens := ts\<rparr>)" for ts
    using assms by (simp add: typed_at_def)
  then show ?thesis
    using assms dec by (auto simp: wp_readInstance at(1) alloc handed_out_def split: option.splits)
qed

text \<open>C12. When libibverbs writes GIDs of 16 bytes, as its type says, a library that has just been initialized is well typed, and from an
  instance that is, every token that \<^verbatim>\<open>hipObjGetRdmaToken\<close> hands out is text of exactly the documented length,
  ended by NUL, that decodes to a token for the length asked for.\<close>

theorem tokens_handed_out_decode:
  "(typed_verbs (verbs P) \<longrightarrow>
    wp (initWith P cfg opts) (\<lambda>err s'. opError err = hipObjSuccess \<longrightarrow> (\<exists>i. current s' = Some i \<and> typed_at i s')) s) \<and>
   (current s = Some i \<and> typed_at i s \<longrightarrow>
    wp (hipObjGetRdmaToken P p sz op out) (\<lambda>r s'. handed_out sz r (tokens s')) s)"
proof (intro conjI impI)
  assume typed: "typed_verbs (verbs P)"
  show "wp (initWith P cfg opts) (\<lambda>err s'. opError err = hipObjSuccess \<longrightarrow> (\<exists>i. current s' = Some i \<and> typed_at i s')) s"
    unfolding initWith_def
    by (auto simp: typed_at_def make_shared_def intro!: wp_conseq [OF resultsD [OF typed_buildInstance [OF typed]]]
        split: sum.splits)
next
  assume "current s = Some i \<and> typed_at i s"
  then have cur: "current s = Some i" and at: "typed_at i s"
    by simp_all
  let ?s = "s\<lparr>instances := copy_ref i (instances s)\<rparr>"
  have at': "typed_at i ?s"
    using at copy_ref_at by (fastforce simp: typed_at_def)
  have drop: "wp (drop_instance P i) (\<lambda>_ s''. handed_out sz r (tokens s'')) s'" if "handed_out sz r (tokens s')" for r s'
    by (rule wp_conseq [OF wp_drop_instance_tokens]) (use that in simp)
  have body: "wp (withCheckedBuffer P i p sz 0 (\<lambda>err. (err, None)) f) (\<lambda>r s'. handed_out sz r (tokens s')) ?s"
    if "\<And>j s'. typed_at i s' \<Longrightarrow> wp (f j) (\<lambda>r s''. typed_at i s'' \<and> handed_out sz r (tokens s'')) s'" for f
    by (rule wp_withCheckedBuffer_typed [OF at']) (use that in auto)
  show "wp (hipObjGetRdmaToken P p sz op out) (\<lambda>r s'. handed_out sz r (tokens s')) s"
    unfolding hipObjGetRdmaToken_def withInstance_def
    by (rule wp_catchO [where P = "\<lambda>r s'. handed_out sz r (tokens s')"])
       (auto simp: currentInstance_def cur wp_def [of "State _"] intro!: drop body [OF wp_allocate_typed]
         wp_finallyO [where P = "\<lambda>r s'. handed_out sz r (tokens s')"])
qed

lemma sample_typed_verbs: "typed_verbs (verbs sample_platform)"
  by (simp add: typed_verbs_def sample_platform_def sample_verbs_def toGid_def wf_gid_def kGidLen_def kIpv4MappedPrefix_def)

lemma sample_typed_running: "current sample_running = Some 0 \<and> typed_at 0 sample_running"
proof
  show "current sample_running = Some 0"
    by (simp add: sample_running_def)
  have "typed_instance sample_inst"
    by (simp add: typed_instance_def typed_device_def sample_inst_def sample_conn_def sample_device01_def
        sample_rdma_device_def wf_gid_def kGidLen_def toGid_def kIpv4MappedPrefix_def)
  then show "typed_at 0 sample_running"
    by (simp add: typed_at_def sample_running_at)
qed

theorem tokens_handed_out_decode_witness:
  "wp (initWith sample_platform sample_config sample_options)
     (\<lambda>err s'. opError err = hipObjSuccess \<longrightarrow> (\<exists>i. current s' = Some i \<and> typed_at i s')) sample_running \<and>
   wp (hipObjGetRdmaToken sample_platform 8192 512 0 True) (\<lambda>r s'. handed_out 512 r (tokens s')) sample_running"
  using tokens_handed_out_decode [where P = sample_platform and s = sample_running and i = 0 and p = 8192 and sz = 512 and
      op = 0 and out = True] sample_typed_verbs sample_typed_running by blast

end
