(* ===== verification/Spec2Isabelle.thy ===== *)
theory Spec2Isabelle
  imports Locks Getput_Rdma Diagnostics Owning_Ptr Ibv_Abi Well_Typed
begin

text \<open>
  Verification of hipObject, the client library that moves S3 objects to and from GPU or host memory
  over RDMA. The library does not speak S3: an application hands it callbacks that put a token into a
  request and take a reply out of the response, and the server reads or writes the registered memory
  with one-sided RDMA operations that the token allows.

  \<^bold>\<open>The parts and where they are modelled.\<close> From the bottom up, with the sources under \<^verbatim>\<open>src/\<close>:

  \<^item> \<^verbatim>\<open>Prelude\<close>: machine integers, outcomes (return, throw, wait for another thread, still running when
    the fuel is used up), weakest preconditions for the state monad, scopes with destructors.
  \<^item> \<^verbatim>\<open>Shared_Utils\<close>: \<^verbatim>\<open>shared/hipobj-parse.h\<close>, \<^verbatim>\<open>hipobj-span.h\<close>, \<^verbatim>\<open>hipobj-address.h\<close>: numbers, views of C strings.
  \<^item> \<^verbatim>\<open>Gid\<close>, \<^verbatim>\<open>Token\<close>: \<^verbatim>\<open>src/common/gid.h\<close>, \<^verbatim>\<open>src/rdma/token.cpp\<close>: the wire form of a token, the grammar of a
    reply, and the address of the client's NIC. Round trips, the layout, the exact grammar, buffer bounds.
  \<^item> \<^verbatim>\<open>Ibv_Core\<close>, \<^verbatim>\<open>Seams\<close>, \<^verbatim>\<open>Ibv_Wrapper\<close>: \<^verbatim>\<open>src/common/ibv-core.h\<close>, \<^verbatim>\<open>hip-seam.h\<close>, \<^verbatim>\<open>nic-seam.h\<close>,
    \<^verbatim>\<open>ibv-ptr.h\<close>, \<^verbatim>\<open>ibv-wrapper.cpp\<close>: the interfaces to libibverbs, HIP and the NIC topology, and the loader.
  \<^item> \<^verbatim>\<open>Ibv_Abi\<close>: \<^verbatim>\<open>ibv-core.h\<close> as a binary interface: the layout of every structure and the values of every
    enumeration, with members aligned, apart and inside their structure.
  \<^item> \<^verbatim>\<open>Owning_Ptr\<close>: \<^verbatim>\<open>ibv-ptr.h\<close>: owning pointers, created, moved, reset and dropped in any order; each object is
    released once, through the interface it came from.
  \<^item> \<^verbatim>\<open>Topology\<close>: \<^verbatim>\<open>src/common/rdma-topology.cpp\<close>: choosing a GID, enumerating NICs, the NIC closest to a GPU.
  \<^item> \<^verbatim>\<open>Transport\<close>: \<^verbatim>\<open>src/rdma/transport.cpp\<close> and the vendor attributes: devices, queue pairs and their
    transitions, draining and polling.
  \<^item> \<^verbatim>\<open>Pool\<close>, \<^verbatim>\<open>Pool_Threads\<close>: \<^verbatim>\<open>src/rdma/connection-pool.cpp\<close>: leases, first as operations of one thread and
    then as interleaved steps of any number of threads.
  \<^item> \<^verbatim>\<open>Locks\<close>: \<^verbatim>\<open>src/common/thread-safety.h\<close> and every critical section of the library: mutexes, scoped locks and the
    order in which they are taken, by any number of threads.
  \<^item> \<^verbatim>\<open>Api_Types\<close>, \<^verbatim>\<open>Buffer\<close>, \<^verbatim>\<open>Abandoned\<close>: \<^verbatim>\<open>src/buffer.cpp\<close>, \<^verbatim>\<open>src/abandoned-copies.cpp\<close>: registrations with
    their reference counts, and staging copies that timed out.
  \<^item> \<^verbatim>\<open>Library_State\<close>: \<^verbatim>\<open>src/state.cpp\<close>: the options, building and destroying an instance, and the library's
    state with its invariant.
  \<^item> \<^verbatim>\<open>S3_Control\<close>, \<^verbatim>\<open>Staging\<close>, \<^verbatim>\<open>Rdma_Transfer\<close>, \<^verbatim>\<open>Api\<close>: \<^verbatim>\<open>src/s3/control.cpp\<close> and \<^verbatim>\<open>src/hipobj.cpp\<close>: the
    application's callbacks, the argument checks and staging copies, one transfer, and the public functions.
  \<^item> \<^verbatim>\<open>System_Platform\<close>: \<^verbatim>\<open>src/common/hip-seam.cpp\<close>, \<^verbatim>\<open>dl-handle.h\<close>, \<^verbatim>\<open>no-destructor.h\<close> and \<^verbatim>\<open>systemPlatform\<close>: the
    process, with the platform it builds from HIP, libibverbs and sysfs on the first initialization. Public calls in it keep the
    invariant and open libibverbs once at most.
  \<^item> \<^verbatim>\<open>Well_Typed\<close>: the lists that stand for arrays keep their lengths from libibverbs to the tokens, so that every
    token handed out can be decoded.
  \<^item> \<^verbatim>\<open>Minio_Rdma\<close>, \<^verbatim>\<open>Minio_Client\<close>: \<^verbatim>\<open>integrations/minio-cpp/src/rdma.cpp\<close> and \<^verbatim>\<open>client.cpp\<close>: a client of the public
    functions. \<^verbatim>\<open>Minio_Rdma\<close> has the S3 requests that carry a token, what a response means, and the retries;
    \<^verbatim>\<open>Minio_Client\<close> the runtime that initializes the library on demand, the counters of transfers, and PUT and GET
    with their fallbacks to HTTP.
  \<^item> \<^verbatim>\<open>Curl_Ops\<close>, \<^verbatim>\<open>Example_Programs\<close>, \<^verbatim>\<open>Getput_Rdma\<close>: \<^verbatim>\<open>examples/\<close>, \<^verbatim>\<open>tools/hipobj-test-install\<close> and
    \<^verbatim>\<open>integrations/minio-cpp/examples/getput-rdma.cpp\<close>: the libcurl callbacks of the examples, and the programs, from their
    arguments to their exit status.
  \<^item> \<^verbatim>\<open>Diagnostics\<close>: \<^verbatim>\<open>shared/hipobj-print.h\<close>, the trace of the minio integration and the output of
    \<^verbatim>\<open>hipobj-test-install\<close>: printing always returns, and the trace is decided once.
  \<^item> \<^verbatim>\<open>Sample_Platform\<close>: a concrete platform, on which the theorems with hypotheses are applied.

  \<^bold>\<open>How state and effects correspond.\<close> HIP, libibverbs, sysfs, the clock and the application's callbacks
  are not part of the sources. They are functions on an environment, arguments of the model: every
  call returns what the environment answers, so a theorem about the library holds for every behaviour
  of them. A \<open>world\<close> keeps the environment and a log of what was acquired, released, copied and how
  queue pairs moved; \<^verbatim>\<open>live\<close> reads from the log what is still held, and is undefined after a second
  release. A class that owns resources is a record, its destructor a function, and a \<^verbatim>\<open>shared_ptr\<close> a cell of a
  heap with a use count. \<open>sys\<close> is the whole library: the world, the instances, which one is current,
  the calling thread's count of leases and the tokens handed out. Exceptions come from callbacks only; the
  model's allocations succeed. Durations are in milliseconds and clock readings in nanoseconds.

  \<^bold>\<open>The invariants.\<close> \<^verbatim>\<open>pool_inv\<close>, \<^verbatim>\<open>buf_inv\<close> and \<^verbatim>\<open>ab_inv\<close> say that every connection is free or leased once,
  in INIT unless its lease connected it, that use counts are exact, and that reserved room suffices; \<^verbatim>\<open>inst_inv\<close>
  joins them for an instance, and \<^verbatim>\<open>sys_inv H\<close> for the library, where \<open>H\<close> is what the calls in progress hold.
  Each operation's lemma is a weakest precondition with its resources and queue pairs accounted for, so the
  same lemmas give preservation, absence of leaks and double releases, and legal transitions. A call
  is \<^verbatim>\<open>call_ok\<close> when it keeps \<^verbatim>\<open>sys_inv\<close> for every \<open>H\<close>, which is both what is proved of every public function and
  what is asked of the callbacks; so callbacks may call the library, to any depth.

  \<^bold>\<open>The minio-cpp client.\<close> minio-cpp (URLs, signatures, HTTP, its own S3 client) and the memory of the host are
  parameters; the client's state \<open>app\<close> is the library's with the runtime and the counters. \<^verbatim>\<open>client_inv\<close> adds to
  \<^verbatim>\<open>sys_inv\<close> that the runtime claims no library that is not there. Shown are that every call keeps it and gives its tokens
  back, however it ends, what counts as a transfer by RDMA, that transfers are counted once, and that the two
  ways of copying an HTTP response agree and stay inside the buffer; also two paths that lose or misuse
  data: a PUT that an S3 server without RDMA answers, and the fallback without a library for device memory.

  \<^bold>\<open>The programs.\<close> libcurl, HIP's allocations and the system are parameters. The theorems are about whole runs: the examples
  clean up however they end and never report success without a server; what libcurl's headers carried is what the
  library decodes; and the minio-cpp example counts both of its transfers when it succeeds, does succeed over HTTP
  against a store that works, and finds the first difference when data comes back changed.

  \<^bold>\<open>Loops, bounds and fuel.\<close> Polling for a completion and waiting for a staging copy run until a deadline, and
  take fuel; with a clock that moves on, fuel above the timeout in nanoseconds is enough, and running
  out of it is an outcome of its own. Scanning ports takes fuel 256, enough unless the 8-bit
  counter wraps, which is shown to happen. Draining completions is bounded by the source itself.
  Everything else is structural.

  \<^bold>\<open>Locales.\<close> Fixed-width fields of a token, a map that counts its keys, the calls of an interface, parts of
  the state that calls leave alone, the objects of an interface and their deleters, static objects, and relations that a
  client's calls obey are stated as locales and interpreted on the model's definitions. The threads of the pool, and threads that take the library's mutexes, are
  inductive step relations, with invariants by rule induction over them; the pool is simulated by a semaphore.

  \<^bold>\<open>Not modelled.\<close> Initialization and shutdown hold one mutex for their whole length and are one step each;
  calls on different threads interleave in \<^verbatim>\<open>Pool_Threads\<close>, at the grain of the pool's mutex, and in \<^verbatim>\<open>Locks\<close>, which
  has the mutexes but not the data they guard. What the library and the programs print is modelled
  only where \<^verbatim>\<open>Diagnostics\<close> has it, and running out of memory has no model. \<^verbatim>\<open>put-object.cpp\<close> has copies of the helpers of
  \<^verbatim>\<open>get-object.cpp\<close>, which are modelled once. The generic span templates, the annotations that the thread safety analysis
  reads, compiler pragmas and declarations that a definition elsewhere implements have nothing of their own to model.
\<close>

end
